(* ===== verification/Prelude.thy ===== *)
theory Prelude
  imports Main "HOL-Library.Word" "HOL-Library.List_Lexorder"
begin

section \<open>Machine words, byte buffers and undefined behaviour\<close>

text \<open>
  The types every component shares, with the lemmas on words and byte lists they need.
  A \<open>std::byte\<close> or \<open>uint8_t\<close> is an \<open>8 word\<close>, \<open>uint16_t\<close>, \<open>uint32_t\<close> and \<open>uint64_t\<close>
  are words of their width; a span, a \<open>std::vector<std::byte>\<close>, a \<open>std::array<std::byte, n>\<close>
  and the contents of a \<open>std::string\<close> are byte lists.  The host is little-endian, so
  \<open>htons\<close> and \<open>ntohs\<close> swap the bytes and the bytes of an object in memory start with its
  least significant one.  What C++ leaves undefined is the value \<open>Inl (UB why)\<close> of a sum.
\<close>

unbundle bit_operations_syntax

named_theorems wire_simps \<open>evaluation of the wire encodings\<close>
named_theorems inv_intros \<open>preservation of the components' invariants\<close>

type_synonym byte = "8 word"
type_synonym bytes = "8 word list"
type_synonym u16 = "16 word"
type_synonym u32 = "32 word"
type_synonym u64 = "64 word"

subsection \<open>Undefined behaviour as a value\<close>

datatype undefined_behaviour =
  Read_out_of_bounds   \<comment> \<open>an element of a span or an array past its end is read\<close>
| Write_out_of_bounds  \<comment> \<open>an iterator is written past the end of its buffer\<close>
| Empty_dereference    \<comment> \<open>an optional or expected object without a value is dereferenced\<close>
| Use_after_free       \<comment> \<open>an object is used after its destruction\<close>

type_synonym 'a cpp = "undefined_behaviour + 'a"

fun bind_cpp :: "'a cpp \<Rightarrow> ('a \<Rightarrow> 'b cpp) \<Rightarrow> 'b cpp" where
  "bind_cpp (Inl e) f = Inl e"
| "bind_cpp (Inr x) f = f x"

lemma bind_cpp_eq_Inl: "bind_cpp r f = Inl why \<longleftrightarrow> r = Inl why \<or> (\<exists>x. r = Inr x \<and> f x = Inl why)"
  by (cases r) auto

lemma bind_cpp_eq_Inr [simp]: "bind_cpp m f = Inr y \<longleftrightarrow> (\<exists>x. m = Inr x \<and> f x = Inr y)"
  by (cases m) auto

lemma bind_cpp_assoc: "bind_cpp (bind_cpp m f) g = bind_cpp m (\<lambda>x. bind_cpp (f x) g)"
  by (cases m) auto

text \<open>\<open>span[i]\<close> of \<open>std::span\<close>, whose precondition is \<open>i < size()\<close>.\<close>

definition span_at :: "bytes \<Rightarrow> nat \<Rightarrow> byte cpp" where
  "span_at bs i = (if i < length bs then Inr (bs ! i) else Inl Read_out_of_bounds)"

lemma span_at_in [simp]: "i < length bs \<Longrightarrow> span_at bs i = Inr (bs ! i)"
  by (simp add: span_at_def)

lemma span_at_out [simp]: "length bs \<le> i \<Longrightarrow> span_at bs i = Inl Read_out_of_bounds"
  by (simp add: span_at_def)

text \<open>
  \<open>std::ranges::copy(bs, iter).out\<close> into a buffer: an output iterator is the buffer with the
  position it points to.
\<close>

type_synonym iter = "bytes \<times> nat"

fun copy_out :: "bytes \<Rightarrow> iter \<Rightarrow> iter cpp" where
  "copy_out bs (buf, pos) =
     (if pos + length bs \<le> length buf
      then Inr (take pos buf @ bs @ drop (pos + length bs) buf, pos + length bs)
      else Inl Write_out_of_bounds)"

text \<open>The buffer after the bytes \<open>bs\<close> have been written at \<open>pos\<close>.\<close>

definition overwrite :: "bytes \<Rightarrow> nat \<Rightarrow> bytes \<Rightarrow> bytes" where
  "overwrite buf pos bs = take pos buf @ bs @ drop (pos + length bs) buf"

lemma copy_out_fits:
  "pos + length bs \<le> length buf \<Longrightarrow> copy_out bs (buf, pos) = Inr (overwrite buf pos bs, pos + length bs)"
  by (simp add: overwrite_def)

lemma length_overwrite [simp]:
  "pos + length bs \<le> length buf \<Longrightarrow> length (overwrite buf pos bs) = length buf"
  by (simp add: overwrite_def)

lemma overwrite_append:
  "pos + length bs + length cs \<le> length buf \<Longrightarrow>
   overwrite (overwrite buf pos bs) (pos + length bs) cs = overwrite buf pos (bs @ cs)"
  by (simp add: overwrite_def add.assoc add.commute add.left_commute)

lemma overwrite_append_at:
  "k = pos + length bs \<Longrightarrow> k + length cs \<le> length buf \<Longrightarrow>
   overwrite (overwrite buf pos bs) k cs = overwrite buf pos (bs @ cs)"
  by (simp add: overwrite_append)

lemma overwrite_all: "length bs = length buf \<Longrightarrow> overwrite buf 0 bs = bs"
  by (simp add: overwrite_def)

lemma overwrite_Nil [simp]: "overwrite buf pos [] = buf"
  by (simp add: overwrite_def)

lemma list_eq_conv_nth: "xs = ys \<longleftrightarrow> length xs = length ys \<and> (\<forall>i < length xs. xs ! i = ys ! i)"
  by (simp add: list_eq_iff_nth_eq)

lemma length_2_conv: "length xs = 2 \<longleftrightarrow> (\<exists>a b. xs = [a, b])"
  by (auto simp: numeral_2_eq_2 length_Suc_conv)

lemma length_ge_2_conv: "2 \<le> length xs \<longleftrightarrow> (\<exists>a b ys. xs = a # b # ys)"
  by (auto simp: numeral_2_eq_2 Suc_le_length_iff)

subsection \<open>Byte order\<close>

definition htons :: "u16 \<Rightarrow> u16" where
  "htons w = push_bit 8 w OR drop_bit 8 w"

definition ntohs :: "u16 \<Rightarrow> u16" where
  "ntohs w = push_bit 8 w OR drop_bit 8 w"

definition htonl :: "u32 \<Rightarrow> u32" where
  "htonl w = push_bit 24 w OR (push_bit 8 w AND 0x00FF0000) OR (drop_bit 8 w AND 0x0000FF00)
     OR drop_bit 24 w"

text \<open>\<open>std::as_bytes\<close> of an integer object, and the integer a byte pair holds.\<close>

definition as_bytes16 :: "u16 \<Rightarrow> bytes" where
  "as_bytes16 w = [ucast w, ucast (drop_bit 8 w)]"

definition as_bytes32 :: "u32 \<Rightarrow> bytes" where
  "as_bytes32 w = [ucast w, ucast (drop_bit 8 w), ucast (drop_bit 16 w), ucast (drop_bit 24 w)]"

definition of_bytes16 :: "byte \<Rightarrow> byte \<Rightarrow> u16" where
  "of_bytes16 lo hi = ucast lo OR push_bit 8 (ucast hi)"

lemma length_as_bytes [simp]: "length (as_bytes16 w) = 2" "length (as_bytes32 v) = 4"
  by (simp_all add: as_bytes16_def as_bytes32_def)

lemma ntohs_htons [simp]: "ntohs (htons w) = w"
  by (rule bit_word_eqI) (auto simp: ntohs_def htons_def bit_simps)

lemma htons_ntohs [simp]: "htons (ntohs w) = w"
  by (rule bit_word_eqI) (auto simp: ntohs_def htons_def bit_simps)

lemma of_as_bytes16:
  "of_bytes16 (as_bytes16 w ! 0) (as_bytes16 w ! 1) = w"
  by (rule bit_word_eqI) (auto simp: of_bytes16_def as_bytes16_def bit_simps)

lemma byte_bit: "bit (x :: byte) n \<Longrightarrow> n < 8"
  by (drule bit_imp_le_length) simp

lemma as_of_bytes16 [simp]: "as_bytes16 (of_bytes16 a b) = [a, b]"
proof -
  have "ucast (of_bytes16 a b) = a"
    by (rule bit_word_eqI) (auto simp: of_bytes16_def bit_simps dest: byte_bit)
  moreover have "ucast (drop_bit 8 (of_bytes16 a b)) = b"
    by (rule bit_word_eqI) (auto simp: of_bytes16_def bit_simps dest: byte_bit)
  ultimately show ?thesis by (simp add: as_bytes16_def)
qed

text \<open>The two bytes of a value in network order, most significant first.\<close>

lemma as_bytes16_htons: "as_bytes16 (htons w) = [ucast (drop_bit 8 w), ucast w]"
proof -
  have "ucast (htons w) = (ucast (drop_bit 8 w) :: byte)"
    by (rule bit_word_eqI) (auto simp: htons_def bit_simps)
  moreover have "ucast (drop_bit 8 (htons w)) = (ucast w :: byte)"
    by (rule bit_word_eqI) (auto simp: htons_def bit_simps)
  ultimately show ?thesis by (simp add: as_bytes16_def)
qed

lemma ntohs_of_bytes16_network:
  "ntohs (of_bytes16 (as_bytes16 (htons w) ! 0) (as_bytes16 (htons w) ! 1)) = w"
  by (simp only: of_as_bytes16 ntohs_htons)

lemma less_u16_bound: "unat (t :: u16) < 2 ^ 64" "unat (t :: u16) < 18446744073709551616"
  using unsigned_less [of t, where 'a = nat] by simp_all

subsection \<open>Signed conversions\<close>

text \<open>\<open>static_cast<int>\<close> of a 64-bit unsigned value: the value modulo \<open>2 ^ 32\<close>, read as two's
  complement (C++20).\<close>

definition int_cast :: "u64 \<Rightarrow> int" where
  "int_cast d = sint (ucast d :: 32 word)"

lemma int_cast_small: "uint d < 2 ^ 31 \<Longrightarrow> int_cast d = uint d"
proof -
  assume d: "uint d < 2 ^ 31"
  have "uint (ucast d :: 32 word) = take_bit 32 (uint d)"
    by (simp add: unsigned_ucast_eq)
  also have "\<dots> = uint d"
    by (rule take_bit_int_eq_self) (use d in simp_all)
  finally have u: "uint (ucast d :: 32 word) = uint d" .
  have "int_cast d = signed_take_bit 31 (uint (ucast d :: 32 word))"
    by (simp add: int_cast_def sint_uint)
  also have "\<dots> = uint d"
    unfolding u by (rule signed_take_bit_int_eq_self)
      (use d uint_ge_0 [of d] in \<open>simp_all add: order_trans [of _ 0]\<close>)
  finally show ?thesis .
qed

end
