(* ===== verification/Lldp_Packet.thy ===== *)
theory Lldp_Packet
  imports Prelude
begin

section \<open>LLDP data units and their wire format\<close>

text \<open>
  The structures and the codec of \<open>lldp_packet.cc\<close> (with the constants of \<open>lldp.hh\<close>): a TLV
  has a 16-bit header in network order, seven bits of type and nine of length, followed by
  its value; a data unit is the chassis, port and time-to-live TLVs, any number of optional
  TLVs and a two-byte end marker; an Ethernet frame puts a 14-byte header before it.
  Writing goes through an output iterator into a buffer of fixed size, where an overrun is
  \<open>Inl Write_out_of_bounds\<close>; reading consumes the front of a span.
\<close>

subsection \<open>Constants\<close>

text \<open>\<open>enum TLV : uint8_t\<close>; a value the enumeration does not name is still a value of the type.\<close>

definition END_OF_LLDPDU :: byte where "END_OF_LLDPDU = 0"
definition CHASSIS_ID :: byte where "CHASSIS_ID = 1"
definition PORT_ID :: byte where "PORT_ID = 2"
definition TIME_TO_LIVE :: byte where "TIME_TO_LIVE = 3"
definition MANAGEMENT_ADDRESS :: byte where "MANAGEMENT_ADDRESS = 8"

definition TYPE_BIT_OFFSET :: nat where "TYPE_BIT_OFFSET = 9"
definition TYPE_MASK :: u16 where "TYPE_MASK = push_bit TYPE_BIT_OFFSET 1 - 1"

definition MANAGEMENT_TLV_ADDRESS_SUBTYPE_IPV4 :: byte where "MANAGEMENT_TLV_ADDRESS_SUBTYPE_IPV4 = 1"
definition MANAGEMENT_TLV_ADDRESS_SUBTYPE_IPV6 :: byte where "MANAGEMENT_TLV_ADDRESS_SUBTYPE_IPV6 = 2"
definition MANAGEMENT_TLV_ADDRESS_SUBTYPE_MAC :: byte where "MANAGEMENT_TLV_ADDRESS_SUBTYPE_MAC = 6"
definition MANAGEMENT_TLV_IF_SUBTYPE_IFINDEX :: byte where "MANAGEMENT_TLV_IF_SUBTYPE_IFINDEX = 2"
definition PORT_TLV_SUBTYPE_MAC :: byte where "PORT_TLV_SUBTYPE_MAC = 3"
definition PORT_TLV_SUBTYPE_NET :: byte where "PORT_TLV_SUBTYPE_NET = 4"
definition PORT_TLV_SUBTYPE_LOCAL :: byte where "PORT_TLV_SUBTYPE_LOCAL = 7"

lemmas tlv_type_defs =
  END_OF_LLDPDU_def CHASSIS_ID_def PORT_ID_def TIME_TO_LIVE_def MANAGEMENT_ADDRESS_def

lemmas subtype_defs =
  MANAGEMENT_TLV_ADDRESS_SUBTYPE_IPV4_def MANAGEMENT_TLV_ADDRESS_SUBTYPE_IPV6_def
  MANAGEMENT_TLV_ADDRESS_SUBTYPE_MAC_def MANAGEMENT_TLV_IF_SUBTYPE_IFINDEX_def
  PORT_TLV_SUBTYPE_MAC_def PORT_TLV_SUBTYPE_NET_def PORT_TLV_SUBTYPE_LOCAL_def

subsection \<open>Structures\<close>

record LLDPDUTypeLengthValue =
  tlv_type :: byte
  tlv_value :: bytes

record LLDPDataUnit =
  chassis_id :: LLDPDUTypeLengthValue
  port_id :: LLDPDUTypeLengthValue
  time_to_live :: LLDPDUTypeLengthValue
  optional_tlv :: "LLDPDUTypeLengthValue list"

record ether_header =
  ether_dhost :: bytes
  ether_shost :: bytes
  ether_type :: u16

record LLDPEthernetFrame =
  header :: ether_header
  data_unit :: LLDPDataUnit

subsection \<open>Type-length-value\<close>

definition TLV_GetFrameBufferSize :: "LLDPDUTypeLengthValue \<Rightarrow> nat" where
  "TLV_GetFrameBufferSize t = 2 + length (tlv_value t)"

text \<open>The header word: \<open>length\<close> is truncated to 16 bits, and so is the disjunction.\<close>

definition tlv_header :: "LLDPDUTypeLengthValue \<Rightarrow> u16" where
  "tlv_header t =
     (let len = (of_nat (length (tlv_value t)) :: u16)
      in push_bit TYPE_BIT_OFFSET (ucast (tlv_type t)) OR len)"

definition TLV_ToFrameBuffer :: "LLDPDUTypeLengthValue \<Rightarrow> iter \<Rightarrow> iter cpp" where
  "TLV_ToFrameBuffer t it =
     bind_cpp (copy_out (as_bytes16 (htons (tlv_header t))) it) (copy_out (tlv_value t))"

text \<open>
  \<open>FromSpan\<close> takes the span by reference: the result is the TLV, if there is one, with the
  span as it is left; a failure leaves it as it was.
\<close>

definition TLV_FromSpan :: "bytes \<Rightarrow> LLDPDUTypeLengthValue option \<times> bytes" where
  "TLV_FromSpan tlv_bytes =
     (if length tlv_bytes < 2 then (None, tlv_bytes)
      else
        let hdr = ntohs (of_bytes16 (tlv_bytes ! 0) (tlv_bytes ! 1));
            len = unat (hdr AND TYPE_MASK);
            ty = (ucast (drop_bit TYPE_BIT_OFFSET hdr) :: byte)
        in if length tlv_bytes < len + 2 then (None, tlv_bytes)
           else (Some \<lparr>tlv_type = ty, tlv_value = take len (drop 2 tlv_bytes)\<rparr>,
                 drop (len + 2) tlv_bytes))"

subsection \<open>Data unit\<close>

definition END_OF_DATA_UNIT_TLV :: bytes where
  "END_OF_DATA_UNIT_TLV = [0, 0]"

definition DataUnit_GetFrameBufferSize :: "LLDPDataUnit \<Rightarrow> nat" where
  "DataUnit_GetFrameBufferSize du =
     fold (\<lambda>t size. size + TLV_GetFrameBufferSize t) (optional_tlv du)
       (TLV_GetFrameBufferSize (chassis_id du) + TLV_GetFrameBufferSize (port_id du)
        + TLV_GetFrameBufferSize (time_to_live du))
     + length END_OF_DATA_UNIT_TLV"

fun write_tlvs :: "LLDPDUTypeLengthValue list \<Rightarrow> iter \<Rightarrow> iter cpp" where
  "write_tlvs [] it = Inr it"
| "write_tlvs (t # ts) it = bind_cpp (TLV_ToFrameBuffer t it) (write_tlvs ts)"

definition DataUnit_ToFrameBuffer :: "LLDPDataUnit \<Rightarrow> iter \<Rightarrow> iter cpp" where
  "DataUnit_ToFrameBuffer du it =
     bind_cpp (TLV_ToFrameBuffer (chassis_id du) it) (\<lambda>it.
     bind_cpp (TLV_ToFrameBuffer (port_id du) it) (\<lambda>it.
     bind_cpp (TLV_ToFrameBuffer (time_to_live du) it) (\<lambda>it.
     bind_cpp (write_tlvs (optional_tlv du) it) (copy_out END_OF_DATA_UNIT_TLV))))"

text \<open>
  Why \<open>LLDPDataUnit::FromSpan\<close> returns \<open>nullopt\<close>: one case for each message it prints.
\<close>

datatype lldpdu_error =
  Failed_to_parse_chassis | Chassis_has_incorrect_type
| Failed_to_read_port | Port_type_incorrect
| Failed_to_read_ttl | Ttl_incorrect_type

lemma TLV_FromSpan_shorter:
  "TLV_FromSpan bs = (Some t, rest) \<Longrightarrow> length rest < length bs"
  by (auto simp: TLV_FromSpan_def Let_def split: if_splits)

text \<open>The \<open>while\<close> loop over the optional TLVs, which stops at an end marker or at the first
  bytes that are not a TLV.\<close>

function read_optional_tlvs :: "bytes \<Rightarrow> LLDPDUTypeLengthValue list" where
  "read_optional_tlvs bs =
     (case TLV_FromSpan bs of
        (None, _) \<Rightarrow> []
      | (Some t, rest) \<Rightarrow>
          if tlv_type t = END_OF_LLDPDU then [] else t # read_optional_tlvs rest)"
  by pat_completeness auto
termination
  by (relation "measure length") (auto dest: TLV_FromSpan_shorter [OF sym])

declare read_optional_tlvs.simps [simp del]

definition DataUnit_FromSpan :: "bytes \<Rightarrow> lldpdu_error + LLDPDataUnit" where
  "DataUnit_FromSpan bs =
     (case TLV_FromSpan bs of (None, _) \<Rightarrow> Inl Failed_to_parse_chassis
      | (Some chassis, bs1) \<Rightarrow>
     if tlv_type chassis \<noteq> CHASSIS_ID then Inl Chassis_has_incorrect_type else
     (case TLV_FromSpan bs1 of (None, _) \<Rightarrow> Inl Failed_to_read_port
      | (Some port, bs2) \<Rightarrow>
     if tlv_type port \<noteq> PORT_ID then Inl Port_type_incorrect else
     (case TLV_FromSpan bs2 of (None, _) \<Rightarrow> Inl Failed_to_read_ttl
      | (Some ttl, bs3) \<Rightarrow>
     if tlv_type ttl \<noteq> TIME_TO_LIVE then Inl Ttl_incorrect_type else
     Inr \<lparr>chassis_id = chassis, port_id = port, time_to_live = ttl,
          optional_tlv = read_optional_tlvs bs3\<rparr>)))"

subsection \<open>Ethernet frame\<close>

text \<open>\<open>std::as_bytes\<close> of the packed \<open>ether_header\<close>.\<close>

definition ether_header_bytes :: "ether_header \<Rightarrow> bytes" where
  "ether_header_bytes h = ether_dhost h @ ether_shost h @ as_bytes16 (ether_type h)"

definition Frame_GetFrameBufferSize :: "LLDPEthernetFrame \<Rightarrow> nat" where
  "Frame_GetFrameBufferSize f = 14 + DataUnit_GetFrameBufferSize (data_unit f)"

definition Frame_ToFrameBuffer :: "LLDPEthernetFrame \<Rightarrow> iter \<Rightarrow> iter cpp" where
  "Frame_ToFrameBuffer f it =
     bind_cpp (copy_out (ether_header_bytes (header f)) it) (DataUnit_ToFrameBuffer (data_unit f))"

subsection \<open>The bytes a structure denotes\<close>

definition encode_tlv :: "LLDPDUTypeLengthValue \<Rightarrow> bytes" where
  "encode_tlv t = as_bytes16 (htons (tlv_header t)) @ tlv_value t"

definition encode_data_unit :: "LLDPDataUnit \<Rightarrow> bytes" where
  "encode_data_unit du =
     encode_tlv (chassis_id du) @ encode_tlv (port_id du) @ encode_tlv (time_to_live du)
     @ concat (map encode_tlv (optional_tlv du)) @ END_OF_DATA_UNIT_TLV"

definition encode_frame :: "LLDPEthernetFrame \<Rightarrow> bytes" where
  "encode_frame f = ether_header_bytes (header f) @ encode_data_unit (data_unit f)"

text \<open>What the wire format can carry: seven bits of type, nine of length.\<close>

definition tlv_fits :: "LLDPDUTypeLengthValue \<Rightarrow> bool" where
  "tlv_fits t \<longleftrightarrow> tlv_type t < 128 \<and> length (tlv_value t) < 512"

definition data_unit_wf :: "LLDPDataUnit \<Rightarrow> bool" where
  "data_unit_wf du \<longleftrightarrow>
     tlv_fits (chassis_id du) \<and> tlv_type (chassis_id du) = CHASSIS_ID \<and>
     tlv_fits (port_id du) \<and> tlv_type (port_id du) = PORT_ID \<and>
     tlv_fits (time_to_live du) \<and> tlv_type (time_to_live du) = TIME_TO_LIVE \<and>
     list_all (\<lambda>t. tlv_fits t \<and> tlv_type t \<noteq> END_OF_LLDPDU) (optional_tlv du)"

lemma length_encode_tlv: "length (encode_tlv t) = TLV_GetFrameBufferSize t"
  by (simp add: encode_tlv_def TLV_GetFrameBufferSize_def)

lemma fold_sizes:
  "fold (\<lambda>t size. size + TLV_GetFrameBufferSize t) ts n = n + length (concat (map encode_tlv ts))"
  by (induction ts arbitrary: n) (auto simp: length_encode_tlv)

lemma length_encode_data_unit:
  "length (encode_data_unit du) = DataUnit_GetFrameBufferSize du"
  by (simp add: encode_data_unit_def DataUnit_GetFrameBufferSize_def fold_sizes length_encode_tlv)

subsection \<open>Writing fills the buffer exactly\<close>

lemma TLV_ToFrameBuffer_fits:
  "pos + TLV_GetFrameBufferSize t \<le> length buf \<Longrightarrow>
   TLV_ToFrameBuffer t (buf, pos) =
     Inr (overwrite buf pos (encode_tlv t), pos + TLV_GetFrameBufferSize t)"
  by (simp add: TLV_ToFrameBuffer_def TLV_GetFrameBufferSize_def encode_tlv_def copy_out_fits
      overwrite_append [symmetric] add.assoc del: copy_out.simps)

lemma write_tlvs_fits:
  "pos + length (concat (map encode_tlv ts)) \<le> length buf \<Longrightarrow>
   write_tlvs ts (buf, pos) =
     Inr (overwrite buf pos (concat (map encode_tlv ts)), pos + length (concat (map encode_tlv ts)))"
proof (induction ts arbitrary: buf pos)
  case (Cons t ts)
  then show ?case
    by (simp add: TLV_ToFrameBuffer_fits length_encode_tlv [symmetric] overwrite_append add.assoc)
qed simp

lemma DataUnit_ToFrameBuffer_fits:
  assumes "pos + DataUnit_GetFrameBufferSize du \<le> length buf"
  shows "DataUnit_ToFrameBuffer du (buf, pos) =
     Inr (overwrite buf pos (encode_data_unit du), pos + DataUnit_GetFrameBufferSize du)"
proof -
  have len: "pos + length (encode_tlv (chassis_id du)) + length (encode_tlv (port_id du))
      + length (encode_tlv (time_to_live du)) + length (concat (map encode_tlv (optional_tlv du)))
      + length END_OF_DATA_UNIT_TLV \<le> length buf"
    using assms length_encode_data_unit [of du] by (simp add: encode_data_unit_def)
  then show ?thesis
    unfolding length_encode_data_unit [symmetric]
    by (simp add: DataUnit_ToFrameBuffer_def TLV_ToFrameBuffer_fits length_encode_tlv [symmetric]
        write_tlvs_fits copy_out_fits overwrite_append_at encode_data_unit_def add.assoc
        del: copy_out.simps length_concat)
qed

lemma Frame_ToFrameBuffer_fits:
  assumes "length (ether_header_bytes (header f)) = 14"
    and "length buf = Frame_GetFrameBufferSize f"
  shows "Frame_ToFrameBuffer f (buf, 0) = Inr (encode_frame f, length buf)"
  using assms
  by (simp add: Frame_ToFrameBuffer_def Frame_GetFrameBufferSize_def copy_out_fits
      DataUnit_ToFrameBuffer_fits overwrite_append_at overwrite_all encode_frame_def length_encode_data_unit del: copy_out.simps)

subsection \<open>Reading back what was written\<close>

lemma TYPE_MASK_eq: "TYPE_MASK = mask 9"
  by (simp add: TYPE_MASK_def TYPE_BIT_OFFSET_def mask_eq_decr_exp push_bit_eq_mult)

lemma header_type_bits:
  "(ucast (drop_bit 9 (push_bit 9 (ucast (ty :: byte)) OR (len :: u16))) :: byte) =
     take_bit 7 ty OR ucast (drop_bit 9 len)"
  by (rule bit_word_eqI) (auto simp: bit_simps)

lemma header_length_bits:
  "(push_bit 9 (ucast (ty :: byte)) OR (len :: u16)) AND mask 9 = take_bit 9 len"
  by (rule bit_word_eqI) (auto simp: bit_simps)

lemma unat_header_length:
  "unat (tlv_header t AND TYPE_MASK) = length (tlv_value t) mod 512"
proof -
  have "unat (take_bit 9 (of_nat n :: u16)) = n mod 512" for n :: nat
  proof -
    have "unat (take_bit 9 (of_nat n :: u16)) = take_bit 9 (take_bit 16 n)"
      by (simp add: unsigned_take_bit_eq unsigned_of_nat)
    also have "\<dots> = n mod 512"
      by (simp add: take_bit_eq_mod mod_mod_cancel)
    finally show ?thesis .
  qed
  then show ?thesis
    by (simp add: tlv_header_def TYPE_MASK_eq TYPE_BIT_OFFSET_def header_length_bits Let_def)
qed

lemma drop_bit_small_length:
  "n < 512 \<Longrightarrow> drop_bit 9 (of_nat n :: u16) = 0"
proof -
  assume "n < 512"
  then have "unat (of_nat n :: u16) < 512"
    by (simp add: unat_of_nat)
  then have "unat (drop_bit 9 (of_nat n :: u16)) = 0"
    unfolding unat_drop_bit_eq by (simp add: drop_bit_eq_div)
  then show ?thesis by (simp only: unat_eq_zero)
qed

lemma take_bit_7_small: "ty < 128 \<Longrightarrow> take_bit 7 (ty :: byte) = ty"
  by (simp add: word_unat_eq_iff unsigned_take_bit_eq take_bit_nat_eq_self word_less_nat_alt)

lemma header_type_fits:
  "tlv_fits t \<Longrightarrow> ucast (drop_bit TYPE_BIT_OFFSET (tlv_header t)) = tlv_type t"
  unfolding tlv_fits_def tlv_header_def TYPE_BIT_OFFSET_def Let_def header_type_bits
  by (simp only: drop_bit_small_length take_bit_7_small) simp

lemma encode_tlv_header_word:
  "ntohs (of_bytes16 ((encode_tlv t @ rest) ! 0) ((encode_tlv t @ rest) ! 1)) = tlv_header t"
  by (simp add: encode_tlv_def as_bytes16_def ntohs_of_bytes16_network [unfolded as_bytes16_def, simplified])

text \<open>
  Parsing the bytes of any TLV, one the wire format cannot carry included: bits of the length
  beyond the ninth end up in the type, and the value is cut at the length modulo 512.
\<close>

lemma TLV_FromSpan_encode:
  "TLV_FromSpan (encode_tlv t @ rest) =
     (let v = tlv_value t; n = length v mod 512
      in (Some \<lparr>tlv_type = ucast (drop_bit TYPE_BIT_OFFSET (tlv_header t)), tlv_value = take n v\<rparr>,
          drop n v @ rest))"
proof -
  have "length (tlv_value t) mod 512 \<le> length (tlv_value t)" by (rule mod_less_eq_dividend)
  then show ?thesis
    unfolding TLV_FromSpan_def encode_tlv_header_word unat_header_length Let_def
    by (simp add: encode_tlv_def)
qed

lemma TLV_FromSpan_encode_fits:
  "tlv_fits t \<Longrightarrow> TLV_FromSpan (encode_tlv t @ rest) = (Some t, rest)"
  by (simp add: TLV_FromSpan_encode header_type_fits) (simp add: tlv_fits_def)

lemma header_word_split:
  "push_bit 9 (ucast (ucast (drop_bit 9 w) :: byte)) OR (w AND mask 9) = (w :: u16)"
  by (rule bit_word_eqI) (auto simp: bit_simps)

lemma take_bit_7_less: "take_bit 7 (x :: byte) < 128"
  unfolding word_less_nat_alt unsigned_take_bit_eq by (simp add: take_bit_eq_mod)

lemma header_parts_fit:
  "(ucast (drop_bit 9 (w :: u16)) :: byte) < 128" "unat (w AND mask 9) < 512"
proof -
  have "(ucast (drop_bit 9 w) :: byte) = take_bit 7 (ucast (drop_bit 9 w))"
    by (rule bit_word_eqI) (auto simp: bit_simps dest: bit_imp_le_length)
  also have "\<dots> < 128"
    by (rule take_bit_7_less)
  finally show "(ucast (drop_bit 9 w) :: byte) < 128" .
  show "unat (w AND mask 9) < 512"
    unfolding take_bit_eq_mask [symmetric] unsigned_take_bit_eq by (simp add: take_bit_eq_mod)
qed

lemma TLV_FromSpan_Some:
  assumes "TLV_FromSpan bs = (Some t, rest)"
  shows "tlv_fits t" and "bs = encode_tlv t @ rest"
proof -
  from assms have "2 \<le> length bs"
    by (auto simp: TLV_FromSpan_def split: if_splits)
  then obtain a b r where bs: "bs = a # b # r"
    by (auto simp: length_ge_2_conv)
  define w where "w = ntohs (of_bytes16 a b)"
  from assms have len: "unat (w AND mask 9) \<le> length r"
    and t: "t = \<lparr>tlv_type = ucast (drop_bit 9 w), tlv_value = take (unat (w AND mask 9)) r\<rparr>"
    and rest: "rest = drop (unat (w AND mask 9)) r"
    by (auto simp: TLV_FromSpan_def bs w_def TYPE_MASK_eq TYPE_BIT_OFFSET_def Let_def split: if_splits)
  show "tlv_fits t"
    using header_parts_fit [of w] len by (simp add: tlv_fits_def t)
  have "tlv_header t = w"
    using len by (simp add: tlv_header_def t TYPE_BIT_OFFSET_def Let_def header_word_split)
  then have "as_bytes16 (htons (tlv_header t)) = [a, b]"
    by (simp add: w_def)
  then show "bs = encode_tlv t @ rest"
    using len by (simp add: encode_tlv_def bs t rest)
qed

subsection \<open>The loop over the optional TLVs\<close>

lemma TLV_FromSpan_end_marker: 
  "TLV_FromSpan (END_OF_DATA_UNIT_TLV @ rest) = (Some \<lparr>tlv_type = END_OF_LLDPDU, tlv_value = []\<rparr>, rest)"
  by (simp add: TLV_FromSpan_def END_OF_DATA_UNIT_TLV_def of_bytes16_def ntohs_def tlv_type_defs)

lemma read_optional_tlvs_end: "read_optional_tlvs (END_OF_DATA_UNIT_TLV @ rest) = []"
  by (subst read_optional_tlvs.simps) (simp add: TLV_FromSpan_end_marker)

lemma read_optional_tlvs_encode:
  "list_all (\<lambda>t. tlv_fits t \<and> tlv_type t \<noteq> END_OF_LLDPDU) ts \<Longrightarrow>
   read_optional_tlvs (concat (map encode_tlv ts) @ bs) = ts @ read_optional_tlvs bs"
proof (induction ts)
  case (Cons t ts)
  then show ?case
    by (subst read_optional_tlvs.simps) (simp add: TLV_FromSpan_encode_fits)
qed simp

text \<open>What the loop returns is a prefix of the input, read until it finds no TLV or an end marker.\<close>

lemma read_optional_tlvs_sound:
  "list_all (\<lambda>t. tlv_fits t \<and> tlv_type t \<noteq> END_OF_LLDPDU) (read_optional_tlvs bs) \<and>
   (\<exists>rest. bs = concat (map encode_tlv (read_optional_tlvs bs)) @ rest \<and>
      (fst (TLV_FromSpan rest) = None \<or>
       (\<exists>e. fst (TLV_FromSpan rest) = Some e \<and> tlv_type e = END_OF_LLDPDU)))"
proof (induction bs rule: read_optional_tlvs.induct)
  case (1 bs)
  show ?case
  proof (cases "TLV_FromSpan bs")
    case (Pair o_t rest)
    then show ?thesis
    proof (cases "\<exists>t. o_t = Some t \<and> tlv_type t \<noteq> END_OF_LLDPDU")
      case True
      then obtain t where t: "o_t = Some t" "tlv_type t \<noteq> END_OF_LLDPDU" by blast
      with Pair TLV_FromSpan_Some [of bs t rest] "1.IH" [of o_t rest t] show ?thesis
        by (subst (1 2) read_optional_tlvs.simps) auto
    next
      case False
      with Pair show ?thesis
        by (subst (1 2) read_optional_tlvs.simps) (auto split: option.splits)
    qed
  qed
qed

lemma DataUnit_FromSpan_sound:
  assumes "DataUnit_FromSpan bs = Inr du"
  shows "data_unit_wf du \<and>
    (\<exists>rest. bs = encode_tlv (chassis_id du) @ encode_tlv (port_id du) @ encode_tlv (time_to_live du)
              @ concat (map encode_tlv (optional_tlv du)) @ rest \<and>
       (fst (TLV_FromSpan rest) = None \<or>
        (\<exists>e. fst (TLV_FromSpan rest) = Some e \<and> tlv_type e = END_OF_LLDPDU)))"
proof -
  from assms obtain c bs1 p bs2 t bs3 where
      c: "TLV_FromSpan bs = (Some c, bs1)" "tlv_type c = CHASSIS_ID"
    and p: "TLV_FromSpan bs1 = (Some p, bs2)" "tlv_type p = PORT_ID"
    and t: "TLV_FromSpan bs2 = (Some t, bs3)" "tlv_type t = TIME_TO_LIVE"
    and du: "du = \<lparr>chassis_id = c, port_id = p, time_to_live = t,
                   optional_tlv = read_optional_tlvs bs3\<rparr>"
    by (auto simp: DataUnit_FromSpan_def split: prod.splits option.splits if_splits)
  show ?thesis
    using TLV_FromSpan_Some [OF c(1)] TLV_FromSpan_Some [OF p(1)] TLV_FromSpan_Some [OF t(1)]
      c(2) p(2) t(2) read_optional_tlvs_sound [of bs3]
    by (auto simp: du data_unit_wf_def)
qed

lemma DataUnit_FromSpan_wf: "DataUnit_FromSpan bs = Inr du \<Longrightarrow> data_unit_wf du"
  using DataUnit_FromSpan_sound by blast

subsection \<open>Properties\<close>

text \<open>C7: A data unit whose TLVs fit the wire format (seven bits of type, nine of length, mandatory
  types in place, no end marker among the optional ones) is written without overrun into any
  buffer with room for \<open>GetFrameBufferSize\<close> bytes, the returned iterator points exactly that far,
  and parsing the buffer gives the same data unit back, whatever follows it.\<close>
theorem data_unit_roundtrip:
  assumes "data_unit_wf du" and "DataUnit_GetFrameBufferSize du \<le> length buf"
  shows "\<exists>buf'. DataUnit_ToFrameBuffer du (buf, 0) = Inr (buf', DataUnit_GetFrameBufferSize du) \<and>
           length buf' = length buf \<and> DataUnit_FromSpan buf' = Inr du"
proof -
  let ?buf' = "overwrite buf 0 (encode_data_unit du)"
  have w: "DataUnit_ToFrameBuffer du (buf, 0) = Inr (?buf', DataUnit_GetFrameBufferSize du)"
    using assms(2) by (simp add: DataUnit_ToFrameBuffer_fits)
  have "?buf' = encode_data_unit du @ drop (DataUnit_GetFrameBufferSize du) buf"
    by (simp add: overwrite_def length_encode_data_unit)
  then have "DataUnit_FromSpan ?buf' = Inr du"
    using assms(1)
    by (simp add: DataUnit_FromSpan_def encode_data_unit_def data_unit_wf_def
        TLV_FromSpan_encode_fits read_optional_tlvs_encode read_optional_tlvs_end)
  with w assms(2) show ?thesis
    by (auto simp: length_encode_data_unit)
qed

theorem data_unit_roundtrip_witness:
  "\<exists>buf'. DataUnit_ToFrameBuffer
     \<lparr>chassis_id = \<lparr>tlv_type = 1, tlv_value = [7, 97]\<rparr>, port_id = \<lparr>tlv_type = 2, tlv_value = [7, 98]\<rparr>,
      time_to_live = \<lparr>tlv_type = 3, tlv_value = [0, 30]\<rparr>, optional_tlv = [\<lparr>tlv_type = 8, tlv_value = []\<rparr>]\<rparr>
     (replicate 20 0, 0) = Inr (buf', 16) \<and>
   length buf' = 20 \<and>
   DataUnit_FromSpan buf' = Inr
     \<lparr>chassis_id = \<lparr>tlv_type = 1, tlv_value = [7, 97]\<rparr>, port_id = \<lparr>tlv_type = 2, tlv_value = [7, 98]\<rparr>,
      time_to_live = \<lparr>tlv_type = 3, tlv_value = [0, 30]\<rparr>, optional_tlv = [\<lparr>tlv_type = 8, tlv_value = []\<rparr>]\<rparr>"
  using data_unit_roundtrip [of "\<lparr>chassis_id = \<lparr>tlv_type = 1, tlv_value = [7, 97]\<rparr>,
      port_id = \<lparr>tlv_type = 2, tlv_value = [7, 98]\<rparr>, time_to_live = \<lparr>tlv_type = 3, tlv_value = [0, 30]\<rparr>,
      optional_tlv = [\<lparr>tlv_type = 8, tlv_value = []\<rparr>]\<rparr>" "replicate 20 0"]
  by (simp add: data_unit_wf_def tlv_fits_def tlv_type_defs DataUnit_GetFrameBufferSize_def
      TLV_GetFrameBufferSize_def END_OF_DATA_UNIT_TLV_def)

text \<open>C33: Whatever bytes arrive, a data unit the parser accepts has its three mandatory TLVs in
  order and of the right types, every TLV within the format's widths and no end marker among
  the optional ones, and the input is exactly the encoding of those TLVs followed by a rest
  that starts with no TLV or with an end marker.\<close>
theorem data_unit_parse_sound:
  assumes "DataUnit_FromSpan bs = Inr du"
  shows "data_unit_wf du \<and>
    (\<exists>rest. bs = encode_tlv (chassis_id du) @ encode_tlv (port_id du) @ encode_tlv (time_to_live du)
              @ concat (map encode_tlv (optional_tlv du)) @ rest \<and>
       (fst (TLV_FromSpan rest) = None \<or>
        (\<exists>e. fst (TLV_FromSpan rest) = Some e \<and> tlv_type e = END_OF_LLDPDU)))"
  using assms by (rule DataUnit_FromSpan_sound)

theorem data_unit_parse_sound_witness:
  "\<exists>du. DataUnit_FromSpan [2, 1, 7, 4, 1, 7, 6, 2, 0, 30, 254] = Inr du \<and> data_unit_wf du"
proof -
  let ?du = "\<lparr>chassis_id = \<lparr>tlv_type = 1, tlv_value = [7]\<rparr>, port_id = \<lparr>tlv_type = 2, tlv_value = [7]\<rparr>,
      time_to_live = \<lparr>tlv_type = 3, tlv_value = [0, 30]\<rparr>, optional_tlv = []\<rparr>"
  have "DataUnit_FromSpan [2, 1, 7, 4, 1, 7, 6, 2, 0, 30, 254] = Inr ?du" by code_simp
  then show ?thesis using data_unit_parse_sound by blast
qed

text \<open>The header of a TLV mixes type and length once the value is longer than 511 bytes: parsing
  what was written for any TLV gives the type with the excess length bits or-ed into it and the
  value cut at the length modulo 512, the remaining value bytes being taken for further TLVs.\<close>
theorem tlv_length_spills_into_type:
  "TLV_FromSpan (encode_tlv t @ rest) =
     (Some \<lparr>tlv_type = take_bit 7 (tlv_type t) OR ucast (drop_bit 9 (of_nat (length (tlv_value t)) :: u16)),
            tlv_value = take (length (tlv_value t) mod 512) (tlv_value t)\<rparr>,
      drop (length (tlv_value t) mod 512) (tlv_value t) @ rest)"
  unfolding TLV_FromSpan_encode tlv_header_def TYPE_BIT_OFFSET_def Let_def header_type_bits ..

end
