(* ===== verification/Ordered_Map.thy ===== *)
theory Ordered_Map
  imports Prelude
begin

section \<open>std::map\<close>

text \<open>
  \<open>std::map\<close> as an association list in strictly ascending key order, which is the order a range
  \<open>for\<close> visits; keys that are vectors are compared lexicographically, as \<open>std::vector\<close> compares.
  The locale \<open>std_map\<close> is the interface the components rely on: its laws are what the standard
  promises of lookup, assignment and erasure, and the lemmas on whole batches of erasures are
  proved once from them.  The interpretation \<open>om\<close> discharges the laws for the association list.
\<close>

type_synonym ('k, 'v) omap = "('k \<times> 'v) list"

subsection \<open>Operations\<close>

definition om_find :: "('k, 'v) omap \<Rightarrow> 'k \<Rightarrow> 'v option" where
  "om_find m k = map_of m k"

definition om_contains :: "('k, 'v) omap \<Rightarrow> 'k \<Rightarrow> bool" where
  "om_contains m k \<longleftrightarrow> map_of m k \<noteq> None"

fun om_put :: "'k::linorder \<Rightarrow> 'v \<Rightarrow> ('k, 'v) omap \<Rightarrow> ('k, 'v) omap" where
  "om_put k v [] = [(k, v)]"
| "om_put k v ((a, b) # m) =
     (if k < a then (k, v) # (a, b) # m else if k = a then (k, v) # m else (a, b) # om_put k v m)"

definition om_erase :: "'k \<Rightarrow> ('k, 'v) omap \<Rightarrow> ('k, 'v) omap" where
  "om_erase k m = filter (\<lambda>(a, _). a \<noteq> k) m"

text \<open>\<open>map[k]\<close>: the element, default-constructed and inserted when the key is absent.\<close>

definition om_at :: "'v \<Rightarrow> ('k, 'v) omap \<Rightarrow> 'k \<Rightarrow> 'v" where
  "om_at dflt m k = (case map_of m k of None \<Rightarrow> dflt | Some v \<Rightarrow> v)"

definition om_inv :: "('k::linorder, 'v) omap \<Rightarrow> bool" where
  "om_inv m \<longleftrightarrow> sorted_wrt (<) (map fst m)"

definition om_keys :: "('k, 'v) omap \<Rightarrow> 'k list" where
  "om_keys m = map fst m"

definition om_map :: "('k \<Rightarrow> 'v \<Rightarrow> 'w) \<Rightarrow> ('k, 'v) omap \<Rightarrow> ('k, 'w) omap" where
  "om_map f m = map (\<lambda>(k, v). (k, f k v)) m"

subsection \<open>Laws of the association list\<close>

lemma om_find_Nil [simp]: "om_find [] k = None"
  by (simp add: om_find_def)

lemma om_find_Cons: "om_find ((a, b) # m) k = (if k = a then Some b else om_find m k)"
  by (simp add: om_find_def)

lemma om_not_Nil_find: "m \<noteq> [] \<Longrightarrow> \<exists>k v. om_find m k = Some v"
  by (cases m) (force simp: om_find_Cons split_paired_all)+

lemma om_inv_Nil [simp]: "om_inv []"
  by (simp add: om_inv_def)

lemma om_inv_Cons: "om_inv ((a, b) # m) \<longleftrightarrow> (\<forall>k \<in> fst ` set m. a < k) \<and> om_inv m"
  by (simp add: om_inv_def)

lemma om_find_None_iff: "om_find m k = None \<longleftrightarrow> k \<notin> set (om_keys m)"
  by (simp add: om_find_def om_keys_def map_of_eq_None_iff)

lemma om_contains_iff: "om_contains m k \<longleftrightarrow> k \<in> set (om_keys m)"
  by (simp add: om_contains_def om_keys_def map_of_eq_None_iff)

lemma om_contains_find: "om_contains m k \<longleftrightarrow> om_find m k \<noteq> None"
  by (simp add: om_contains_def om_find_def)

lemma om_at_find: "om_at dflt m k = (case om_find m k of None \<Rightarrow> dflt | Some v \<Rightarrow> v)"
  by (simp add: om_at_def om_find_def)

lemma set_om_keys_put [simp]: "set (om_keys (om_put k v m)) = insert k (set (om_keys m))"
  by (induction k v m rule: om_put.induct) (auto simp: om_keys_def)

lemma om_find_put [simp]:
  "om_inv m \<Longrightarrow> om_find (om_put k v m) j = (if j = k then Some v else om_find m j)"
  by (induction k v m rule: om_put.induct)
    (auto simp: om_find_Cons om_inv_Cons om_find_None_iff om_keys_def)

lemma om_inv_put [intro, inv_intros]: "om_inv m \<Longrightarrow> om_inv (om_put k v m)"
proof (induction k v m rule: om_put.induct)
  case (2 k v a b m)
  have "fst ` set (om_put k v m) = insert k (fst ` set m)"
    using set_om_keys_put [of k v m] by (simp add: om_keys_def)
  with 2 show ?case by (auto simp: om_inv_Cons)
qed (simp add: om_inv_Cons)

lemma om_find_erase [simp]: "om_find (om_erase k m) j = (if j = k then None else om_find m j)"
  by (induction m) (auto simp: om_erase_def om_find_Cons)

lemma om_keys_erase: "om_keys (om_erase k m) = filter (\<lambda>a. a \<noteq> k) (om_keys m)"
  by (induction m) (auto simp: om_erase_def om_keys_def)

lemma om_inv_erase [intro, inv_intros]: "om_inv m \<Longrightarrow> om_inv (om_erase k m)"
  by (induction m) (auto simp: om_erase_def om_inv_Cons)

lemma om_find_map: "om_find (om_map f m) k = map_option (f k) (om_find m k)"
  by (induction m) (auto simp: om_map_def om_find_Cons)

lemma om_keys_map [simp]: "om_keys (om_map f m) = om_keys m"
  by (induction m) (auto simp: om_map_def om_keys_def)

lemma om_inv_keys: "om_inv m \<longleftrightarrow> sorted_wrt (<) (om_keys m)"
  by (simp add: om_inv_def om_keys_def)

lemma om_inv_map [simp]: "om_inv (om_map f m) \<longleftrightarrow> om_inv m"
  by (simp add: om_inv_keys)

lemma om_distinct: "om_inv m \<Longrightarrow> distinct (om_keys m)"
  by (simp add: om_inv_keys strict_sorted_iff)

lemma om_find_in_set: "om_inv m \<Longrightarrow> om_find m k = Some v \<longleftrightarrow> (k, v) \<in> set m"
  using om_distinct [of m] by (simp add: om_find_def om_keys_def map_of_eq_Some_iff)

text \<open>Two maps with the same contents are the same list: the representation is canonical.\<close>

lemma om_ext:
  assumes "om_inv m" "om_inv n" "\<And>k. om_find m k = om_find n k"
  shows "m = n"
proof -
  have "set m = set n"
    using om_find_in_set [OF assms(1)] om_find_in_set [OF assms(2)] assms(3) by (metis subrelI subset_antisym)
  moreover have "sorted (map fst m)" "distinct (map fst m)"
      "sorted (map fst n)" "distinct (map fst n)"
    using assms(1,2) by (auto simp: om_inv_def strict_sorted_iff)
  moreover have "inj_on fst (set m \<union> set n)"
    using \<open>set m = set n\<close> \<open>distinct (map fst m)\<close> by (simp add: distinct_map)
  ultimately show ?thesis
    by (intro map_sorted_distinct_set_unique)
qed

subsection \<open>The interface\<close>

locale std_map =
  fixes find :: "'m \<Rightarrow> 'k \<Rightarrow> 'v option"
    and put :: "'k \<Rightarrow> 'v \<Rightarrow> 'm \<Rightarrow> 'm"
    and erase :: "'k \<Rightarrow> 'm \<Rightarrow> 'm"
    and inv :: "'m \<Rightarrow> bool"
  assumes find_put: "inv m \<Longrightarrow> find (put k v m) j = (if j = k then Some v else find m j)"
    and find_erase: "inv m \<Longrightarrow> find (erase k m) j = (if j = k then None else find m j)"
    and inv_put: "inv m \<Longrightarrow> inv (put k v m)"
    and inv_erase: "inv m \<Longrightarrow> inv (erase k m)"
begin

lemma inv_fold_erase: "inv m \<Longrightarrow> inv (fold erase ks m)"
  by (induction ks arbitrary: m) (auto intro: inv_erase)

text \<open>A loop that erases a list of collected keys removes exactly those.\<close>

lemma find_fold_erase:
  "inv m \<Longrightarrow> find (fold erase ks m) j = (if j \<in> set ks then None else find m j)"
  by (induction ks arbitrary: m) (auto simp: find_erase inv_erase)

lemma inv_fold_put: "inv m \<Longrightarrow> inv (fold (\<lambda>(k, v). put k v) kvs m)"
  by (induction kvs arbitrary: m) (auto intro: inv_put)

text \<open>A loop that assigns a list of pairs: the last assignment to a key wins.\<close>

lemma find_fold_put:
  "inv m \<Longrightarrow> find (fold (\<lambda>(k, v). put k v) kvs m) j =
     (case map_of (rev kvs) j of None \<Rightarrow> find m j | Some v \<Rightarrow> Some v)"
proof (induction kvs arbitrary: m)
  case (Cons kv kvs)
  then show ?case
    by (cases kv) (auto simp: find_put inv_put map_add_def split: option.splits)
qed simp

end

interpretation om: std_map om_find om_put om_erase om_inv
  by unfold_locales auto

end
