(* ===== verification/Platform.thy ===== *)
theory Platform
  imports Prelude
begin

section \<open>Constants of the Linux interface\<close>

text \<open>
  The values the sources take from the system headers, as their manual pages and the kernel's
  user API document them: address families and link types, netlink message types and flags,
  interface flags, attribute types, errno values and the sizes of the address structures.
\<close>

definition AF_UNSPEC :: byte where "AF_UNSPEC = 0"
definition AF_INET :: byte where "AF_INET = 2"
definition AF_INET6 :: byte where "AF_INET6 = 10"
definition AF_PACKET :: u16 where "AF_PACKET = 17"
definition ARPHRD_ETHER :: u16 where "ARPHRD_ETHER = 1"
definition ETH_P_LLDP :: u16 where "ETH_P_LLDP = 0x88CC"

definition ETH_ALEN :: nat where "ETH_ALEN = 6"
definition sizeof_in_addr :: nat where "sizeof_in_addr = 4"
definition sizeof_in6_addr :: nat where "sizeof_in6_addr = 16"

definition INT_MAX :: u32 where "INT_MAX = 0x7FFFFFFF"

definition EAGAIN :: int where "EAGAIN = 11"
definition EINVAL :: int where "EINVAL = 22"
definition ENETDOWN :: int where "ENETDOWN = 100"

definition IFF_UP :: u32 where "IFF_UP = 1"
definition IFF_LOWER_UP :: u32 where "IFF_LOWER_UP = 0x10000"

definition NLMSG_ERROR :: u16 where "NLMSG_ERROR = 2"
definition NLMSG_DONE :: u16 where "NLMSG_DONE = 3"
definition RTM_NEWLINK :: u16 where "RTM_NEWLINK = 16"
definition RTM_DELLINK :: u16 where "RTM_DELLINK = 17"
definition RTM_GETLINK :: u16 where "RTM_GETLINK = 18"
definition RTM_NEWADDR :: u16 where "RTM_NEWADDR = 20"
definition RTM_DELADDR :: u16 where "RTM_DELADDR = 21"
definition RTM_GETADDR :: u16 where "RTM_GETADDR = 22"

definition NLM_F_REQUEST :: u16 where "NLM_F_REQUEST = 1"
definition NLM_F_ACK :: u16 where "NLM_F_ACK = 4"
definition NLM_F_DUMP :: u16 where "NLM_F_DUMP = 0x300"
definition NLM_F_CAPPED :: u16 where "NLM_F_CAPPED = 0x100"

definition IFLA_ADDRESS :: u16 where "IFLA_ADDRESS = 1"
definition IFLA_IFNAME :: u16 where "IFLA_IFNAME = 3"
definition IFA_ADDRESS :: u16 where "IFA_ADDRESS = 1"
definition IFA_F_SECONDARY :: byte where "IFA_F_SECONDARY = 1"

lemmas platform_defs =
  AF_UNSPEC_def AF_INET_def AF_INET6_def AF_PACKET_def ARPHRD_ETHER_def ETH_P_LLDP_def
  ETH_ALEN_def sizeof_in_addr_def sizeof_in6_addr_def INT_MAX_def EAGAIN_def EINVAL_def
  ENETDOWN_def IFF_UP_def IFF_LOWER_UP_def NLMSG_ERROR_def NLMSG_DONE_def RTM_NEWLINK_def
  RTM_DELLINK_def RTM_GETLINK_def RTM_NEWADDR_def RTM_DELADDR_def RTM_GETADDR_def
  NLM_F_REQUEST_def NLM_F_ACK_def NLM_F_DUMP_def NLM_F_CAPPED_def IFLA_ADDRESS_def
  IFLA_IFNAME_def IFA_ADDRESS_def IFA_F_SECONDARY_def

end
