(* ===== verification/Lldp_Monitor.thy ===== *)
theory Lldp_Monitor
  imports Lldp_Packet Ordered_Map Platform
begin

section \<open>The neighbour list and the LLDP receiver\<close>

text \<open>
  \<open>lldp_monitor.cc\<close>: a received frame becomes a \<open>NeighbourEntry\<close> of the \<open>NeighbourList\<close>, a map
  from chassis identifiers to maps from port identifiers to entries, and a clock tick ages
  the entries and drops the expired ones.
\<close>

subsection \<open>Data\<close>

record NeighbourEntry =
  ne_chassis_id :: bytes
  ne_port_id :: bytes
  ne_interface_index :: u16
  ne_time_to_live :: u16
  ne_ipv4_address :: "bytes option"
  ne_ipv6_address :: "bytes option"

type_synonym port_map = "(bytes, NeighbourEntry) omap"
type_synonym NeighbourList = "(bytes, port_map) omap"

text \<open>\<open>sockaddr_ll\<close>: \<open>sll_protocol\<close> is in network order, \<open>sll_ifindex\<close> is an \<open>int\<close>.\<close>

record sockaddr_ll =
  sll_family :: u16
  sll_protocol :: u16
  sll_ifindex :: u32
  sll_hatype :: u16
  sll_halen :: byte

text \<open>The variant \<open>managementTlvGetManagementString\<close> returns: spans of 4, 16 and 6 bytes.\<close>

datatype management_string = Span_in_addr bytes | Span_in6_addr bytes | Span_mac bytes

subsection \<open>From a data unit to an entry\<close>

definition managementTlvGetManagementString :: "bytes \<Rightarrow> management_string option" where
  "managementTlvGetManagementString v =
     (if v = [] then None
      else
        let len = unat (v ! 0)
        in if len = 0 \<or> length v < 1 + len then None
           else
             let string_subtype = v ! 1
             in if string_subtype = MANAGEMENT_TLV_ADDRESS_SUBTYPE_IPV4 then
                  (if len \<noteq> 1 + sizeof_in_addr then None
                   else Some (Span_in_addr (take sizeof_in_addr (drop 2 v))))
                else if string_subtype = MANAGEMENT_TLV_ADDRESS_SUBTYPE_IPV6 then
                  (if len \<noteq> 1 + sizeof_in6_addr then None
                   else Some (Span_in6_addr (take sizeof_in6_addr (drop 2 v))))
                else if string_subtype = MANAGEMENT_TLV_ADDRESS_SUBTYPE_MAC then
                  (if len \<noteq> 1 + ETH_ALEN then None
                   else Some (Span_mac (take ETH_ALEN (drop 2 v))))
                else None)"

text \<open>One turn of the loop over the optional TLVs; the state is the pair of addresses found.\<close>

definition collect_address ::
  "LLDPDUTypeLengthValue \<Rightarrow> bytes option \<times> bytes option \<Rightarrow> bytes option \<times> bytes option" where
  "collect_address tlv acc =
     (case acc of (ipv4_address, ipv6_address) \<Rightarrow>
     if tlv_type tlv = MANAGEMENT_ADDRESS then
       (case managementTlvGetManagementString (tlv_value tlv) of
          None \<Rightarrow> (ipv4_address, ipv6_address)
        | Some (Span_in_addr a) \<Rightarrow> (Some a, ipv6_address)
        | Some (Span_in6_addr a) \<Rightarrow> (ipv4_address, Some a)
        | Some (Span_mac _) \<Rightarrow> (ipv4_address, ipv6_address))
     else (ipv4_address, ipv6_address))"

text \<open>
  The first statement reads \<open>time_to_live.value[0]\<close> and \<open>[1]\<close> whatever the size of the value.
\<close>

definition lldpduToNeighbourEntry :: "LLDPDataUnit \<Rightarrow> u16 \<Rightarrow> NeighbourEntry cpp" where
  "lldpduToNeighbourEntry lldpdu if_index =
     bind_cpp (span_at (tlv_value (time_to_live lldpdu)) 0) (\<lambda>ttl0.
     bind_cpp (span_at (tlv_value (time_to_live lldpdu)) 1) (\<lambda>ttl1.
       let (ipv4_address, ipv6_address) = fold collect_address (optional_tlv lldpdu) (None, None)
       in Inr \<lparr>ne_chassis_id = tlv_value (chassis_id lldpdu),
               ne_port_id = tlv_value (port_id lldpdu),
               ne_interface_index = if_index,
               ne_time_to_live = ntohs (of_bytes16 ttl0 ttl1),
               ne_ipv4_address = ipv4_address,
               ne_ipv6_address = ipv6_address\<rparr>))"

text \<open>Why \<open>lldpFrameParser\<close> returns without an entry, or that it has no defined behaviour.\<close>

datatype frame_rejected =
  Not_of_AF_PACKET | Not_LLDP | Not_from_ethernet | Address_wrong_size
| Not_a_data_unit lldpdu_error
| Undefined undefined_behaviour

text \<open>\<open>chassis_map[chassis][port] = entry\<close>\<close>

definition store_entry :: "NeighbourEntry \<Rightarrow> NeighbourList \<Rightarrow> NeighbourList" where
  "store_entry entry nl =
     om_put (ne_chassis_id entry)
       (om_put (ne_port_id entry) entry (om_at [] nl (ne_chassis_id entry))) nl"

definition lldpFrameParser ::
  "NeighbourList \<Rightarrow> sockaddr_ll \<Rightarrow> bytes \<Rightarrow> frame_rejected + NeighbourList" where
  "lldpFrameParser nl address frame =
     (if sll_family address \<noteq> AF_PACKET then Inl Not_of_AF_PACKET
      else if ntohs (sll_protocol address) \<noteq> ETH_P_LLDP then Inl Not_LLDP
      else if sll_hatype address \<noteq> ARPHRD_ETHER then Inl Not_from_ethernet
      else if unat (sll_halen address) \<noteq> ETH_ALEN then Inl Address_wrong_size
      else case DataUnit_FromSpan frame of
        Inl why \<Rightarrow> Inl (Not_a_data_unit why)
      | Inr lldpdu \<Rightarrow>
          (case lldpduToNeighbourEntry lldpdu (ucast (sll_ifindex address)) of
             Inl ub \<Rightarrow> Inl (Undefined ub)
           | Inr entry \<Rightarrow> Inr (store_entry entry nl)))"

subsection \<open>Receiving from the packet socket\<close>

definition MAX_FRAME_BUFFER_SIZE :: nat where
  "MAX_FRAME_BUFFER_SIZE = 1600"

text \<open>
  \<open>EthernetLldpMonitor::Call\<close> peeks for the length of the next frame, grows \<open>message_buffer_\<close>
  and receives.  The kernel's part is \<open>peek\<close>, the frame \<open>MSG_PEEK | MSG_TRUNC\<close> finds at the head
  of the queue, and \<open>recv\<close>, the frame the second call takes (\<open>None\<close>: the call returns -1);
  \<open>recvmsg\<close> without \<open>MSG_TRUNC\<close> copies and counts what fits the buffer.  The result is the new
  size of the buffer and the arguments of the callback, if it is called.
\<close>

definition Monitor_Call ::
  "nat \<Rightarrow> bytes option \<Rightarrow> (sockaddr_ll \<times> bytes) option \<Rightarrow> nat \<times> (sockaddr_ll \<times> bytes) option" where
  "Monitor_Call buffer_size peek recv =
     (case peek of None \<Rightarrow> (buffer_size, None)
      | Some peeked \<Rightarrow>
        let peek_packet_length = length peeked;
            size = (if buffer_size < peek_packet_length
                    then (if MAX_FRAME_BUFFER_SIZE < peek_packet_length then MAX_FRAME_BUFFER_SIZE
                          else peek_packet_length)
                    else buffer_size)
        in (size,
            case recv of None \<Rightarrow> None
            | Some (link_layer_address, frame) \<Rightarrow>
                let received_length = min (length frame) size
                in if received_length = peek_packet_length
                   then Some (link_layer_address, take received_length frame) else None))"

subsection \<open>Ageing\<close>

text \<open>The first loop of \<open>NeighbourList::Tick\<close>: what it does to one entry, and which it records.\<close>

definition expires :: "u64 \<Rightarrow> NeighbourEntry \<Rightarrow> bool" where
  "expires delta_seconds entry \<longleftrightarrow> \<not> delta_seconds < ucast (ne_time_to_live entry)"

definition age_entry :: "u64 \<Rightarrow> NeighbourEntry \<Rightarrow> NeighbourEntry" where
  "age_entry delta_seconds entry =
     (if \<not> expires delta_seconds entry
      then entry\<lparr>ne_time_to_live := ne_time_to_live entry - ucast delta_seconds\<rparr>
      else entry\<lparr>ne_time_to_live := 0\<rparr>)"

definition timed_out_entries :: "u64 \<Rightarrow> NeighbourList \<Rightarrow> (bytes \<times> bytes) list" where
  "timed_out_entries delta_seconds nl =
     concat (map (\<lambda>(chassis, port_map).
       concat (map (\<lambda>(port, entry). if expires delta_seconds entry then [(chassis, port)] else []) port_map)) nl)"

text \<open>The second loop: \<open>chassis_map[chassis].erase(port)\<close>, and the chassis when it is left empty.\<close>

definition erase_entry :: "bytes \<times> bytes \<Rightarrow> NeighbourList \<Rightarrow> NeighbourList" where
  "erase_entry cp nl =
     (case cp of (chassis, port) \<Rightarrow>
     let nl = om_put chassis (om_erase port (om_at [] nl chassis)) nl
     in if om_at [] nl chassis = [] then om_erase chassis nl else nl)"

definition NeighbourList_Tick :: "u64 \<Rightarrow> NeighbourList \<Rightarrow> NeighbourList" where
  "NeighbourList_Tick delta_seconds nl =
     fold erase_entry (timed_out_entries delta_seconds nl)
       (om_map (\<lambda>_. om_map (\<lambda>_. age_entry delta_seconds)) nl)"

subsection \<open>The two-level map is a map on pairs of identifiers\<close>

definition nl_lookup :: "NeighbourList \<Rightarrow> bytes \<times> bytes \<Rightarrow> NeighbourEntry option" where
  "nl_lookup nl cp = Option.bind (om_find nl (fst cp)) (\<lambda>pm. om_find pm (snd cp))"

definition nl_put :: "bytes \<times> bytes \<Rightarrow> NeighbourEntry \<Rightarrow> NeighbourList \<Rightarrow> NeighbourList" where
  "nl_put cp entry nl = om_put (fst cp) (om_put (snd cp) entry (om_at [] nl (fst cp))) nl"

text \<open>Both levels are ordered, and no chassis is left without a port.\<close>

definition nl_inv :: "NeighbourList \<Rightarrow> bool" where
  "nl_inv nl \<longleftrightarrow> om_inv nl \<and> (\<forall>c pm. om_find nl c = Some pm \<longrightarrow> om_inv pm \<and> pm \<noteq> [])"

lemma store_entry_nl_put: "store_entry e nl = nl_put (ne_chassis_id e, ne_port_id e) e nl"
  by (simp add: store_entry_def nl_put_def)

lemma nl_inv_Nil [simp]: "nl_inv []"
  by (simp add: nl_inv_def)

lemma om_put_not_Nil [simp]: "om_put k v m \<noteq> []"
  by (cases "(k, v, m)" rule: om_put.cases) auto

lemma om_inv_at: "nl_inv nl \<Longrightarrow> om_inv (om_at [] nl c)"
  by (auto simp: nl_inv_def om_at_find split: option.splits)

lemma nl_lookup_put:
  "nl_inv nl \<Longrightarrow> nl_lookup (nl_put cp e nl) cp' = (if cp' = cp then Some e else nl_lookup nl cp')"
  using om_inv_at [of nl "fst cp"]
  by (auto simp: nl_inv_def nl_lookup_def nl_put_def om_at_find prod_eq_iff split: option.splits)

lemma nl_inv_put [inv_intros]: "nl_inv nl \<Longrightarrow> nl_inv (nl_put cp e nl)"
  using om_inv_at [of nl "fst cp"]
  by (auto simp: nl_inv_def nl_put_def split: if_splits)

lemma om_erase_eq_Nil: "om_erase k m = [] \<Longrightarrow> j \<noteq> k \<Longrightarrow> om_find m j = None"
  using om_find_erase [of k m j] by simp

lemma nl_lookup_erase:
  "nl_inv nl \<Longrightarrow> nl_lookup (erase_entry cp nl) cp' = (if cp' = cp then None else nl_lookup nl cp')"
  by (auto simp: nl_inv_def nl_lookup_def erase_entry_def Let_def om_at_find prod_eq_iff
      dest: om_erase_eq_Nil split: option.splits prod.splits if_splits)

lemma nl_inv_erase [inv_intros]: "nl_inv nl \<Longrightarrow> nl_inv (erase_entry cp nl)"
  using om_inv_at [of nl "fst cp"]
  by (auto simp: nl_inv_def erase_entry_def Let_def om_at_find
      split: option.splits prod.splits if_splits)

interpretation nl: std_map nl_lookup nl_put erase_entry nl_inv
  by unfold_locales (auto simp: nl_lookup_put nl_lookup_erase intro: nl_inv_put nl_inv_erase)

text \<open>A list in order has one representation, so lists with the same entries are equal.\<close>

lemma nl_ext:
  assumes "nl_inv m" "nl_inv n" and same: "\<And>cp. nl_lookup m cp = nl_lookup n cp"
  shows "m = n"
proof -
  have sub: "om_find b c = Some pm"
    if inv: "nl_inv a" "nl_inv b" and eq: "\<And>cp. nl_lookup a cp = nl_lookup b cp"
      and pm: "om_find a c = Some pm" for a b c pm
  proof -
    from pm inv(1) obtain p e where "om_find pm p = Some e"
      using om_not_Nil_find [of pm] by (auto simp: nl_inv_def)
    with pm eq [of "(c, p)"] obtain pm' where pm': "om_find b c = Some pm'"
      by (auto simp: nl_lookup_def split: Option.bind_splits)
    have "om_find pm q = om_find pm' q" for q
      using eq [of "(c, q)"] pm pm' by (simp add: nl_lookup_def)
    with inv pm pm' have "pm = pm'"
      by (intro om_ext) (auto simp: nl_inv_def)
    with pm' show ?thesis by simp
  qed
  have "om_find m c = om_find n c" for c
    using sub [of m n c] sub [of n m c] assms
    by (cases "om_find m c"; cases "om_find n c") auto
  with assms(1,2) show ?thesis
    by (intro om_ext) (auto simp: nl_inv_def)
qed

subsection \<open>What a tick does to an entry\<close>

lemma expires_iff: "expires d e \<longleftrightarrow> unat (ne_time_to_live e) \<le> unat d"
  by (simp add: expires_def word_less_nat_alt unsigned_ucast_eq take_bit_nat_eq_self less_u16_bound not_less)

lemma unat_ttl_minus:
  assumes "unat d < unat (t :: u16)"
  shows "unat (t - ucast (d :: u64)) = unat t - unat d"
proof -
  have "unat t < 65536" using unsigned_less [of t, where 'a = nat] by simp
  with assms have "unat (ucast d :: u16) = unat d"
    by (simp add: unsigned_ucast_eq take_bit_nat_eq_self)
  with assms show ?thesis
    by (simp add: unat_sub word_le_nat_alt)
qed

lemma age_entry_simps:
  "expires d e \<Longrightarrow> age_entry d e = e\<lparr>ne_time_to_live := 0\<rparr>"
  "\<not> expires d e \<Longrightarrow> age_entry d e = e\<lparr>ne_time_to_live := ne_time_to_live e - ucast d\<rparr>"
  by (simp_all add: age_entry_def)

lemma age_entry_fields [simp]:
  "ne_chassis_id (age_entry d e) = ne_chassis_id e" "ne_port_id (age_entry d e) = ne_port_id e"
  "ne_interface_index (age_entry d e) = ne_interface_index e"
  "ne_ipv4_address (age_entry d e) = ne_ipv4_address e"
  "ne_ipv6_address (age_entry d e) = ne_ipv6_address e"
  by (simp_all add: age_entry_def)

lemma unat_age_entry:
  "unat (ne_time_to_live (age_entry d e)) = unat (ne_time_to_live e) - unat d"
  by (auto simp: age_entry_def expires_iff unat_ttl_minus)

lemma nl_lookup_aged:
  "nl_lookup (om_map (\<lambda>_. om_map (\<lambda>_. age_entry d)) nl) cp = map_option (age_entry d) (nl_lookup nl cp)"
  by (auto simp: nl_lookup_def om_find_map split: Option.bind_splits)

lemma om_map_eq_Nil [simp]: "om_map f m = [] \<longleftrightarrow> m = []"
  by (simp add: om_map_def)

lemma nl_inv_aged: "nl_inv nl \<Longrightarrow> nl_inv (om_map (\<lambda>_. om_map (\<lambda>_. age_entry d)) nl)"
  by (auto simp: nl_inv_def om_find_map)

lemma set_timed_out:
  assumes "nl_inv nl"
  shows "cp \<in> set (timed_out_entries d nl) \<longleftrightarrow> (\<exists>e. nl_lookup nl cp = Some e \<and> expires d e)"
proof -
  obtain c p where cp: "cp = (c, p)" by (cases cp)
  have "cp \<in> set (timed_out_entries d nl) \<longleftrightarrow>
      (\<exists>pm e. (fst cp, pm) \<in> set nl \<and> (snd cp, e) \<in> set pm \<and> expires d e)"
    unfolding cp timed_out_entries_def by (fastforce split: if_splits)
  also have "\<dots> \<longleftrightarrow> (\<exists>pm e. om_find nl (fst cp) = Some pm \<and> om_find pm (snd cp) = Some e \<and> expires d e)"
    using om_find_in_set assms unfolding nl_inv_def by metis
  finally show ?thesis
    by (auto simp: nl_lookup_def split: Option.bind_splits)
qed

text \<open>The lookup after a tick: survivors are younger by the time that passed, the rest is gone.\<close>

lemma nl_lookup_Tick:
  assumes "nl_inv nl"
  shows "nl_lookup (NeighbourList_Tick d nl) cp =
    (case nl_lookup nl cp of None \<Rightarrow> None
     | Some e \<Rightarrow> if expires d e then None
                else Some (e\<lparr>ne_time_to_live := ne_time_to_live e - ucast d\<rparr>))"
  using assms
  by (auto simp: NeighbourList_Tick_def nl.find_fold_erase nl_inv_aged set_timed_out nl_lookup_aged
      age_entry_simps split: option.splits)

lemma nl_inv_Tick [inv_intros]: "nl_inv nl \<Longrightarrow> nl_inv (NeighbourList_Tick d nl)"
  by (simp add: NeighbourList_Tick_def nl.inv_fold_erase nl_inv_aged)

lemma nl_lookup_Tick_Some:
  "nl_inv nl \<Longrightarrow> nl_lookup (NeighbourList_Tick d nl) cp = Some e \<Longrightarrow>
   \<exists>e0. nl_lookup nl cp = Some e0 \<and> \<not> expires d e0 \<and> e = age_entry d e0"
  by (auto simp: nl_lookup_Tick age_entry_simps split: option.splits if_splits)

subsection \<open>What the parser stores\<close>

text \<open>An address is present with its size, identifiers are short enough for a TLV.\<close>

definition entry_wf :: "NeighbourEntry \<Rightarrow> bool" where
  "entry_wf e \<longleftrightarrow>
     length (ne_chassis_id e) < 512 \<and> length (ne_port_id e) < 512 \<and>
     pred_option (\<lambda>a. length a = sizeof_in_addr) (ne_ipv4_address e) \<and>
     pred_option (\<lambda>a. length a = sizeof_in6_addr) (ne_ipv6_address e)"

lemma management_string_sizes:
  assumes "managementTlvGetManagementString v = Some m"
  shows "case m of Span_in_addr a \<Rightarrow> length a = sizeof_in_addr
         | Span_in6_addr a \<Rightarrow> length a = sizeof_in6_addr | Span_mac a \<Rightarrow> length a = ETH_ALEN"
  using assms
  by (auto simp: managementTlvGetManagementString_def Let_def sizeof_in_addr_def
      sizeof_in6_addr_def ETH_ALEN_def split: if_splits)

lemma collect_address_sizes:
  "pred_option (\<lambda>a. length a = sizeof_in_addr) (fst acc) \<Longrightarrow>
   pred_option (\<lambda>a. length a = sizeof_in6_addr) (snd acc) \<Longrightarrow>
   pred_option (\<lambda>a. length a = sizeof_in_addr) (fst (fold collect_address ts acc)) \<and>
   pred_option (\<lambda>a. length a = sizeof_in6_addr) (snd (fold collect_address ts acc))"
proof (induction ts arbitrary: acc)
  case (Cons t ts)
  have "pred_option (\<lambda>a. length a = sizeof_in_addr) (fst (collect_address t acc)) \<and>
      pred_option (\<lambda>a. length a = sizeof_in6_addr) (snd (collect_address t acc))"
    using Cons.prems
    by (auto simp: collect_address_def dest: management_string_sizes
        split: prod.splits option.splits management_string.splits)
  with Cons.IH show ?case by simp
qed simp

lemma lldpduToNeighbourEntry_cases:
  "lldpduToNeighbourEntry du i =
     (case tlv_value (time_to_live du) of
        a # b # _ \<Rightarrow>
          Inr \<lparr>ne_chassis_id = tlv_value (chassis_id du), ne_port_id = tlv_value (port_id du),
               ne_interface_index = i, ne_time_to_live = ntohs (of_bytes16 a b),
               ne_ipv4_address = fst (fold collect_address (optional_tlv du) (None, None)),
               ne_ipv6_address = snd (fold collect_address (optional_tlv du) (None, None))\<rparr>
      | _ \<Rightarrow> Inl Read_out_of_bounds)"
  by (auto simp: lldpduToNeighbourEntry_def span_at_def Let_def case_prod_beta split: list.splits)

lemma lldpduToNeighbourEntry_wf:
  assumes "data_unit_wf du" "lldpduToNeighbourEntry du i = Inr e"
  shows "entry_wf e"
  using assms collect_address_sizes [of "(None, None)" "optional_tlv du"]
  by (auto simp: lldpduToNeighbourEntry_cases entry_wf_def data_unit_wf_def tlv_fits_def
      split: list.splits)

lemma lldpFrameParser_Inr:
  assumes "lldpFrameParser nl address frame = Inr nl'"
  obtains du e where "DataUnit_FromSpan frame = Inr du"
    "lldpduToNeighbourEntry du (ucast (sll_ifindex address)) = Inr e"
    "nl' = nl_put (ne_chassis_id e, ne_port_id e) e nl"
  using assms
  by (auto simp: lldpFrameParser_def store_entry_nl_put split: if_splits sum.splits)

text \<open>A reading of the whole list: its entries sit in their own slots and are well formed.\<close>

definition nl_wf :: "NeighbourList \<Rightarrow> bool" where
  "nl_wf nl \<longleftrightarrow> nl_inv nl \<and>
     (\<forall>cp e. nl_lookup nl cp = Some e \<longrightarrow> (ne_chassis_id e, ne_port_id e) = cp \<and> entry_wf e)"

lemma nl_wf_Nil: "nl_wf []"
  by (simp add: nl_wf_def nl_lookup_def)

lemma nl_wf_Tick [inv_intros]: "nl_wf nl \<Longrightarrow> nl_wf (NeighbourList_Tick d nl)"
  by (fastforce simp: nl_wf_def entry_wf_def intro: nl_inv_Tick dest: nl_lookup_Tick_Some)

lemma nl_wf_frame [inv_intros]:
  assumes "nl_wf nl" "lldpFrameParser nl address frame = Inr nl'"
  shows "nl_wf nl'"
  using assms(2)
proof (rule lldpFrameParser_Inr)
  fix du e
  assume du: "DataUnit_FromSpan frame = Inr du"
    and e: "lldpduToNeighbourEntry du (ucast (sll_ifindex address)) = Inr e"
    and nl': "nl' = nl_put (ne_chassis_id e, ne_port_id e) e nl"
  have "entry_wf e"
    using DataUnit_FromSpan_wf [OF du] e by (rule lldpduToNeighbourEntry_wf)
  with assms(1) show ?thesis
    by (auto simp: nl' nl_wf_def nl_lookup_put nl_inv_put)
qed

subsection \<open>The receiver as a state machine\<close>

text \<open>The neighbour list starts empty and changes on accepted frames and on ticks only.\<close>

inductive neighbours_reachable :: "NeighbourList \<Rightarrow> bool" where
  start: "neighbours_reachable []"
| received: "neighbours_reachable nl \<Longrightarrow> lldpFrameParser nl address frame = Inr nl' \<Longrightarrow>
    neighbours_reachable nl'"
| ticked: "neighbours_reachable nl \<Longrightarrow> neighbours_reachable (NeighbourList_Tick d nl)"

lemma reachable_nl_wf: "neighbours_reachable nl \<Longrightarrow> nl_wf nl"
  by (induction rule: neighbours_reachable.induct) (auto intro: nl_wf_Nil nl_wf_Tick nl_wf_frame)

subsection \<open>Properties\<close>

text \<open>C34: In every state of the neighbour list reachable by receiving frames and ticking the clock,
  the two levels of the map are ordered, no chassis is kept without a port, every entry sits
  under its own chassis and port identifiers, identifiers are at most 511 bytes long and an
  address, when present, has the size of an IPv4 or IPv6 address.\<close>
theorem neighbour_list_well_formed:
  assumes "neighbours_reachable nl"
  shows "nl_inv nl \<and>
    (\<forall>chassis port e. nl_lookup nl (chassis, port) = Some e \<longrightarrow>
       ne_chassis_id e = chassis \<and> ne_port_id e = port \<and> entry_wf e)"
  using reachable_nl_wf [OF assms] by (auto simp: nl_wf_def)

theorem neighbour_list_well_formed_witness:
  "\<exists>nl e. nl_inv nl \<and> nl_lookup nl ([7], [7]) = Some e \<and> ne_chassis_id e = [7] \<and> entry_wf e"
proof -
  let ?a = "\<lparr>sll_family = 17, sll_protocol = 0xCC88, sll_ifindex = 2, sll_hatype = 1, sll_halen = 6\<rparr>"
  let ?f = "[2, 1, 7, 4, 1, 7, 6, 2, 0, 30, 0, 0]"
  let ?e = "\<lparr>ne_chassis_id = [7], ne_port_id = [7], ne_interface_index = 2, ne_time_to_live = 30,
     ne_ipv4_address = None, ne_ipv6_address = None\<rparr>"
  have p: "lldpFrameParser [] ?a ?f = Inr [([7], [([7], ?e)])]" by code_simp
  have r: "neighbours_reachable [([7], [([7], ?e)])]"
    using neighbours_reachable.received [OF neighbours_reachable.start p] .
  have l: "nl_lookup [([7], [([7], ?e)])] ([7], [7]) = Some ?e"
    by (simp add: nl_lookup_def om_find_def)
  show ?thesis
    using neighbour_list_well_formed [OF r] l by blast
qed

text \<open>A tick of \<open>d\<close> seconds keeps exactly the entries whose time to live exceeds \<open>d\<close>, younger by
  \<open>d\<close> and otherwise unchanged, and drops every other entry.\<close>
theorem tick_ages_and_expires:
  assumes "nl_inv nl"
  shows "nl_inv (NeighbourList_Tick d nl) \<and>
    nl_lookup (NeighbourList_Tick d nl) cp =
      (case nl_lookup nl cp of None \<Rightarrow> None
       | Some e \<Rightarrow> if unat d < unat (ne_time_to_live e)
                  then Some (e\<lparr>ne_time_to_live := of_nat (unat (ne_time_to_live e) - unat d)\<rparr>)
                  else None)"
proof -
  have "t - ucast d = of_nat (unat t - unat d)" if "unat d < unat t" for t :: u16
    using that by (simp flip: unat_ttl_minus)
  then show ?thesis
    using assms by (auto simp: nl_lookup_Tick nl_inv_Tick expires_iff split: option.splits)
qed

theorem tick_ages_and_expires_witness:
  "nl_lookup (NeighbourList_Tick 10 [([1], [([2], \<lparr>ne_chassis_id = [1], ne_port_id = [2],
      ne_interface_index = 3, ne_time_to_live = 30, ne_ipv4_address = None, ne_ipv6_address = None\<rparr>)])])
     ([1], [2]) =
   Some \<lparr>ne_chassis_id = [1], ne_port_id = [2], ne_interface_index = 3, ne_time_to_live = 20,
      ne_ipv4_address = None, ne_ipv6_address = None\<rparr>"
  by (subst tick_ages_and_expires [THEN conjunct2])
    (simp_all add: nl_inv_def om_inv_def om_find_def nl_lookup_def split: if_splits)

text \<open>C38: Ticks add up: ageing the list by \<open>a\<close> seconds and then by \<open>b\<close> gives the very list that one
  tick of \<open>a + b\<close> gives, when the sum does not overflow 64 bits, so it does not matter how the timer
  batches its expirations.\<close>
theorem ticks_add_up:
  assumes "nl_inv nl" and "unat a + unat b < 2 ^ 64"
  shows "NeighbourList_Tick b (NeighbourList_Tick a nl) = NeighbourList_Tick (a + b) nl"
proof (rule nl_ext)
  fix cp
  have sum: "unat (a + b) = unat a + unat b"
    using assms(2) by (simp add: unat_word_ariths)
  show "nl_lookup (NeighbourList_Tick b (NeighbourList_Tick a nl)) cp =
      nl_lookup (NeighbourList_Tick (a + b) nl) cp"
  proof (cases "nl_lookup nl cp")
    case (Some e)
    let ?t = "ne_time_to_live e"
    have "unat (?t - ucast a) = unat ?t - unat a" if "unat a < unat ?t"
      using that by (rule unat_ttl_minus)
    moreover have "?t - ucast a - ucast b = ?t - ucast (a + b)" if "unat a + unat b < unat ?t"
      using that sum
      by (simp add: word_unat_eq_iff unat_ttl_minus)
    ultimately show ?thesis
      using Some assms(1)
      by (auto simp: nl_lookup_Tick nl_inv_Tick expires_iff sum)
  qed (use assms(1) in \<open>simp add: nl_lookup_Tick nl_inv_Tick\<close>)
qed (use assms(1) in \<open>simp_all add: nl_inv_Tick\<close>)

theorem ticks_add_up_witness:
  "NeighbourList_Tick 2 (NeighbourList_Tick 1 [([1], [([2], \<lparr>ne_chassis_id = [1], ne_port_id = [2],
      ne_interface_index = 3, ne_time_to_live = 30, ne_ipv4_address = None, ne_ipv6_address = None\<rparr>)])]) =
   NeighbourList_Tick 3 [([1], [([2], \<lparr>ne_chassis_id = [1], ne_port_id = [2],
      ne_interface_index = 3, ne_time_to_live = 30, ne_ipv4_address = None, ne_ipv6_address = None\<rparr>)])]"
  by (subst ticks_add_up) (simp_all add: nl_inv_def om_inv_def om_find_def split: if_splits)

text \<open>An accepted frame writes exactly one slot of the list, that of the chassis and port
  identifiers it carries: the entry there has the frame's time to live and addresses, whatever
  was there before, and every other entry is untouched.\<close>
theorem frame_updates_one_entry:
  assumes "nl_inv nl" and "lldpFrameParser nl address frame = Inr nl'"
  shows "\<exists>du e. DataUnit_FromSpan frame = Inr du \<and>
     lldpduToNeighbourEntry du (ucast (sll_ifindex address)) = Inr e \<and>
     ne_chassis_id e = tlv_value (chassis_id du) \<and> ne_port_id e = tlv_value (port_id du) \<and>
     nl_lookup nl' = (nl_lookup nl)((ne_chassis_id e, ne_port_id e) \<mapsto> e)"
  using assms(2)
proof (rule lldpFrameParser_Inr)
  fix du e
  assume "DataUnit_FromSpan frame = Inr du"
    and e: "lldpduToNeighbourEntry du (ucast (sll_ifindex address)) = Inr e"
    and nl': "nl' = nl_put (ne_chassis_id e, ne_port_id e) e nl"
  moreover have "nl_lookup nl' = (nl_lookup nl)((ne_chassis_id e, ne_port_id e) \<mapsto> e)"
    using assms(1) by (auto simp: nl' nl_lookup_put fun_eq_iff)
  moreover have "ne_chassis_id e = tlv_value (chassis_id du) \<and> ne_port_id e = tlv_value (port_id du)"
    using e by (auto simp: lldpduToNeighbourEntry_cases split: list.splits)
  ultimately show ?thesis by blast
qed

theorem frame_updates_one_entry_witness:
  "\<exists>nl' e. lldpFrameParser [] \<lparr>sll_family = 17, sll_protocol = 0xCC88, sll_ifindex = 2,
       sll_hatype = 1, sll_halen = 6\<rparr> [2, 1, 7, 4, 1, 9, 6, 2, 0, 30, 0, 0] = Inr nl' \<and>
     nl_lookup nl' = Map.empty((ne_chassis_id e, ne_port_id e) \<mapsto> e)"
proof -
  let ?a = "\<lparr>sll_family = 17, sll_protocol = 0xCC88, sll_ifindex = 2, sll_hatype = 1, sll_halen = 6\<rparr>"
  let ?f = "[2, 1, 7, 4, 1, 9, 6, 2, 0, 30, 0, 0]"
  let ?e = "\<lparr>ne_chassis_id = [7], ne_port_id = [9], ne_interface_index = 2, ne_time_to_live = 30,
     ne_ipv4_address = None, ne_ipv6_address = None\<rparr>"
  have p: "lldpFrameParser [] ?a ?f = Inr [([7], [([9], ?e)])]" by code_simp
  have "nl_lookup [] = Map.empty" by (simp add: nl_lookup_def fun_eq_iff)
  with frame_updates_one_entry [OF nl_inv_Nil p] p show ?thesis by metis
qed

text \<open>C28: The parser has undefined behaviour on exactly the frames that pass the four address checks
  and parse as a data unit whose time-to-live TLV is shorter than two bytes: its bytes are read
  without looking at the size.  No other frame, however malformed, is read out of bounds.\<close>
theorem short_ttl_is_read_out_of_bounds:
  "(\<exists>ub. lldpFrameParser nl address frame = Inl (Undefined ub)) \<longleftrightarrow>
     sll_family address = AF_PACKET \<and> ntohs (sll_protocol address) = ETH_P_LLDP \<and>
     sll_hatype address = ARPHRD_ETHER \<and> unat (sll_halen address) = ETH_ALEN \<and>
     (\<exists>du. DataUnit_FromSpan frame = Inr du \<and> length (tlv_value (time_to_live du)) < 2)"
  by (auto simp: lldpFrameParser_def lldpduToNeighbourEntry_cases less_Suc_eq numeral_2_eq_2
      split: sum.splits list.splits)

text \<open>The interface a frame arrived on is kept modulo \<open>2 ^ 16\<close>: frames that differ only in
  interface indices equal modulo 65536 leave the same neighbour list.\<close>
theorem interface_index_truncated:
  assumes "unat i mod 65536 = unat j mod 65536"
  shows "lldpFrameParser nl (address\<lparr>sll_ifindex := i\<rparr>) frame =
         lldpFrameParser nl (address\<lparr>sll_ifindex := j\<rparr>) frame"
proof -
  have "(ucast i :: u16) = ucast j"
    using assms by (simp add: word_unat_eq_iff unsigned_ucast_eq take_bit_eq_mod)
  then show ?thesis by (simp add: lldpFrameParser_def cong: sum.case_cong)
qed

theorem interface_index_truncated_witness:
  "lldpFrameParser [] \<lparr>sll_family = 17, sll_protocol = 0xCC88, sll_ifindex = 65538,
      sll_hatype = 1, sll_halen = 6\<rparr> [2, 1, 7, 4, 1, 9, 6, 2, 0, 30] =
   lldpFrameParser [] \<lparr>sll_family = 17, sll_protocol = 0xCC88, sll_ifindex = 2,
      sll_hatype = 1, sll_halen = 6\<rparr> [2, 1, 7, 4, 1, 9, 6, 2, 0, 30]"
  using interface_index_truncated [of 65538 2 "[]" "\<lparr>sll_family = 17, sll_protocol = 0xCC88,
      sll_ifindex = 0, sll_hatype = 1, sll_halen = 6\<rparr>"] by simp

text \<open>When both reads see the same frame, the receiver hands it to the parser whole if it is at
  most 1600 bytes long and drops it otherwise, never a truncated one, and its buffer never grows
  beyond 1600 bytes.\<close>
theorem frames_delivered_whole_or_dropped:
  assumes "buffer_size \<le> MAX_FRAME_BUFFER_SIZE"
  shows "Monitor_Call buffer_size (Some frame) (Some (address, frame)) =
     (max buffer_size (min (length frame) MAX_FRAME_BUFFER_SIZE),
      if length frame \<le> MAX_FRAME_BUFFER_SIZE then Some (address, frame) else None)"
  using assms by (auto simp: Monitor_Call_def Let_def)

theorem frames_delivered_whole_or_dropped_witness:
  "let address = \<lparr>sll_family = 17, sll_protocol = 0xCC88, sll_ifindex = 2, sll_hatype = 1, sll_halen = 6\<rparr>
   in Monitor_Call 2 (Some [1, 2, 3]) (Some (address, [1, 2, 3])) = (3, Some (address, [1, 2, 3]))"
  using frames_delivered_whole_or_dropped [of 2 "[1, 2, 3]" "\<lparr>sll_family = 17, sll_protocol = 0xCC88, sll_ifindex = 2, sll_hatype = 1, sll_halen = 6\<rparr>"]
  by (simp add: MAX_FRAME_BUFFER_SIZE_def Let_def)

end
