(* ===== verification/Device_Data.thy ===== *)
theory Device_Data
  imports Platform
begin

section \<open>What is known of a network device\<close>

text \<open>
  \<open>struct DeviceData\<close> of \<open>netlink_monitor.hh\<close>, which the device repository fills and the LLDP
  senders transmit, and \<open>getMachineId\<close>.  Address arrays are byte lists of their size and the
  interface name is the bytes of a \<open>std::string\<close>.
\<close>

record DeviceData =
  mac_address :: "bytes option"
  ipv4_address :: "bytes option"
  ipv6_address :: "bytes option"
  interface_name :: "bytes option"
  device_operational :: bool
  if_index :: u32

definition DeviceData_default :: DeviceData where
  "DeviceData_default = \<lparr>mac_address = None, ipv4_address = None, ipv6_address = None,
     interface_name = None, device_operational = False, if_index = 0\<rparr>"

text \<open>The sizes the array types fix.\<close>

definition device_wf :: "DeviceData \<Rightarrow> bool" where
  "device_wf d \<longleftrightarrow>
     pred_option (\<lambda>a. length a = ETH_ALEN) (mac_address d) \<and>
     pred_option (\<lambda>a. length a = sizeof_in_addr) (ipv4_address d) \<and>
     pred_option (\<lambda>a. length a = sizeof_in6_addr) (ipv6_address d)"

lemma device_wf_default [simp]: "device_wf DeviceData_default"
  by (simp add: device_wf_def DeviceData_default_def)

text \<open>
  \<open>getMachineId\<close>: while the static string is empty, the first word of \<open>/etc/machine-id\<close> is read
  into it; \<open>None\<close> is a file that cannot be opened.
\<close>

definition is_space :: "byte \<Rightarrow> bool" where
  "is_space c \<longleftrightarrow> c = 32 \<or> 9 \<le> c \<and> c \<le> 13"

definition first_word :: "bytes \<Rightarrow> bytes" where
  "first_word cs = takeWhile (\<lambda>c. \<not> is_space c) (dropWhile is_space cs)"

definition getMachineId :: "bytes option \<Rightarrow> bytes \<Rightarrow> bytes" where
  "getMachineId machine_id_file machine_id =
     (if machine_id = []
      then (case machine_id_file of None \<Rightarrow> [] | Some contents \<Rightarrow> first_word contents)
      else machine_id)"

end
