(* ===== verification/Lldp_Sender.thy ===== *)
theory Lldp_Sender
  imports Lldp_Packet Device_Data
begin

section \<open>The transmit state machine of a device\<close>

text \<open>
  \<open>lldp_sender.cc\<close>: one \<open>LldpSender\<close> per device decides when to transmit (a timer, a fast-start
  counter and a bucket of at most five transmit credits) and builds and sends the frame.
  Every operation takes the sender and the \<open>link_env\<close>, which holds the process-wide static
  variables and the packet socket, and returns both.
\<close>

subsection \<open>The packet socket and the static variables\<close>

datatype send_result = Bytes_sent nat | Send_errno int

text \<open>A call of \<open>sendto\<close>: the interface of its address and the bytes of its buffer, or the
  undefined behaviour met while filling the buffer.\<close>

record transmission =
  tx_ifindex :: u32
  tx_bytes :: "bytes cpp"

text \<open>
  \<open>send_outcome n\<close> is what the kernel answers to the \<open>n\<close>-th call of \<open>sendto\<close>, and \<open>send_log\<close> the
  calls so far.  \<open>dead_storage n bs i\<close> is the byte that the \<open>n\<close>-th call finds when it reads, through a
  span, byte \<open>i\<close> of an automatic variable whose scope has ended and that last held \<open>bs\<close>: the language
  leaves it open.
\<close>

record link_env =
  machine_id_file :: "bytes option"
  machine_id :: bytes
  machine_id_vector :: bytes
  frame_buffer :: bytes
  dead_storage :: "nat \<Rightarrow> bytes \<Rightarrow> nat \<Rightarrow> byte"
  send_outcome :: "nat \<Rightarrow> send_result"
  send_log :: "transmission list"

record LldpSender =
  device_data :: DeviceData
  transmit_timer :: u16
  transmit_credits :: u16
  fast_forward_counter :: u16
  trigger_ready :: bool

subsection \<open>Constants\<close>

definition MAX_TRANSMIT_CREDITS :: nat where "MAX_TRANSMIT_CREDITS = 5"
definition FAST_TRANSMIT_AMOUNT :: u16 where "FAST_TRANSMIT_AMOUNT = 4"
definition TARGET_TTL :: u16 where "TARGET_TTL = 30"
definition PACKET_HOLD_AMOUNT :: u16 where "PACKET_HOLD_AMOUNT = 5"
definition MESSAGE_TRANSMIT_INTERVAL :: u16 where
  "MESSAGE_TRANSMIT_INTERVAL = TARGET_TTL div PACKET_HOLD_AMOUNT"
definition MESSAGE_FAST_INTERVAL :: u16 where "MESSAGE_FAST_INTERVAL = 1"

definition MULTICAST_ADDRESS :: bytes where
  "MULTICAST_ADDRESS = [0x01, 0x80, 0xC2, 0x00, 0x00, 0x00]"

subsection \<open>Building the frame\<close>

definition tlvValueManagementAddressTemplate :: "nat \<Rightarrow> byte \<Rightarrow> bytes" where
  "tlvValueManagementAddressTemplate AddressLength address_subtype =
     ((replicate (1 + 1 + AddressLength + 1 + 4 + 1) 0)
        [0 := of_nat (1 + AddressLength), 1 := address_subtype])
        [1 + 1 + AddressLength := MANAGEMENT_TLV_IF_SUBTYPE_IFINDEX]"

definition management_address_value :: "bytes \<Rightarrow> nat \<Rightarrow> byte \<Rightarrow> u32 \<Rightarrow> bytes" where
  "management_address_value address AddressLength address_subtype index =
     overwrite (overwrite (tlvValueManagementAddressTemplate AddressLength address_subtype) 2 address)
       (1 + 1 + AddressLength + 1) (as_bytes32 (htonl index))"

definition createLldpduOptionalTlvs :: "DeviceData \<Rightarrow> LLDPDUTypeLengthValue list" where
  "createLldpduOptionalTlvs dev =
     (case ipv4_address dev of None \<Rightarrow> []
      | Some a \<Rightarrow> [\<lparr>tlv_type = MANAGEMENT_ADDRESS, tlv_value =
          management_address_value a sizeof_in_addr MANAGEMENT_TLV_ADDRESS_SUBTYPE_IPV4 (if_index dev)\<rparr>])
     @ (case ipv6_address dev of None \<Rightarrow> []
      | Some a \<Rightarrow> [\<lparr>tlv_type = MANAGEMENT_ADDRESS, tlv_value =
          management_address_value a sizeof_in6_addr MANAGEMENT_TLV_ADDRESS_SUBTYPE_IPV6 (if_index dev)\<rparr>])
     @ (if ipv4_address dev = None \<and> ipv6_address dev = None then
          (case mac_address dev of None \<Rightarrow> []
           | Some a \<Rightarrow> [\<lparr>tlv_type = MANAGEMENT_ADDRESS, tlv_value =
               management_address_value a ETH_ALEN MANAGEMENT_TLV_ADDRESS_SUBTYPE_MAC (if_index dev)\<rparr>])
        else [])"

definition getMachineIdTlvValue :: "link_env \<Rightarrow> bytes \<times> link_env" where
  "getMachineIdTlvValue env =
     (if machine_id_vector env = [] then
        let chassis = getMachineId (machine_id_file env) (machine_id env);
            vector = PORT_TLV_SUBTYPE_LOCAL # chassis
        in (vector, env\<lparr>machine_id := chassis, machine_id_vector := vector\<rparr>)
      else (machine_id_vector env, env))"

text \<open>
  The spans stored as \<open>port_id.value\<close> and \<open>time_to_live.value\<close> are over the local variables
  \<open>mac_address\<close> and \<open>ttl_network_bo\<close> of \<open>constructFrame\<close>; \<open>sendFrame\<close> reads them after it has
  returned, which is undefined.  The model goes on with as many bytes as the span has, of any value:
  \<open>dead_read\<close>.  \<open>None\<close> is the early return.
\<close>

definition dead_at :: "(nat \<Rightarrow> bytes \<Rightarrow> nat \<Rightarrow> byte) \<Rightarrow> nat \<Rightarrow> bytes \<Rightarrow> bytes" where
  "dead_at dead n bs = map (dead n bs) [0..<length bs]"

definition dead_read :: "link_env \<Rightarrow> bytes \<Rightarrow> bytes" where
  "dead_read env bs = dead_at (dead_storage env) (length (send_log env)) bs"

lemma length_dead_at [simp]: "length (dead_at dead n bs) = length bs"
  by (simp add: dead_at_def)

lemma length_dead_read [simp]: "length (dead_read env bs) = length bs"
  by (simp add: dead_read_def)

lemma dead_at_intact [simp]: "dead_at (\<lambda>_. nth) n bs = bs"
  by (simp add: dead_at_def map_nth)

definition constructFrame ::
  "u16 \<Rightarrow> DeviceData \<Rightarrow> link_env \<Rightarrow> LLDPEthernetFrame option \<times> link_env" where
  "constructFrame ttl dev env =
     (case mac_address dev of None \<Rightarrow> (None, env)
      | Some mac \<Rightarrow>
        let (chassis_value, env') = getMachineIdTlvValue env in
        (Some
          \<lparr>header = \<lparr>ether_dhost = MULTICAST_ADDRESS, ether_shost = mac, ether_type = htons ETH_P_LLDP\<rparr>,
           data_unit =
             \<lparr>chassis_id = \<lparr>tlv_type = CHASSIS_ID, tlv_value = chassis_value\<rparr>,
              port_id = \<lparr>tlv_type = PORT_ID,
                         tlv_value = dead_read env (PORT_TLV_SUBTYPE_MAC # mac)\<rparr>,
              time_to_live = \<lparr>tlv_type = TIME_TO_LIVE,
                              tlv_value = dead_read env (as_bytes16 (htons ttl))\<rparr>,
              optional_tlv = createLldpduOptionalTlvs dev\<rparr>\<rparr>,
         env'))"

text \<open>\<open>std::vector::resize\<close>\<close>

definition resize :: "nat \<Rightarrow> bytes \<Rightarrow> bytes" where
  "resize n v = take n v @ replicate (n - length v) 0"

definition sendFrame :: "LLDPEthernetFrame \<Rightarrow> u32 \<Rightarrow> link_env \<Rightarrow> send_result \<times> link_env" where
  "sendFrame frame index env =
     (let buffer = resize (Frame_GetFrameBufferSize frame) (frame_buffer env);
          written = Frame_ToFrameBuffer frame (buffer, 0);
          contents = bind_cpp written (\<lambda>(buf, _). Inr buf)
      in (send_outcome env (length (send_log env)),
          env\<lparr>frame_buffer := (case contents of Inl _ \<Rightarrow> buffer | Inr buf \<Rightarrow> buf),
              send_log := send_log env @ [\<lparr>tx_ifindex = index, tx_bytes = contents\<rparr>]\<rparr>))"

subsection \<open>Operations\<close>

definition DisableSender :: "LldpSender \<Rightarrow> link_env \<Rightarrow> LldpSender \<times> link_env" where
  "DisableSender s env = (s, env)"

definition SendLldp :: "u16 \<Rightarrow> LldpSender \<Rightarrow> link_env \<Rightarrow> LldpSender \<times> link_env" where
  "SendLldp ttl s env =
     (if INT_MAX < if_index (device_data s) \<or> mac_address (device_data s) = None then (s, env)
      else case constructFrame ttl (device_data s) env of
        (None, env) \<Rightarrow> (s, env)
      | (Some frame, env) \<Rightarrow>
          (case sendFrame frame (if_index (device_data s)) env of
             (Bytes_sent _, env) \<Rightarrow> (s, env)
           | (Send_errno error, env) \<Rightarrow>
               if error = ENETDOWN
               then DisableSender (s\<lparr>device_data := (device_data s)\<lparr>device_operational := False\<rparr>\<rparr>) env
               else (s, env)))"

definition EndTransmission :: "LldpSender \<Rightarrow> link_env \<Rightarrow> LldpSender \<times> link_env" where
  "EndTransmission s env =
     (if mac_address (device_data s) \<noteq> None then SendLldp 0 s env else (s, env))"

definition TryTransmit :: "LldpSender \<Rightarrow> link_env \<Rightarrow> LldpSender \<times> link_env" where
  "TryTransmit s env =
     (if trigger_ready s \<and> 0 < transmit_credits s \<and> mac_address (device_data s) \<noteq> None
      then SendLldp TARGET_TTL
             (s\<lparr>trigger_ready := False, transmit_credits := transmit_credits s - 1\<rparr>) env
      else (s, env))"

definition TriggerTransmission :: "LldpSender \<Rightarrow> link_env \<Rightarrow> LldpSender \<times> link_env" where
  "TriggerTransmission s env =
     (let timer = (if 0 < fast_forward_counter s then MESSAGE_FAST_INTERVAL
                   else MESSAGE_TRANSMIT_INTERVAL)
      in TryTransmit (s\<lparr>transmit_timer := timer, trigger_ready := True\<rparr>) env)"

definition TimerExpired :: "LldpSender \<Rightarrow> link_env \<Rightarrow> LldpSender \<times> link_env" where
  "TimerExpired s env =
     TriggerTransmission
       (if 0 < fast_forward_counter s
        then s\<lparr>fast_forward_counter := fast_forward_counter s - 1\<rparr> else s) env"

definition NewNeighbour :: "LldpSender \<Rightarrow> link_env \<Rightarrow> LldpSender \<times> link_env" where
  "NewNeighbour s env =
     TimerExpired
       (if fast_forward_counter s = 0
        then s\<lparr>fast_forward_counter := FAST_TRANSMIT_AMOUNT\<rparr> else s) env"

definition LocalChangeDetected :: "LldpSender \<Rightarrow> link_env \<Rightarrow> LldpSender \<times> link_env" where
  "LocalChangeDetected s env = TriggerTransmission s env"

definition EnableSender :: "LldpSender \<Rightarrow> link_env \<Rightarrow> LldpSender \<times> link_env" where
  "EnableSender s env = NewNeighbour s env"

text \<open>
  \<open>transmit_credits_ + delta_seconds\<close> and the comparisons are 64-bit unsigned arithmetic, and the
  compound assignments truncate to 16 bits.
\<close>

definition Sender_Tick :: "u64 \<Rightarrow> LldpSender \<Rightarrow> link_env \<Rightarrow> LldpSender \<times> link_env" where
  "Sender_Tick delta_seconds s env =
     (if device_operational (device_data s) then
        let s = (if ucast (transmit_credits s) + delta_seconds \<le> of_nat MAX_TRANSMIT_CREDITS
                 then s\<lparr>transmit_credits := transmit_credits s + ucast delta_seconds\<rparr> else s);
            (s, env) =
              (if delta_seconds < ucast (transmit_timer s)
               then (s\<lparr>transmit_timer := transmit_timer s - ucast delta_seconds\<rparr>, env)
               else TimerExpired (s\<lparr>transmit_timer := 0\<rparr>) env)
        in TryTransmit s env
      else (s, env))"

text \<open>\<open>Update\<close> copies the fields that differ; the MAC address and the index are not among them.\<close>

definition Update :: "DeviceData \<Rightarrow> LldpSender \<Rightarrow> link_env \<Rightarrow> LldpSender \<times> link_env" where
  "Update new_device_data s env =
     (let any_changed = False;
          (any_changed, s) =
            (if interface_name (device_data s) \<noteq> interface_name new_device_data
             then (True, s\<lparr>device_data := (device_data s)\<lparr>interface_name := interface_name new_device_data\<rparr>\<rparr>)
             else (any_changed, s));
          (any_changed, s) =
            (if ipv4_address (device_data s) \<noteq> ipv4_address new_device_data
             then (True, s\<lparr>device_data := (device_data s)\<lparr>ipv4_address := ipv4_address new_device_data\<rparr>\<rparr>)
             else (any_changed, s));
          (any_changed, s) =
            (if ipv6_address (device_data s) \<noteq> ipv6_address new_device_data
             then (True, s\<lparr>device_data := (device_data s)\<lparr>ipv6_address := ipv6_address new_device_data\<rparr>\<rparr>)
             else (any_changed, s));
          (any_changed, s, env) =
            (if device_operational (device_data s) \<noteq> device_operational new_device_data
             then (let (s, env) = (if device_operational new_device_data
                                   then DisableSender s env else EnableSender s env)
                   in (True, s\<lparr>device_data :=
                        (device_data s)\<lparr>device_operational := device_operational new_device_data\<rparr>\<rparr>, env))
             else (any_changed, s, env))
      in if any_changed then LocalChangeDetected s env else (s, env))"

text \<open>The constructor.\<close>

definition LldpSender_new :: "DeviceData \<Rightarrow> link_env \<Rightarrow> LldpSender \<times> link_env" where
  "LldpSender_new dev env =
     (let s = \<lparr>device_data = dev, transmit_timer = 0, transmit_credits = 0,
               fast_forward_counter = 0, trigger_ready = False\<rparr>
      in if device_operational dev then EnableSender s env else DisableSender s env)"

subsection \<open>What a transmission does to the state\<close>

lemmas sender_op_defs =
  DisableSender_def EndTransmission_def TryTransmit_def TriggerTransmission_def TimerExpired_def
  NewNeighbour_def LocalChangeDetected_def EnableSender_def

lemma interval_values [simp]:
  "MESSAGE_TRANSMIT_INTERVAL = 6" "MESSAGE_FAST_INTERVAL = 1" "FAST_TRANSMIT_AMOUNT = 4"
  by (simp_all add: MESSAGE_TRANSMIT_INTERVAL_def TARGET_TTL_def PACKET_HOLD_AMOUNT_def
      MESSAGE_FAST_INTERVAL_def FAST_TRANSMIT_AMOUNT_def)

text \<open>The device can be sent from: its index is a positive \<open>int\<close> and its MAC address is known.\<close>

definition sendable :: "LldpSender \<Rightarrow> bool" where
  "sendable s \<longleftrightarrow> if_index (device_data s) \<le> INT_MAX \<and> mac_address (device_data s) \<noteq> None"

definition never_down :: "link_env \<Rightarrow> bool" where
  "never_down env \<longleftrightarrow> (\<forall>n. send_outcome env n \<noteq> Send_errno ENETDOWN)"

text \<open>What no transmission changes: the device's identity and addresses, and how the outside answers:
  the storage of locals, \<open>sendto\<close>, the contents of \<open>/etc/machine-id\<close> and the identifier read from it.\<close>

type_synonym outside = "(nat \<Rightarrow> bytes \<Rightarrow> nat \<Rightarrow> byte) \<times> (nat \<Rightarrow> send_result) \<times> bytes option \<times> bytes"

definition identity :: "LldpSender \<Rightarrow> DeviceData" where
  "identity s = (device_data s)\<lparr>device_operational := False\<rparr>"

definition world :: "link_env \<Rightarrow> outside" where
  "world env = (dead_storage env, send_outcome env, machine_id_file env, fst (getMachineIdTlvValue env))"

lemma getMachineIdTlvValue_fields [simp]:
  "fst (getMachineIdTlvValue (env\<lparr>frame_buffer := b\<rparr>)) = fst (getMachineIdTlvValue env)"
  "fst (getMachineIdTlvValue (env\<lparr>send_log := ts\<rparr>)) = fst (getMachineIdTlvValue env)"
  by (simp_all add: getMachineIdTlvValue_def Let_def)

lemma identity_fields [simp]:
  "identity (s\<lparr>transmit_timer := a\<rparr>) = identity s"
  "identity (s\<lparr>transmit_credits := b\<rparr>) = identity s"
  "identity (s\<lparr>fast_forward_counter := c\<rparr>) = identity s"
  "identity (s\<lparr>trigger_ready := d\<rparr>) = identity s"
  "identity (s\<lparr>device_data := (device_data s)\<lparr>device_operational := e\<rparr>\<rparr>) = identity s"
  by (simp_all add: identity_def)

lemma identity_select:
  "mac_address (identity s) = mac_address (device_data s)"
  "if_index (identity s) = if_index (device_data s)"
  "ipv4_address (identity s) = ipv4_address (device_data s)"
  "ipv6_address (identity s) = ipv6_address (device_data s)"
  "interface_name (identity s) = interface_name (device_data s)"
  by (simp_all add: identity_def)

lemma identity_parts:
  "identity s' = identity s \<Longrightarrow> mac_address (device_data s') = mac_address (device_data s)"
  "identity s' = identity s \<Longrightarrow> if_index (device_data s') = if_index (device_data s)"
  "identity s' = identity s \<Longrightarrow> ipv4_address (device_data s') = ipv4_address (device_data s)"
  "identity s' = identity s \<Longrightarrow> ipv6_address (device_data s') = ipv6_address (device_data s)"
  "identity s' = identity s \<Longrightarrow> interface_name (device_data s') = interface_name (device_data s)"
  by (simp_all flip: identity_select)

lemma identity_sendable: "identity s' = identity s \<Longrightarrow> sendable s' = sendable s"
  using identity_parts(1,2) [of s' s] by (simp add: sendable_def)

lemma world_never_down: "world env' = world env \<Longrightarrow> never_down env' = never_down env"
  by (simp add: world_def never_down_def)

lemma getMachineIdTlvValue_frame:
  "getMachineIdTlvValue env = (v, env') \<Longrightarrow>
     world env' = world env \<and> send_log env' = send_log env \<and> machine_id_vector env' = v \<and> v \<noteq> []"
  by (auto simp: getMachineIdTlvValue_def world_def Let_def split: if_splits)

lemma SendLldp_unsendable: "\<not> sendable s \<Longrightarrow> SendLldp ttl s env = (s, env)"
  by (auto simp: SendLldp_def sendable_def not_le)

lemma SendLldp_sendable:
  assumes "sendable s"
  shows "fst (SendLldp ttl s env) =
      (if send_outcome env (length (send_log env)) = Send_errno ENETDOWN
       then s\<lparr>device_data := (device_data s)\<lparr>device_operational := False\<rparr>\<rparr> else s)"
    and "length (send_log (snd (SendLldp ttl s env))) = Suc (length (send_log env))"
    and "world (snd (SendLldp ttl s env)) = world env"
proof -
  from assms obtain mac where mac: "mac_address (device_data s) = Some mac" "if_index (device_data s) \<le> INT_MAX"
    by (auto simp: sendable_def)
  obtain v env1 where v: "getMachineIdTlvValue env = (v, env1)" by (cases "getMachineIdTlvValue env")
  note frame = getMachineIdTlvValue_frame [OF v]
  show "fst (SendLldp ttl s env) =
      (if send_outcome env (length (send_log env)) = Send_errno ENETDOWN
       then s\<lparr>device_data := (device_data s)\<lparr>device_operational := False\<rparr>\<rparr> else s)"
    and "length (send_log (snd (SendLldp ttl s env))) = Suc (length (send_log env))"
    and "world (snd (SendLldp ttl s env)) = world env"
    using mac v frame
    by (auto simp: SendLldp_def constructFrame_def sendFrame_def DisableSender_def
        world_def Let_def split: send_result.split)
qed

lemma SendLldp_fst_cases:
  "fst (SendLldp ttl s env) = s \<or>
   fst (SendLldp ttl s env) = s\<lparr>device_data := (device_data s)\<lparr>device_operational := False\<rparr>\<rparr>"
  by (cases "sendable s") (auto simp: SendLldp_sendable SendLldp_unsendable)

lemma SendLldp_fields [simp]:
  "transmit_timer (fst (SendLldp ttl s env)) = transmit_timer s"
  "transmit_credits (fst (SendLldp ttl s env)) = transmit_credits s"
  "fast_forward_counter (fst (SendLldp ttl s env)) = fast_forward_counter s"
  "trigger_ready (fst (SendLldp ttl s env)) = trigger_ready s"
  using SendLldp_fst_cases [of ttl s env] by auto

lemma SendLldp_identity [simp]: "identity (fst (SendLldp ttl s env)) = identity s"
  using SendLldp_fst_cases [of ttl s env] by auto

lemma SendLldp_world [simp]: "world (snd (SendLldp ttl s env)) = world env"
  by (cases "sendable s") (auto simp: SendLldp_sendable SendLldp_unsendable)

lemma SendLldp_log_le: "length (send_log (snd (SendLldp ttl s env))) \<le> Suc (length (send_log env))"
  by (cases "sendable s") (auto simp: SendLldp_sendable SendLldp_unsendable)

subsection \<open>Every operation keeps the device's identity and the socket\<close>

lemma TryTransmit_frame [simp]:
  "identity (fst (TryTransmit s env)) = identity s" "world (snd (TryTransmit s env)) = world env"
  by (simp_all add: TryTransmit_def)

lemma TriggerTransmission_frame [simp]:
  "identity (fst (TriggerTransmission s env)) = identity s"
  "world (snd (TriggerTransmission s env)) = world env"
  by (simp_all add: TriggerTransmission_def Let_def)

lemma TimerExpired_frame [simp]:
  "identity (fst (TimerExpired s env)) = identity s" "world (snd (TimerExpired s env)) = world env"
  by (simp_all add: TimerExpired_def)

lemma NewNeighbour_frame [simp]:
  "identity (fst (NewNeighbour s env)) = identity s" "world (snd (NewNeighbour s env)) = world env"
  by (simp_all add: NewNeighbour_def)

lemma Sender_Tick_frame [simp]:
  "identity (fst (Sender_Tick d s env)) = identity s" "world (snd (Sender_Tick d s env)) = world env"
  by (simp_all add: Sender_Tick_def Let_def case_prod_beta)

subsection \<open>The invariant\<close>

definition sender_inv :: "LldpSender \<Rightarrow> bool" where
  "sender_inv s \<longleftrightarrow> unat (transmit_credits s) \<le> MAX_TRANSMIT_CREDITS \<and>
     transmit_timer s \<le> 6 \<and> fast_forward_counter s \<le> 4"

lemma unat_dec: "0 < (c :: u16) \<Longrightarrow> unat (c - 1) = unat c - 1"
  by (metis One_nat_def unat_minus_one word_greater_zero_iff)

lemma dec_le_4: "(0::u16) < c \<Longrightarrow> c \<le> 4 \<Longrightarrow> c - 1 \<le> 4"
  by (simp add: word_le_nat_alt unat_dec)

lemma SendLldp_inv [simp]: "sender_inv (fst (SendLldp ttl s env)) = sender_inv s"
  by (simp add: sender_inv_def)

lemma EndTransmission_inv [inv_intros]: "sender_inv s \<Longrightarrow> sender_inv (fst (EndTransmission s env))"
  by (simp add: EndTransmission_def)

lemma TryTransmit_inv [inv_intros]: "sender_inv s \<Longrightarrow> sender_inv (fst (TryTransmit s env))"
  by (auto simp: TryTransmit_def sender_inv_def unat_dec)

lemma TriggerTransmission_inv [inv_intros]:
  "sender_inv s \<Longrightarrow> sender_inv (fst (TriggerTransmission s env))"
  unfolding TriggerTransmission_def Let_def
  by (rule TryTransmit_inv) (simp add: sender_inv_def)

lemma TimerExpired_inv [inv_intros]: "sender_inv s \<Longrightarrow> sender_inv (fst (TimerExpired s env))"
  unfolding TimerExpired_def
  by (rule TriggerTransmission_inv) (simp add: sender_inv_def dec_le_4)

lemma NewNeighbour_inv [inv_intros]: "sender_inv s \<Longrightarrow> sender_inv (fst (NewNeighbour s env))"
  unfolding NewNeighbour_def
  by (rule TimerExpired_inv) (simp add: sender_inv_def)

text \<open>The credit counter of a tick: bounded by five and by what the elapsed time adds, even where
  the 64-bit sum wraps around.\<close>

lemma refill_bounds:
  fixes c :: u16 and d :: u64
  assumes "ucast c + d \<le> of_nat MAX_TRANSMIT_CREDITS"
  shows "unat (c + ucast d) \<le> MAX_TRANSMIT_CREDITS" "unat (c + ucast d) \<le> unat c + unat d"
proof -
  have c: "unat (ucast c :: u64) = unat c"
    using unsigned_less [of c, where 'a = nat] by (simp add: unsigned_ucast_eq take_bit_nat_eq_self)
  have "unat (ucast c + d) \<le> 5"
    using assms by (simp add: word_le_nat_alt MAX_TRANSMIT_CREDITS_def)
  then have 64: "(unat c + unat d) mod 2 ^ 64 \<le> 5"
    by (simp add: unat_word_ariths c)
  have "unat (c + ucast d) = (unat c + unat d) mod 2 ^ 16"
    by (simp add: unat_word_ariths unsigned_ucast_eq take_bit_eq_mod mod_add_right_eq)
  also have "\<dots> = (unat c + unat d) mod 2 ^ 64 mod 2 ^ 16"
    by (simp add: mod_mod_cancel)
  finally have 16: "unat (c + ucast d) = (unat c + unat d) mod 2 ^ 64 mod 2 ^ 16" .
  with 64 show "unat (c + ucast d) \<le> MAX_TRANSMIT_CREDITS"
    by (simp add: MAX_TRANSMIT_CREDITS_def)
  show "unat (c + ucast d) \<le> unat c + unat d"
    unfolding 16 by (meson mod_less_eq_dividend order_trans)
qed

text \<open>The three stages of a tick, and of an update.\<close>

definition refill :: "u64 \<Rightarrow> LldpSender \<Rightarrow> LldpSender" where
  "refill d s =
     (if ucast (transmit_credits s) + d \<le> of_nat MAX_TRANSMIT_CREDITS
      then s\<lparr>transmit_credits := transmit_credits s + ucast d\<rparr> else s)"

lemma Sender_Tick_stages:
  "Sender_Tick d s env =
     (if device_operational (device_data s) then
        if d < ucast (transmit_timer s)
        then TryTransmit ((refill d s)\<lparr>transmit_timer := transmit_timer s - ucast d\<rparr>) env
        else case_prod TryTransmit (TimerExpired ((refill d s)\<lparr>transmit_timer := 0\<rparr>) env)
      else (s, env))"
  by (auto simp: Sender_Tick_def refill_def Let_def)

lemma refill_inv [inv_intros]: "sender_inv s \<Longrightarrow> sender_inv (refill d s)"
  using refill_bounds [of "transmit_credits s" d] by (simp add: refill_def sender_inv_def)

lemma refill_fields [simp]:
  "transmit_timer (refill d s) = transmit_timer s" "device_data (refill d s) = device_data s"
  "fast_forward_counter (refill d s) = fast_forward_counter s"
  "trigger_ready (refill d s) = trigger_ready s" "identity (refill d s) = identity s"
  by (simp_all add: refill_def)

lemma timer_minus_le:
  assumes "d < ucast (t :: u16)" "t \<le> 6"
  shows "t - ucast (d :: u64) \<le> 6"
proof -
  have "unat d < unat t"
    using assms(1) unsigned_less [of t, where 'a = nat]
    by (simp add: word_less_nat_alt unsigned_ucast_eq take_bit_nat_eq_self)
  then have "ucast d \<le> t"
    by (simp add: word_le_nat_alt unsigned_ucast_eq order_trans [OF take_bit_nat_less_eq_self])
  then show ?thesis
    using assms(2) by (meson order_trans word_sub_le)
qed

lemma Sender_Tick_inv [inv_intros]: "sender_inv s \<Longrightarrow> sender_inv (fst (Sender_Tick d s env))"
proof -
  assume inv: "sender_inv s"
  have "sender_inv ((refill d s)\<lparr>transmit_timer := t\<rparr>)" if "t \<le> 6" for t
    using refill_inv [OF inv] that by (simp add: sender_inv_def)
  moreover have "transmit_timer s - ucast d \<le> 6" if "d < ucast (transmit_timer s)"
    using inv that by (simp add: sender_inv_def timer_minus_le)
  ultimately show ?thesis
    using inv by (auto simp: Sender_Tick_stages case_prod_beta intro!: TryTransmit_inv TimerExpired_inv)
qed

definition copy_changed :: "DeviceData \<Rightarrow> LldpSender \<Rightarrow> LldpSender" where
  "copy_changed new s =
     s\<lparr>device_data := (device_data s)\<lparr>interface_name := interface_name new,
        ipv4_address := ipv4_address new, ipv6_address := ipv6_address new\<rparr>\<rparr>"

definition set_operational :: "bool \<Rightarrow> LldpSender \<Rightarrow> LldpSender" where
  "set_operational b s = s\<lparr>device_data := (device_data s)\<lparr>device_operational := b\<rparr>\<rparr>"

lemma copy_changed_id:
  "copy_changed new s = s \<longleftrightarrow> interface_name new = interface_name (device_data s) \<and>
     ipv4_address new = ipv4_address (device_data s) \<and> ipv6_address new = ipv6_address (device_data s)"
proof
  have "interface_name (device_data (copy_changed new s)) = interface_name new"
    "ipv4_address (device_data (copy_changed new s)) = ipv4_address new"
    "ipv6_address (device_data (copy_changed new s)) = ipv6_address new"
    by (simp_all add: copy_changed_def)
  then show "interface_name new = interface_name (device_data s) \<and>
      ipv4_address new = ipv4_address (device_data s) \<and> ipv6_address new = ipv6_address (device_data s)"
    if "copy_changed new s = s"
    using that by simp
qed (simp add: copy_changed_def)

lemma Update_stages:
  "Update new s env =
     (if device_operational (device_data s) \<noteq> device_operational new then
        if device_operational new
        then TriggerTransmission (set_operational True (copy_changed new s)) env
        else case_prod (\<lambda>s. TriggerTransmission (set_operational False s))
               (NewNeighbour (copy_changed new s) env)
      else if copy_changed new s \<noteq> s then TriggerTransmission (copy_changed new s) env
      else (s, env))"
  by (cases "interface_name new = interface_name (device_data s)";
      cases "ipv4_address new = ipv4_address (device_data s)";
      cases "ipv6_address new = ipv6_address (device_data s)";
      cases "device_operational new = device_operational (device_data s)";
      cases "device_operational new")
    (simp_all add: Update_def copy_changed_id DisableSender_def EnableSender_def
      LocalChangeDetected_def case_prod_beta set_operational_def, simp_all add: copy_changed_def)

lemma copy_changed_inv [simp]: "sender_inv (copy_changed new s) = sender_inv s"
  by (simp add: sender_inv_def copy_changed_def)

lemma set_operational_inv [simp]: "sender_inv (set_operational b s) = sender_inv s"
  by (simp add: sender_inv_def set_operational_def)

lemma Update_inv [inv_intros]: "sender_inv s \<Longrightarrow> sender_inv (fst (Update new s env))"
  by (auto simp: Update_stages case_prod_beta intro!: TriggerTransmission_inv NewNeighbour_inv)

lemma LldpSender_new_inv [inv_intros]: "sender_inv (fst (LldpSender_new dev env))"
  by (auto simp: LldpSender_new_def Let_def EnableSender_def DisableSender_def
      intro!: NewNeighbour_inv) (simp_all add: sender_inv_def)

subsection \<open>The sender as a state machine\<close>

datatype sender_event =
  Ticked u64 | Updated DeviceData | Neighbour_found | Locally_changed | Ended

fun sender_step :: "sender_event \<Rightarrow> LldpSender \<times> link_env \<Rightarrow> LldpSender \<times> link_env" where
  "sender_step (Ticked d) (s, env) = Sender_Tick d s env"
| "sender_step (Updated dev) (s, env) = Update dev s env"
| "sender_step Neighbour_found (s, env) = NewNeighbour s env"
| "sender_step Locally_changed (s, env) = LocalChangeDetected s env"
| "sender_step Ended (s, env) = EndTransmission s env"

definition sender_run :: "sender_event list \<Rightarrow> LldpSender \<times> link_env \<Rightarrow> LldpSender \<times> link_env" where
  "sender_run = fold sender_step"

lemma sender_step_inv [inv_intros]: "sender_inv (fst p) \<Longrightarrow> sender_inv (fst (sender_step ev p))"
  by (cases "(ev, p)" rule: sender_step.cases)
    (auto simp: LocalChangeDetected_def intro: Sender_Tick_inv Update_inv NewNeighbour_inv
      TriggerTransmission_inv EndTransmission_inv)

lemma sender_run_inv [inv_intros]: "sender_inv (fst p) \<Longrightarrow> sender_inv (fst (sender_run evs p))"
  unfolding sender_run_def
proof (induction evs arbitrary: p)
  case (Cons ev evs)
  then show ?case using sender_step_inv [of p ev] by simp
qed simp

subsection \<open>Credits pay for frames\<close>

text \<open>Frames handed to the socket plus credits in hand.\<close>

definition spent_and_held :: "LldpSender \<times> link_env \<Rightarrow> nat" where
  "spent_and_held p = length (send_log (snd p)) + unat (transmit_credits (fst p))"

lemma TryTransmit_spends: "spent_and_held (TryTransmit s env) \<le> spent_and_held (s, env)"
proof -
  let ?s = "s\<lparr>trigger_ready := False, transmit_credits := transmit_credits s - 1\<rparr>"
  have "0 < transmit_credits s \<Longrightarrow> 0 < unat (transmit_credits s)"
    by (simp add: word_less_nat_alt)
  then show ?thesis
    using SendLldp_log_le [of TARGET_TTL ?s env]
    by (auto simp: TryTransmit_def spent_and_held_def unat_dec)
qed

lemma TriggerTransmission_spends:
  "spent_and_held (TriggerTransmission s env) \<le> spent_and_held (s, env)"
  unfolding TriggerTransmission_def Let_def
  by (rule order_trans [OF TryTransmit_spends]) (simp add: spent_and_held_def)

lemma TimerExpired_spends: "spent_and_held (TimerExpired s env) \<le> spent_and_held (s, env)"
  unfolding TimerExpired_def
  by (rule order_trans [OF TriggerTransmission_spends]) (simp add: spent_and_held_def)

lemma NewNeighbour_spends: "spent_and_held (NewNeighbour s env) \<le> spent_and_held (s, env)"
  unfolding NewNeighbour_def
  by (rule order_trans [OF TimerExpired_spends]) (simp add: spent_and_held_def)

lemma spent_and_held_data [simp]:
  "spent_and_held (copy_changed new s, env) = spent_and_held (s, env)"
  "spent_and_held (set_operational b s, env) = spent_and_held (s, env)"
  "spent_and_held (s\<lparr>transmit_timer := t\<rparr>, env) = spent_and_held (s, env)"
  by (simp_all add: spent_and_held_def copy_changed_def set_operational_def)

lemma refill_spends: "spent_and_held (refill d s, env) \<le> spent_and_held (s, env) + unat d"
  using refill_bounds(2) [of "transmit_credits s" d] by (simp add: spent_and_held_def refill_def)

lemma Update_spends: "spent_and_held (Update new s env) \<le> spent_and_held (s, env)"
proof -
  have "spent_and_held (TriggerTransmission (set_operational b s') env') \<le> spent_and_held (s, env)"
    if "spent_and_held (s', env') \<le> spent_and_held (s, env)" for b s' env'
    using TriggerTransmission_spends [of "set_operational b s'" env'] that by simp
  then show ?thesis
    using NewNeighbour_spends [of "copy_changed new s" env]
      TriggerTransmission_spends [of "copy_changed new s" env]
    by (auto simp: Update_stages case_prod_beta)
qed

lemma Sender_Tick_spends: "spent_and_held (Sender_Tick d s env) \<le> spent_and_held (s, env) + unat d"
proof -
  let ?r = "\<lambda>t. (refill d s)\<lparr>transmit_timer := t\<rparr>"
  let ?x = "TimerExpired (?r 0) env"
  have "spent_and_held (TryTransmit (?r t) env) \<le> spent_and_held (s, env) + unat d" for t
    using TryTransmit_spends [of "?r t" env] refill_spends [of d s env] by simp
  moreover have "spent_and_held (TryTransmit (fst ?x) (snd ?x)) \<le> spent_and_held (s, env) + unat d"
    using TryTransmit_spends [of "fst ?x" "snd ?x"] TimerExpired_spends [of "?r 0" env]
      refill_spends [of d s env] by simp
  ultimately show ?thesis
    by (simp add: Sender_Tick_stages case_prod_beta)
qed

text \<open>The shutdown frame of \<open>EndTransmission\<close> is not paid for.\<close>

lemma EndTransmission_spends: "spent_and_held (EndTransmission s env) \<le> spent_and_held (s, env) + 1"
  using SendLldp_log_le [of 0 s env] by (simp add: EndTransmission_def spent_and_held_def)

fun elapsed :: "sender_event \<Rightarrow> nat" where
  "elapsed (Ticked d) = unat d"
| "elapsed _ = 0"

fun shutdowns :: "sender_event \<Rightarrow> nat" where
  "shutdowns Ended = 1"
| "shutdowns _ = 0"

lemma sender_step_spends:
  "spent_and_held (sender_step ev p) \<le> spent_and_held p + elapsed ev + shutdowns ev"
  using EndTransmission_spends [of "fst p" "snd p"]
  by (cases "(ev, p)" rule: sender_step.cases)
    (auto simp: LocalChangeDetected_def intro: Sender_Tick_spends Update_spends NewNeighbour_spends
      TriggerTransmission_spends)

lemma sender_run_spends:
  "spent_and_held (sender_run evs p)
    \<le> spent_and_held p + sum_list (map elapsed evs) + sum_list (map shutdowns evs)"
proof (induction evs arbitrary: p)
  case (Cons ev evs)
  show ?case
    using Cons [of "sender_step ev p"] sender_step_spends [of ev p] by (simp add: sender_run_def)
qed (simp add: sender_run_def)

lemma spent_and_held_new: "spent_and_held (LldpSender_new dev env) \<le> length (send_log env)"
  using NewNeighbour_spends [of "\<lparr>device_data = dev, transmit_timer = 0, transmit_credits = 0,
               fast_forward_counter = 0, trigger_ready = False\<rparr>" env]
  by (simp add: LldpSender_new_def Let_def EnableSender_def DisableSender_def) (simp add: spent_and_held_def)

subsection \<open>The log only grows\<close>

lemma SendLldp_log_ge: "length (send_log env) \<le> length (send_log (snd (SendLldp ttl s env)))"
  by (cases "sendable s") (auto simp: SendLldp_sendable SendLldp_unsendable)

lemma TryTransmit_log_ge: "length (send_log env) \<le> length (send_log (snd (TryTransmit s env)))"
  by (simp add: TryTransmit_def SendLldp_log_ge)

lemma TimerExpired_log_ge: "length (send_log env) \<le> length (send_log (snd (TimerExpired s env)))"
  by (simp add: TimerExpired_def TriggerTransmission_def TryTransmit_log_ge)

lemma Sender_Tick_log_ge: "length (send_log env) \<le> length (send_log (snd (Sender_Tick d s env)))"
  using order_trans [OF TimerExpired_log_ge TryTransmit_log_ge]
  by (auto simp: Sender_Tick_stages case_prod_beta TryTransmit_log_ge)

subsection \<open>An operational device is announced\<close>

text \<open>A sender that may transmit: what one-second ticks keep of it while the link stays up.\<close>

definition live :: "LldpSender \<times> link_env \<Rightarrow> bool" where
  "live p \<longleftrightarrow> sender_inv (fst p) \<and> device_operational (device_data (fst p)) \<and> sendable (fst p) \<and>
     never_down (snd p)"

lemma SendLldp_up: "never_down env \<Longrightarrow> fst (SendLldp ttl s env) = s"
  by (cases "sendable s") (auto simp: SendLldp_sendable SendLldp_unsendable never_down_def)

lemma TryTransmit_up:
  "never_down env \<Longrightarrow> device_data (fst (TryTransmit s env)) = device_data s"
  by (simp add: TryTransmit_def SendLldp_up)

lemma TimerExpired_up:
  "never_down env \<Longrightarrow> device_data (fst (TimerExpired s env)) = device_data s"
  by (simp add: TimerExpired_def TriggerTransmission_def TryTransmit_up)

lemma TimerExpired_never_down [simp]: "never_down (snd (TimerExpired s env)) = never_down env"
  by (rule world_never_down) simp

lemma Sender_Tick_up:
  "never_down env \<Longrightarrow> device_data (fst (Sender_Tick d s env)) = device_data s"
  by (simp add: Sender_Tick_stages case_prod_beta TryTransmit_up TimerExpired_up)

lemma live_Tick: "live p \<Longrightarrow> live (case_prod (Sender_Tick d) p)"
  using world_never_down [of "snd (Sender_Tick d (fst p) (snd p))" "snd p"]
    identity_sendable [of "fst (Sender_Tick d (fst p) (snd p))" "fst p"]
  by (simp add: live_def case_prod_beta Sender_Tick_inv Sender_Tick_up)

lemma TryTransmit_sends:
  "trigger_ready s \<Longrightarrow> 0 < transmit_credits s \<Longrightarrow> sendable s \<Longrightarrow>
   length (send_log (snd (TryTransmit s env))) = Suc (length (send_log env))"
proof -
  assume a: "trigger_ready s" "0 < transmit_credits s" "sendable s"
  let ?s = "s\<lparr>trigger_ready := False, transmit_credits := transmit_credits s - 1\<rparr>"
  have "sendable ?s" using a(3) by (simp add: sendable_def)
  with a show ?thesis
    by (auto simp: TryTransmit_def SendLldp_sendable sendable_def)
qed

lemma TimerExpired_sends:
  "0 < transmit_credits s \<Longrightarrow> sendable s \<Longrightarrow>
   length (send_log (snd (TimerExpired s env))) = Suc (length (send_log env))"
  by (auto simp: TimerExpired_def TriggerTransmission_def Let_def TryTransmit_sends sendable_def)

lemma refill_one_positive: "sender_inv s \<Longrightarrow> 0 < transmit_credits (refill 1 s)"
proof -
  let ?c = "transmit_credits s"
  assume "sender_inv s"
  then have c: "unat ?c \<le> 5" by (simp add: sender_inv_def MAX_TRANSMIT_CREDITS_def)
  have u: "unat (ucast ?c + 1 :: u64) = unat ?c + 1"
    using c by (simp add: unat_word_ariths unsigned_ucast_eq take_bit_nat_eq_self)
  have "unat (?c + 1) = unat ?c + 1"
    using c by (simp add: unat_word_ariths)
  then show ?thesis
    using u by (auto simp: refill_def word_less_nat_alt word_le_nat_alt MAX_TRANSMIT_CREDITS_def)
qed

text \<open>A one-second tick transmits or brings the timer one second closer to expiry.\<close>

lemma live_Tick_progress:
  assumes "live (s, env)"
  shows "length (send_log env) < length (send_log (snd (Sender_Tick 1 s env))) \<or>
    1 < unat (transmit_timer s) \<and>
    unat (transmit_timer (fst (Sender_Tick 1 s env))) = unat (transmit_timer s) - 1"
proof (cases "1 < transmit_timer s")
  case False
  then have expired: "\<not> (1 :: u64) < ucast (transmit_timer s)"
    by (simp add: word_less_nat_alt unsigned_ucast_eq take_bit_nat_eq_self less_u16_bound)
  let ?r = "(refill 1 s)\<lparr>transmit_timer := 0\<rparr>"
  have "sendable ?r" "0 < transmit_credits ?r"
    using assms refill_one_positive [of s] by (simp_all add: live_def sendable_def)
  then have "length (send_log (snd (TimerExpired ?r env))) = Suc (length (send_log env))"
    by (rule TimerExpired_sends [rotated])
  then have "length (send_log env) < length (send_log (snd (Sender_Tick 1 s env)))"
    using assms expired TryTransmit_log_ge [of "snd (TimerExpired ?r env)" "fst (TimerExpired ?r env)"]
    by (simp add: Sender_Tick_stages case_prod_beta live_def)
  then show ?thesis ..
next
  case True
  then have running: "(1 :: u64) < ucast (transmit_timer s)"
    by (simp add: word_less_nat_alt unsigned_ucast_eq take_bit_nat_eq_self less_u16_bound)
  have "transmit_timer (fst (TryTransmit s' env)) = transmit_timer s'" for s'
    by (simp add: TryTransmit_def)
  then have "transmit_timer (fst (Sender_Tick 1 s env)) = transmit_timer s - 1"
    using assms running by (simp add: Sender_Tick_stages live_def)
  then show ?thesis
    using True by (simp add: unat_dec word_less_nat_alt)
qed

lemma live_transmits_within:
  "live p \<Longrightarrow> 0 < n \<Longrightarrow> unat (transmit_timer (fst p)) \<le> n \<Longrightarrow>
   length (send_log (snd p)) < length (send_log (snd ((case_prod (Sender_Tick 1) ^^ n) p)))"
proof (induction n arbitrary: p)
  case (Suc n)
  let ?p = "case_prod (Sender_Tick 1) p"
  have grows: "length (send_log (snd p)) \<le> length (send_log (snd ((case_prod (Sender_Tick 1) ^^ k) p)))" for k p
    by (induction k) (auto simp: case_prod_beta intro: order_trans [OF _ Sender_Tick_log_ge])
  have step: "(case_prod (Sender_Tick 1) ^^ Suc n) p = (case_prod (Sender_Tick 1) ^^ n) ?p"
    by (simp add: funpow_swap1)
  consider "length (send_log (snd p)) < length (send_log (snd ?p))"
    | "1 < unat (transmit_timer (fst p))"
      "unat (transmit_timer (fst ?p)) = unat (transmit_timer (fst p)) - 1"
    using live_Tick_progress [of "fst p" "snd p"] Suc.prems(1) by (auto simp: case_prod_beta)
  then show ?case
  proof cases
    case 1
    then show ?thesis using grows [of ?p n] by (simp add: step del: funpow.simps)
  next
    case 2
    then have "length (send_log (snd ?p)) < length (send_log (snd ((case_prod (Sender_Tick 1) ^^ n) ?p)))"
      using Suc.prems by (intro Suc.IH live_Tick) auto
    moreover have "length (send_log (snd p)) \<le> length (send_log (snd ?p))"
      by (simp add: case_prod_beta Sender_Tick_log_ge)
    ultimately show ?thesis by (simp add: step del: funpow.simps)
  qed
qed simp

subsection \<open>What is transmitted\<close>

lemma length_resize [simp]: "length (resize n v) = n"
  by (simp add: resize_def)

lemma sendFrame_encodes:
  assumes "length (ether_header_bytes (header f)) = 14"
  shows "sendFrame f i env = (send_outcome env (length (send_log env)),
     env\<lparr>frame_buffer := encode_frame f,
         send_log := send_log env @ [\<lparr>tx_ifindex = i, tx_bytes = Inr (encode_frame f)\<rparr>]\<rparr>)"
  using assms by (simp add: sendFrame_def Frame_ToFrameBuffer_fits Let_def)

lemma constructFrame_header:
  assumes "device_wf dev" "constructFrame ttl dev env = (Some f, env')"
  shows "length (ether_header_bytes (header f)) = 14"
  using assms
  by (auto simp: constructFrame_def ether_header_bytes_def MULTICAST_ADDRESS_def device_wf_def
      ETH_ALEN_def split: option.splits prod.splits)

lemma constructFrame_log:
  "constructFrame ttl dev env = (fo, env') \<Longrightarrow> send_log env' = send_log env"
  by (auto simp: constructFrame_def dest: getMachineIdTlvValue_frame split: option.splits prod.splits)

lemma SendLldp_transmits:
  assumes "sendable s" "device_wf (device_data s)"
  shows "\<exists>f env'. constructFrame ttl (device_data s) env = (Some f, env') \<and>
     send_log (snd (SendLldp ttl s env)) =
       send_log env @ [\<lparr>tx_ifindex = if_index (device_data s), tx_bytes = Inr (encode_frame f)\<rparr>]"
proof -
  from assms(1) obtain mac where "mac_address (device_data s) = Some mac"
    by (auto simp: sendable_def)
  then obtain f env' where f: "constructFrame ttl (device_data s) env = (Some f, env')"
    by (cases "getMachineIdTlvValue env") (auto simp: constructFrame_def)
  note hdr = constructFrame_header [OF assms(2) f]
  show ?thesis
    using assms(1) f constructFrame_log [OF f]
    by (auto simp: SendLldp_def sendable_def sendFrame_encodes [OF hdr] DisableSender_def
        split: send_result.splits)
qed

lemma template_eq:
  "tlvValueManagementAddressTemplate n st =
     of_nat (1 + n) # st # replicate n 0 @ MANAGEMENT_TLV_IF_SUBTYPE_IFINDEX # [0, 0, 0, 0, 0]"
proof -
  have "1 + 1 + n + 1 + 4 + 1 = Suc (Suc (n + 6))" by simp
  then have zeros: "replicate (1 + 1 + n + 1 + 4 + 1) (0 :: byte) = 0 # 0 # (replicate n 0 @ replicate 6 0)"
    by (simp only: replicate_Suc replicate_add)
  have "(replicate n 0 @ replicate 6 0)[n := v] = replicate n 0 @ v # [0, 0, 0, 0, (0::byte)]" for v
    by (simp add: list_update_append numeral_eq_Suc)
  then show ?thesis
    unfolding tlvValueManagementAddressTemplate_def zeros by simp
qed

lemma management_address_value_eq:
  "length a = n \<Longrightarrow> management_address_value a n st i =
     of_nat (1 + n) # st # a @ MANAGEMENT_TLV_IF_SUBTYPE_IFINDEX # as_bytes32 (htonl i) @ [0]"
  by (simp add: management_address_value_def template_eq overwrite_def numeral_eq_Suc)

subsection \<open>What no operation touches\<close>

lemma TriggerTransmission_ff [simp]:
  "fast_forward_counter (fst (TriggerTransmission s env)) = fast_forward_counter s"
  by (simp add: TriggerTransmission_def TryTransmit_def Let_def)

lemma sender_ff [simp]:
  "fast_forward_counter (set_operational b s) = fast_forward_counter s"
  "fast_forward_counter (copy_changed new s) = fast_forward_counter s"
  by (simp_all add: set_operational_def copy_changed_def)

lemma NewNeighbour_ff:
  "fast_forward_counter s = 0 \<Longrightarrow> fast_forward_counter (fst (NewNeighbour s env)) = 3"
  by (simp add: NewNeighbour_def TimerExpired_def)

lemma identity_mac:
  "identity s' = identity s \<Longrightarrow>
   mac_address (device_data s') = mac_address (device_data s) \<and>
   if_index (device_data s') = if_index (device_data s)"
  using identity_parts [of s' s] by simp

lemma mac_of_copies [simp]:
  "mac_address (device_data (set_operational b s)) = mac_address (device_data s)"
  "mac_address (device_data (copy_changed new s)) = mac_address (device_data s)"
  "if_index (device_data (set_operational b s)) = if_index (device_data s)"
  "if_index (device_data (copy_changed new s)) = if_index (device_data s)"
  by (simp_all add: set_operational_def copy_changed_def)

lemma TryTransmit_silent: "mac_address (device_data s) = None \<Longrightarrow> TryTransmit s env = (s, env)"
  by (simp add: TryTransmit_def)

lemma TriggerTransmission_mac:
  "mac_address (device_data (fst (TriggerTransmission s env))) = mac_address (device_data s)"
  "if_index (device_data (fst (TriggerTransmission s env))) = if_index (device_data s)"
  "mac_address (device_data s) = None \<Longrightarrow> snd (TriggerTransmission s env) = env"
  using identity_mac [of "fst (TriggerTransmission s env)" s]
  by (simp_all add: TriggerTransmission_def TryTransmit_silent Let_def)

lemma TimerExpired_mac:
  "mac_address (device_data (fst (TimerExpired s env))) = mac_address (device_data s)"
  "if_index (device_data (fst (TimerExpired s env))) = if_index (device_data s)"
  "mac_address (device_data s) = None \<Longrightarrow> snd (TimerExpired s env) = env"
  by (simp_all add: TimerExpired_def TriggerTransmission_mac)

lemma NewNeighbour_mac:
  "mac_address (device_data (fst (NewNeighbour s env))) = mac_address (device_data s)"
  "if_index (device_data (fst (NewNeighbour s env))) = if_index (device_data s)"
  "mac_address (device_data s) = None \<Longrightarrow> snd (NewNeighbour s env) = env"
  by (simp_all add: NewNeighbour_def TimerExpired_mac)

lemma Sender_Tick_mac:
  "mac_address (device_data (fst (Sender_Tick d s env))) = mac_address (device_data s)"
  "if_index (device_data (fst (Sender_Tick d s env))) = if_index (device_data s)"
  "mac_address (device_data s) = None \<Longrightarrow> snd (Sender_Tick d s env) = env"
  using identity_mac [of "fst (Sender_Tick d s env)" s]
  by (auto simp: Sender_Tick_stages case_prod_beta TryTransmit_silent TimerExpired_mac)

lemma Update_mac:
  "mac_address (device_data (fst (Update new s env))) = mac_address (device_data s)"
  "if_index (device_data (fst (Update new s env))) = if_index (device_data s)"
  "mac_address (device_data s) = None \<Longrightarrow> snd (Update new s env) = env"
  by (simp_all add: Update_stages case_prod_beta TriggerTransmission_mac NewNeighbour_mac)

lemma EndTransmission_mac:
  "mac_address (device_data (fst (EndTransmission s env))) = mac_address (device_data s)"
  "if_index (device_data (fst (EndTransmission s env))) = if_index (device_data s)"
  "mac_address (device_data s) = None \<Longrightarrow> snd (EndTransmission s env) = env"
  using identity_mac [OF SendLldp_identity, of 0 s env] by (simp_all add: EndTransmission_def)

lemma sender_step_mac:
  "mac_address (device_data (fst (sender_step ev p))) = mac_address (device_data (fst p)) \<and>
   if_index (device_data (fst (sender_step ev p))) = if_index (device_data (fst p)) \<and>
   (mac_address (device_data (fst p)) = None \<longrightarrow> send_log (snd (sender_step ev p)) = send_log (snd p))"
  by (cases "(ev, p)" rule: sender_step.cases)
    (auto simp: LocalChangeDetected_def Sender_Tick_mac Update_mac NewNeighbour_mac TriggerTransmission_mac
      EndTransmission_mac)

lemma LldpSender_new_mac:
  "mac_address (device_data (fst (LldpSender_new dev env))) = mac_address dev"
  "if_index (device_data (fst (LldpSender_new dev env))) = if_index dev"
  "mac_address dev = None \<Longrightarrow> snd (LldpSender_new dev env) = env"
  by (simp_all add: LldpSender_new_def Let_def EnableSender_def DisableSender_def NewNeighbour_mac)

subsection \<open>Properties\<close>

text \<open>Over any run of ticks, updates, notifications and shutdowns from construction on, for ticks of any
  length, a sender never holds more than five transmit credits, never waits more than six seconds
  for its timer and never has more than four fast transmissions ahead of it.\<close>
theorem sender_counters_bounded:
  "let s = fst (sender_run evs (LldpSender_new dev env))
   in unat (transmit_credits s) \<le> 5 \<and> unat (transmit_timer s) \<le> 6 \<and> unat (fast_forward_counter s) \<le> 4"
  using sender_run_inv [OF LldpSender_new_inv, of evs dev env]
  by (simp add: sender_inv_def MAX_TRANSMIT_CREDITS_def word_le_nat_alt Let_def)

text \<open>C21: The rate limit: in any stretch of a sender's life, of ticks, updates, notifications and calls of
  \<open>EndTransmission\<close> in any order after its construction, the number of frames handed to the socket
  exceeds the seconds that elapsed in it by at most the five credits of the bucket and the number of
  those calls, whose shutdown frames no credit is spent on.\<close>
theorem transmissions_rate_limited:
  "length (send_log (snd (sender_run (before @ during) (LldpSender_new dev env)))) \<le>
     length (send_log (snd (sender_run before (LldpSender_new dev env))))
     + 5 + sum_list (map elapsed during) + sum_list (map shutdowns during)"
proof -
  let ?p = "sender_run before (LldpSender_new dev env)"
  have "unat (transmit_credits (fst ?p)) \<le> 5"
    using sender_run_inv [OF LldpSender_new_inv, of before dev env]
    by (simp add: sender_inv_def MAX_TRANSMIT_CREDITS_def)
  moreover have "sender_run (before @ during) (LldpSender_new dev env) = sender_run during ?p"
    by (simp add: sender_run_def)
  ultimately show ?thesis
    using sender_run_spends [of during ?p] by (simp add: spent_and_held_def)
qed

text \<open>An operational device whose MAC address is known and whose index is an \<open>int\<close> is announced:
  whatever state its sender is in, among any six consecutive one-second ticks at least one hands a
  frame to the socket, as long as no send reports that the link is down.\<close>
theorem operational_device_is_announced:
  assumes "sender_inv s" and "device_operational (device_data s)" and "sendable s" and "never_down env"
  shows "length (send_log env) < length (send_log (snd ((case_prod (Sender_Tick 1) ^^ 6) (s, env))))"
  using assms live_transmits_within [of "(s, env)" 6]
  by (simp add: live_def sender_inv_def word_le_nat_alt del: funpow.simps)

theorem operational_device_is_announced_witness:
  "\<exists>s env. transmit_timer s = 6 \<and> \<not> trigger_ready s \<and>
     length (send_log env) < length (send_log (snd ((case_prod (Sender_Tick 1) ^^ 6) (s, env))))"
proof -
  let ?s = "\<lparr>device_data = DeviceData_default\<lparr>mac_address := Some [2, 0, 0, 0, 0, 1],
      device_operational := True, if_index := 2\<rparr>, transmit_timer = 6, transmit_credits = 0,
      fast_forward_counter = 0, trigger_ready = False\<rparr>"
  let ?env = "\<lparr>machine_id_file = Some [97], machine_id = [], machine_id_vector = [], frame_buffer = [],
      dead_storage = (\<lambda>_. nth), send_outcome = \<lambda>_. Bytes_sent 60, send_log = []\<rparr>"
  have "length (send_log ?env) < length (send_log (snd ((case_prod (Sender_Tick 1) ^^ 6) (?s, ?env))))"
    by (rule operational_device_is_announced)
      (simp_all add: sender_inv_def MAX_TRANSMIT_CREDITS_def DeviceData_default_def sendable_def
        INT_MAX_def never_down_def)
  then show ?thesis by (intro exI [of _ ?s] exI [of _ ?env]) simp
qed

text \<open>The device's MAC address and index are fixed when its sender is constructed: no update, tick
  or notification ever changes them.  A sender constructed before the MAC address is known never
  transmits anything, whatever the updates say later.\<close>
theorem mac_address_never_updated:
  "let (s, env') = sender_run evs (LldpSender_new dev env)
   in mac_address (device_data s) = mac_address dev \<and> if_index (device_data s) = if_index dev \<and>
      (mac_address dev = None \<longrightarrow> send_log env' = send_log env)"
proof -
  have step: "mac_address (device_data (fst (sender_step ev p))) = mac_address (device_data (fst p)) \<and>
      if_index (device_data (fst (sender_step ev p))) = if_index (device_data (fst p)) \<and>
      (mac_address (device_data (fst p)) = None \<longrightarrow> send_log (snd (sender_step ev p)) = send_log (snd p))"
    for ev p by (rule sender_step_mac)
  have "mac_address (device_data (fst (sender_run evs p))) = mac_address (device_data (fst p)) \<and>
      if_index (device_data (fst (sender_run evs p))) = if_index (device_data (fst p)) \<and>
      (mac_address (device_data (fst p)) = None \<longrightarrow> send_log (snd (sender_run evs p)) = send_log (snd p))" for p
    using step by (induction evs arbitrary: p) (simp_all add: sender_run_def)
  from this [of "LldpSender_new dev env"] show ?thesis
    using LldpSender_new_mac [of dev env] by (simp add: case_prod_beta)
qed

theorem mac_address_never_updated_witness:
  "let (s, env') = sender_run [Updated (DeviceData_default\<lparr>mac_address := Some [1, 2, 3, 4, 5, 6]\<rparr>)]
      (LldpSender_new DeviceData_default \<lparr>machine_id_file = None, machine_id = [], machine_id_vector = [],
         frame_buffer = [], dead_storage = (\<lambda>_. nth), send_outcome = \<lambda>_. Bytes_sent 60, send_log = []\<rparr>)
   in mac_address (device_data s) = None \<and> send_log env' = []"
  using mac_address_never_updated [of "[Updated (DeviceData_default\<lparr>mac_address := Some [1, 2, 3, 4, 5, 6]\<rparr>)]"
      DeviceData_default "\<lparr>machine_id_file = None, machine_id = [], machine_id_vector = [],
         frame_buffer = [], dead_storage = (\<lambda>_. nth), send_outcome = \<lambda>_. Bytes_sent 60, send_log = []\<rparr>"]
  by (simp add: DeviceData_default_def case_prod_beta Let_def)

text \<open>C40: The branches of \<open>Update\<close> on the operational flag are exchanged: a device that comes up does
  not start the four fast transmissions (its fast-start counter stays as it is), while a device
  that goes down with the counter at rest does start them, leaving three to go.\<close>
theorem fast_start_on_link_down_only:
  assumes "device_operational new \<noteq> device_operational (device_data s)" and "fast_forward_counter s = 0"
  shows "fast_forward_counter (fst (Update new s env)) = (if device_operational new then 0 else 3)"
  using assms
  by (cases "device_operational new")
    (simp_all add: Update_stages case_prod_beta sender_ff NewNeighbour_ff)

theorem fast_start_on_link_down_only_witness:
  "fast_forward_counter (fst (Update (DeviceData_default\<lparr>device_operational := True\<rparr>)
     \<lparr>device_data = DeviceData_default, transmit_timer = 0, transmit_credits = 0,
      fast_forward_counter = 0, trigger_ready = False\<rparr>
     \<lparr>machine_id_file = None, machine_id = [], machine_id_vector = [], frame_buffer = [],
      dead_storage = (\<lambda>_. nth), send_outcome = \<lambda>_. Bytes_sent 60, send_log = []\<rparr>)) = 0"
  by (subst fast_start_on_link_down_only) (simp_all add: DeviceData_default_def)

text \<open>\<open>sendFrame\<close> hands \<open>sendto\<close> exactly the encoding of the frame, once: for a frame with six-byte
  hardware addresses the resized static buffer is filled to its last byte and never overrun,
  whatever it held before, so the warning about an incomplete write is never printed.\<close>
theorem sendFrame_fills_buffer_exactly:
  assumes "length (ether_dhost (header f)) = ETH_ALEN" and "length (ether_shost (header f)) = ETH_ALEN"
  shows "Frame_ToFrameBuffer f (resize (Frame_GetFrameBufferSize f) (frame_buffer env), 0) =
           Inr (encode_frame f, Frame_GetFrameBufferSize f) \<and>
         send_log (snd (sendFrame f i env)) =
           send_log env @ [\<lparr>tx_ifindex = i, tx_bytes = Inr (encode_frame f)\<rparr>]"
proof -
  have "length (ether_header_bytes (header f)) = 14"
    using assms by (simp add: ether_header_bytes_def ETH_ALEN_def)
  then show ?thesis by (simp add: Frame_ToFrameBuffer_fits sendFrame_encodes)
qed

theorem sendFrame_fills_buffer_exactly_witness:
  "\<exists>f. Frame_ToFrameBuffer f (resize (Frame_GetFrameBufferSize f) [1, 2, 3], 0) =
     Inr (encode_frame f, Frame_GetFrameBufferSize f)"
proof -
  let ?t = "\<lparr>tlv_type = 1, tlv_value = [7]\<rparr>"
  let ?f = "\<lparr>header = \<lparr>ether_dhost = [1, 2, 3, 4, 5, 6], ether_shost = [1, 2, 3, 4, 5, 6], ether_type = 0\<rparr>,
     data_unit = \<lparr>chassis_id = ?t, port_id = ?t, time_to_live = ?t, optional_tlv = []\<rparr>\<rparr>"
  let ?env = "\<lparr>machine_id_file = None, machine_id = [], machine_id_vector = [],
         frame_buffer = [1, 2, 3], dead_storage = (\<lambda>_. nth), send_outcome = \<lambda>_. Bytes_sent 60, send_log = []\<rparr>"
  have "Frame_ToFrameBuffer ?f (resize (Frame_GetFrameBufferSize ?f) (frame_buffer ?env), 0) =
     Inr (encode_frame ?f, Frame_GetFrameBufferSize ?f)"
    using sendFrame_fills_buffer_exactly [of ?f ?env] by (simp add: ETH_ALEN_def)
  then show ?thesis by (intro exI [of _ ?f]) simp
qed

end
