(* ===== verification/Netlink_Monitor.thy ===== *)
theory Netlink_Monitor
  imports Platform
begin

section \<open>Netlink messages and sockets\<close>

text \<open>
  \<open>netlink_monitor.cc\<close>: the parser of netlink packets, the loop that cuts a received batch into
  packets, and the two dump requests.  A packet is handed around as the memory from its first
  byte to the end of the receive buffer, because the parser uses only \<open>packet.data()\<close> and not the
  size of its span; reading past that memory is \<open>Inl Read_out_of_bounds\<close>.  The header macros
  (\<open>NLMSG_ALIGN\<close>, \<open>RTA_OK\<close> and their kin) are written out at the integer widths they have at
  each use.
\<close>

subsection \<open>Reading memory\<close>

definition slice_at :: "bytes \<Rightarrow> nat \<Rightarrow> nat \<Rightarrow> bytes cpp" where
  "slice_at mem pos n =
     (if pos + n \<le> length mem then Inr (take n (drop pos mem)) else Inl Read_out_of_bounds)"

definition le16 :: "bytes \<Rightarrow> nat \<Rightarrow> u16" where
  "le16 bs i = of_bytes16 (bs ! i) (bs ! (i + 1))"

definition le32 :: "bytes \<Rightarrow> nat \<Rightarrow> u32" where
  "le32 bs i = ucast (bs ! i) OR push_bit 8 (ucast (bs ! (i + 1)))
     OR push_bit 16 (ucast (bs ! (i + 2))) OR push_bit 24 (ucast (bs ! (i + 3)))"

subsection \<open>Structures\<close>

record nlmsghdr =
  nlmsg_len :: u32
  nlmsg_type :: u16
  nlmsg_flags :: u16
  nlmsg_seq :: u32
  nlmsg_pid :: u32

record ifinfomsg =
  ifi_family :: byte
  ifi_type :: u16
  ifi_index :: u32
  ifi_flags :: u32
  ifi_change :: u32

record ifaddrmsg =
  ifa_family :: byte
  ifa_prefixlen :: byte
  ifa_flags :: byte
  ifa_scope :: byte
  ifa_index :: u32

record nlmsgerr =
  nlerr_error :: u32
  nlerr_msg :: nlmsghdr

record TLVView =
  rta_len :: u16
  rta_type :: u16
  attr_value :: bytes

text \<open>
  The alternatives of \<open>NetlinkPacketView\<close>.  \<open>original_content\<close> of an error is kept as the size of
  its span: the span lies behind the end of a local variable of the parser, and nothing reads it.
\<close>

datatype NetlinkPacketView =
  MessageView nlmsghdr bytes
| LinkView nlmsghdr ifinfomsg "TLVView list"
| AddrView nlmsghdr ifaddrmsg "TLVView list"
| ErrorView nlmsghdr nlmsgerr "u32 option" "TLVView list"
| DoneView nlmsghdr u32

text \<open>\<open>std::visit\<close> of the header's sequence number.\<close>

fun view_seq :: "NetlinkPacketView \<Rightarrow> u32" where
  "view_seq (MessageView h _) = nlmsg_seq h"
| "view_seq (LinkView h _ _) = nlmsg_seq h"
| "view_seq (AddrView h _ _) = nlmsg_seq h"
| "view_seq (ErrorView h _ _ _) = nlmsg_seq h"
| "view_seq (DoneView h _) = nlmsg_seq h"

subsection \<open>Layout in memory\<close>

definition nlmsghdr_of :: "bytes \<Rightarrow> nlmsghdr" where
  "nlmsghdr_of b = \<lparr>nlmsg_len = le32 b 0, nlmsg_type = le16 b 4, nlmsg_flags = le16 b 6,
     nlmsg_seq = le32 b 8, nlmsg_pid = le32 b 12\<rparr>"

definition nlmsghdr_bytes :: "nlmsghdr \<Rightarrow> bytes" where
  "nlmsghdr_bytes h = as_bytes32 (nlmsg_len h) @ as_bytes16 (nlmsg_type h) @ as_bytes16 (nlmsg_flags h)
     @ as_bytes32 (nlmsg_seq h) @ as_bytes32 (nlmsg_pid h)"

definition ifinfomsg_of :: "bytes \<Rightarrow> ifinfomsg" where
  "ifinfomsg_of b = \<lparr>ifi_family = b ! 0, ifi_type = le16 b 2, ifi_index = le32 b 4,
     ifi_flags = le32 b 8, ifi_change = le32 b 12\<rparr>"

definition ifinfomsg_bytes :: "ifinfomsg \<Rightarrow> bytes" where
  "ifinfomsg_bytes i = [ifi_family i, 0] @ as_bytes16 (ifi_type i) @ as_bytes32 (ifi_index i)
     @ as_bytes32 (ifi_flags i) @ as_bytes32 (ifi_change i)"

definition ifaddrmsg_of :: "bytes \<Rightarrow> ifaddrmsg" where
  "ifaddrmsg_of b = \<lparr>ifa_family = b ! 0, ifa_prefixlen = b ! 1, ifa_flags = b ! 2,
     ifa_scope = b ! 3, ifa_index = le32 b 4\<rparr>"

definition ifaddrmsg_bytes :: "ifaddrmsg \<Rightarrow> bytes" where
  "ifaddrmsg_bytes i = [ifa_family i, ifa_prefixlen i, ifa_flags i, ifa_scope i] @ as_bytes32 (ifa_index i)"

definition nlmsgerr_of :: "bytes \<Rightarrow> nlmsgerr" where
  "nlmsgerr_of b = \<lparr>nlerr_error = le32 b 0, nlerr_msg = nlmsghdr_of (drop 4 b)\<rparr>"

subsection \<open>The header macros\<close>

text \<open>\<open>NLMSG_ALIGN\<close> and \<open>RTA_ALIGN\<close> of a 64-bit and of a 32-bit value; the mask is \<open>~3U\<close>.\<close>

definition align64 :: "u64 \<Rightarrow> u64" where
  "align64 x = (x + 4 - 1) AND 0xFFFFFFFC"

definition align32 :: "u32 \<Rightarrow> u32" where
  "align32 x = (x + 4 - 1) AND 0xFFFFFFFC"

definition NLMSG_HDRLEN :: nat where "NLMSG_HDRLEN = 16"

text \<open>\<open>NLMSG_PAYLOAD\<close> with a \<open>size_t\<close> length, and with the literal 0.\<close>

definition NLMSG_PAYLOAD64 :: "nlmsghdr \<Rightarrow> u64 \<Rightarrow> u64" where
  "NLMSG_PAYLOAD64 h len = ucast (nlmsg_len h) - align64 (len + of_nat NLMSG_HDRLEN)"

definition NLMSG_PAYLOAD0 :: "nlmsghdr \<Rightarrow> u32" where
  "NLMSG_PAYLOAD0 h = nlmsg_len h - align32 (of_nat NLMSG_HDRLEN)"

lemma align32_push: "align32 x = push_bit 2 (drop_bit 2 (x + 3))"
proof -
  have "(0xFFFFFFFC :: u32) = NOT (mask 2)" by (simp add: mask_eq_decr_exp)
  moreover have "y AND NOT (mask 2) = push_bit 2 (drop_bit 2 y)" for y :: u32
    by (rule bit_word_eqI) (force simp: bit_simps not_less le_iff_add)
  ultimately show ?thesis by (simp add: align32_def add.commute)
qed

lemma unat_align32:
  assumes "unat (x :: u32) + 3 < 2 ^ 32"
  shows "unat (align32 x) = 4 * ((unat x + 3) div 4)"
proof -
  have sum: "unat (x + 3) = unat x + 3"
    using assms by (simp add: unat_word_ariths)
  have "unat (push_bit 2 (drop_bit 2 y) :: u32) = (4 * (unat y div 4)) mod 2 ^ 32" for y :: u32
    unfolding unsigned_push_bit_eq unat_drop_bit_eq
    by (simp add: drop_bit_eq_div push_bit_eq_mult take_bit_eq_mod mult.commute)
  moreover have "4 * (unat y div 4) < 2 ^ 32" for y :: u32
  proof -
    have "4 * (unat y div 4) \<le> unat y" by simp
    also have "\<dots> < 2 ^ 32" using unsigned_less [of y, where 'a = nat] by simp
    finally show ?thesis .
  qed
  ultimately show ?thesis
    unfolding align32_push by (metis mod_less sum)
qed

lemma align32_u16:
  "unat (align32 (ucast (len :: u16))) = 4 * ((unat len + 3) div 4)"
proof -
  have "unat len < 65536" using unsigned_less [of len, where 'a = nat] by simp
  moreover from this have "unat (ucast len :: u32) = unat len"
    by (simp add: unsigned_ucast_eq take_bit_nat_eq_self)
  ultimately show ?thesis by (simp add: unat_align32)
qed

subsection \<open>Attributes\<close>

lemma slice_at_Inr: "slice_at mem pos n = Inr bs \<Longrightarrow> pos + n \<le> length mem \<and> bs = take n (drop pos mem)"
  by (auto simp: slice_at_def split: if_splits)

text \<open>
  The \<open>for\<close> loop of \<open>parseTlvs\<close>: \<open>remaining_bytes\<close> is a \<open>size_t\<close>, from which \<open>RTA_NEXT\<close> subtracts the
  padded length of the attribute.
\<close>

function rta_loop :: "bytes \<Rightarrow> nat \<Rightarrow> u64 \<Rightarrow> TLVView list cpp" where
  "rta_loop mem pos remaining_bytes =
     (if remaining_bytes < 4 then Inr []
      else case slice_at mem pos 2 of Inl ub \<Rightarrow> Inl ub
      | Inr len_bytes \<Rightarrow>
        let len = le16 len_bytes 0 in
        if len < 4 \<or> remaining_bytes < ucast len then Inr []
        else case slice_at mem pos (unat len) of Inl ub \<Rightarrow> Inl ub
        | Inr attr \<Rightarrow>
          let step = align32 (ucast len);
              tlv = \<lparr>rta_len = len, rta_type = le16 attr 2, attr_value = drop 4 attr\<rparr>
          in bind_cpp (rta_loop mem (pos + unat step) (remaining_bytes - ucast step))
               (\<lambda>attributes. Inr (tlv # attributes)))"
  by pat_completeness auto

termination rta_loop
proof (relation "measure (\<lambda>(mem, pos, _). length mem - pos)", goal_cases)
  case (2 mem pos remaining_bytes len_bytes len attr step tlv)
  then have "4 \<le> unat len" by (simp add: word_less_nat_alt not_less)
  moreover from this have "unat len \<le> unat (align32 (ucast len))"
    by (simp add: align32_u16)
  moreover have "pos + unat len \<le> length mem"
    using 2 slice_at_Inr by blast
  ultimately show ?case using 2 by simp
qed simp

declare rta_loop.simps [simp del]

definition parseTlvs :: "bytes \<Rightarrow> nlmsghdr \<Rightarrow> u64 \<Rightarrow> TLVView list cpp" where
  "parseTlvs mem header message_payload_size =
     rta_loop mem (unat (align64 (message_payload_size + of_nat NLMSG_HDRLEN)))
       (NLMSG_PAYLOAD64 header message_payload_size)"

subsection \<open>Packets\<close>

text \<open>\<open>std::memcpy\<close> of a structure from \<open>NLMSG_DATA(packet.data())\<close>.\<close>

definition nlmsg_data :: "bytes \<Rightarrow> nat \<Rightarrow> bytes cpp" where
  "nlmsg_data mem n = slice_at mem NLMSG_HDRLEN n"

definition parseLinkViewPacket :: "nlmsghdr \<Rightarrow> bytes \<Rightarrow> NetlinkPacketView cpp" where
  "parseLinkViewPacket header mem =
     bind_cpp (nlmsg_data mem 16) (\<lambda>interface_data.
     bind_cpp (parseTlvs mem header 16) (\<lambda>attributes.
       Inr (LinkView header (ifinfomsg_of interface_data) attributes)))"

definition parseAddrViewPacket :: "nlmsghdr \<Rightarrow> bytes \<Rightarrow> NetlinkPacketView cpp" where
  "parseAddrViewPacket header mem =
     bind_cpp (nlmsg_data mem 8) (\<lambda>address_info.
     bind_cpp (parseTlvs mem header 8) (\<lambda>attributes.
       Inr (AddrView header (ifaddrmsg_of address_info) attributes)))"

definition parseErrorViewPacket :: "nlmsghdr \<Rightarrow> bytes \<Rightarrow> NetlinkPacketView cpp" where
  "parseErrorViewPacket header mem =
     bind_cpp (nlmsg_data mem 20) (\<lambda>bytes.
       let error_payload = nlmsgerr_of bytes;
           (original_message, payload_size) =
             (if nlmsg_flags header AND NLM_F_CAPPED = 0
              then let original_message_payload_size = NLMSG_PAYLOAD0 (nlerr_msg error_payload)
                   in (Some original_message_payload_size,
                       align64 20 + ucast original_message_payload_size)
              else (None, 20))
       in bind_cpp (parseTlvs mem header payload_size) (\<lambda>attributes.
            Inr (ErrorView header error_payload original_message attributes)))"

definition packetViewParser :: "bytes \<Rightarrow> NetlinkPacketView cpp" where
  "packetViewParser mem =
     bind_cpp (slice_at mem 0 16) (\<lambda>header_bytes.
       let header = nlmsghdr_of header_bytes in
       if nlmsg_type header = RTM_GETLINK \<or> nlmsg_type header = RTM_NEWLINK \<or>
          nlmsg_type header = RTM_DELLINK
       then parseLinkViewPacket header mem
       else if nlmsg_type header = RTM_GETADDR \<or> nlmsg_type header = RTM_NEWADDR \<or>
          nlmsg_type header = RTM_DELADDR
       then parseAddrViewPacket header mem
       else if nlmsg_type header = NLMSG_DONE
       then bind_cpp (nlmsg_data mem 4) (\<lambda>error. Inr (DoneView header (le32 error 0)))
       else if nlmsg_type header = NLMSG_ERROR
       then parseErrorViewPacket header mem
       else bind_cpp (nlmsg_data mem (unat (NLMSG_PAYLOAD0 header))) (\<lambda>payload.
              Inr (MessageView header payload)))"

subsection \<open>Batches\<close>

text \<open>
  \<open>extractMessageFromBuffer\<close>: the first packet of what remains and what remains after it, if
  \<open>NLMSG_OK\<close> finds one.  \<open>subspan(0, n)\<close> and \<open>subspan(n)\<close> require that \<open>n\<close> is at most the size.
\<close>

definition extractMessageFromBuffer :: "bytes \<Rightarrow> bytes option cpp" where
  "extractMessageFromBuffer remaining_data =
     (if length remaining_data < 16 then Inr None
      else let len = le32 remaining_data 0 in
        if unat len < 16 \<or> length remaining_data < unat len then Inr None
        else let next_message_size = unat (align32 len) in
          if next_message_size \<le> length remaining_data
          then Inr (Some (drop next_message_size remaining_data))
          else Inl Read_out_of_bounds)"

text \<open>
  The loop of \<open>NetlinkSocket::Call\<close>: every packet is parsed and handed to the callback before the
  next one is cut off.  The last branch is reached only by a length within three bytes of \<open>2 ^ 32\<close>,
  which aligns to 0: a batch of four gigabytes, where the loop of the code would not advance.
\<close>

function read_batch :: "bytes \<Rightarrow> NetlinkPacketView list cpp" where
  "read_batch remaining_data =
     (case extractMessageFromBuffer remaining_data of
        Inl ub \<Rightarrow> Inl ub
      | Inr None \<Rightarrow> Inr []
      | Inr (Some rest) \<Rightarrow>
          if length rest < length remaining_data
          then bind_cpp (packetViewParser remaining_data) (\<lambda>view.
               bind_cpp (read_batch rest) (\<lambda>views. Inr (view # views)))
          else Inl Read_out_of_bounds)"
  by pat_completeness auto
termination
  by (relation "measure length") auto

declare read_batch.simps [simp del]

subsection \<open>The socket\<close>

text \<open>\<open>sequence_number_\<close> is an \<open>int\<close>, here with its bits as they go into a request; that it would
  overflow after \<open>2 ^ 31\<close> requests, undefined in C++, is left out.\<close>

record NetlinkSocket =
  socket_fd :: int
  sequence_number :: u32
  callback_set :: bool

text \<open>
  \<open>recvNetlinkMessageBatch\<close>: \<open>peek\<close> is the datagram \<open>MSG_PEEK | MSG_TRUNC\<close> finds, \<open>recv\<close> the sender's
  netlink port and the datagram the second \<open>recvmsg\<close> takes; \<open>None\<close> is a return of -1.
\<close>

definition recvNetlinkMessageBatch ::
  "int \<Rightarrow> bytes \<Rightarrow> bytes option \<Rightarrow> (u32 \<times> bytes) option \<Rightarrow> bytes" where
  "recvNetlinkMessageBatch fd data_buffer peek recv =
     (if fd < 0 then []
      else case peek of None \<Rightarrow> []
      | Some peeked \<Rightarrow>
        let peek_data_length = length peeked in
        if peek_data_length = 0 then []
        else
          let data_buffer = (if length data_buffer < peek_data_length
                then data_buffer @ replicate (peek_data_length - length data_buffer) 0 else data_buffer)
          in case recv of None \<Rightarrow> []
          | Some (nl_pid, datagram) \<Rightarrow>
              let data_length = min (length datagram) peek_data_length in
              if data_length \<noteq> peek_data_length then []
              else if nl_pid \<noteq> 0 then []
              else take data_length (overwrite data_buffer 0 (take data_length datagram)))"

text \<open>The packets \<open>NetlinkSocket::Call\<close> hands to its callback, in order.\<close>

definition NetlinkSocket_Call ::
  "NetlinkSocket \<Rightarrow> bytes option \<Rightarrow> (u32 \<times> bytes) option \<Rightarrow> NetlinkPacketView list cpp" where
  "NetlinkSocket_Call sock peek recv =
     (if \<not> callback_set sock then Inr []
      else read_batch (recvNetlinkMessageBatch (socket_fd sock) [] peek recv))"

text \<open>
  What the requests meet outside: the process id, the value \<open>send\<close> returns for the \<open>n\<close>-th request,
  and the requests sent so far with their sockets.
\<close>

record nl_env =
  own_pid :: u32
  nl_send_outcome :: "nat \<Rightarrow> int"
  nl_requests :: "(int \<times> bytes) list"

definition link_dump_request :: "u32 \<Rightarrow> u32 \<Rightarrow> bytes" where
  "link_dump_request pid seq =
     nlmsghdr_bytes \<lparr>nlmsg_len = 32, nlmsg_type = RTM_GETLINK,
        nlmsg_flags = NLM_F_ACK OR NLM_F_DUMP OR NLM_F_REQUEST, nlmsg_seq = seq, nlmsg_pid = pid\<rparr>
     @ ifinfomsg_bytes \<lparr>ifi_family = AF_UNSPEC, ifi_type = 0, ifi_index = 0, ifi_flags = 0, ifi_change = 0\<rparr>"

definition addr_dump_request :: "u32 \<Rightarrow> u32 \<Rightarrow> bytes" where
  "addr_dump_request pid seq =
     nlmsghdr_bytes \<lparr>nlmsg_len = 24, nlmsg_type = RTM_GETADDR,
        nlmsg_flags = NLM_F_ACK OR NLM_F_REQUEST OR NLM_F_DUMP, nlmsg_seq = seq, nlmsg_pid = pid\<rparr>
     @ ifaddrmsg_bytes \<lparr>ifa_family = AF_UNSPEC, ifa_prefixlen = 0, ifa_flags = 0, ifa_scope = 0, ifa_index = 0\<rparr>"

text \<open>\<open>std::expected<int, int>\<close>: -2 without a socket, -3 for a short send, else the sequence number.\<close>

definition SendGetLinkDumpMessage ::
  "NetlinkSocket \<Rightarrow> nl_env \<Rightarrow> (int + u32) \<times> NetlinkSocket \<times> nl_env" where
  "SendGetLinkDumpMessage sock env =
     (if socket_fd sock < 0 then (Inl (- 2), sock, env)
      else
        let seq = sequence_number sock + 1;
            sock = sock\<lparr>sequence_number := seq\<rparr>;
            buffer = link_dump_request (own_pid env) seq;
            bytes_sent = nl_send_outcome env (length (nl_requests env));
            env = env\<lparr>nl_requests := nl_requests env @ [(socket_fd sock, buffer)]\<rparr>
        in if bytes_sent < int (length buffer) then (Inl (- 3), sock, env) else (Inr seq, sock, env))"

definition SendGetAddrMessage ::
  "NetlinkSocket \<Rightarrow> nl_env \<Rightarrow> (int + u32) \<times> NetlinkSocket \<times> nl_env" where
  "SendGetAddrMessage sock env =
     (if socket_fd sock < 0 then (Inl (- 2), sock, env)
      else
        let seq = sequence_number sock + 1;
            sock = sock\<lparr>sequence_number := seq\<rparr>;
            buffer = addr_dump_request (own_pid env) seq;
            bytes_sent = nl_send_outcome env (length (nl_requests env));
            env = env\<lparr>nl_requests := nl_requests env @ [(socket_fd sock, buffer)]\<rparr>
        in if bytes_sent < int (length buffer) then (Inl (- 3), sock, env) else (Inr seq, sock, env))"

subsection \<open>Structures survive memory\<close>

lemma le16_bytes [simp]: "of_bytes16 (ucast w) (ucast (drop_bit 8 w)) = w"
  by (rule bit_word_eqI) (auto simp: of_bytes16_def bit_simps)

lemma le32_bytes [simp]:
  "ucast (ucast w :: byte) OR push_bit 8 (ucast (ucast (drop_bit 8 w) :: byte))
     OR push_bit 16 (ucast (ucast (drop_bit 16 w) :: byte))
     OR push_bit 24 (ucast (ucast (drop_bit 24 w) :: byte)) = (w :: u32)"
proof (rule bit_word_eqI, goal_cases)
  case (1 n)
  consider "n < 8" | k where "n = 8 + k" "k < 8" | k where "n = 16 + k" "k < 8" | k where "n = 24 + k" "k < 8"
  proof -
    have "n < 8 \<or> (\<exists>k<8. n = 8 + k) \<or> (\<exists>k<8. n = 16 + k) \<or> (\<exists>k<8. n = 24 + k)"
      using 1 by simp presburger
    with that show thesis by blast
  qed
  then show ?case by cases (auto simp: bit_simps)
qed

lemma nlmsghdr_of_bytes [simp]: "nlmsghdr_of (nlmsghdr_bytes h @ rest) = h"
  by (simp add: nlmsghdr_of_def nlmsghdr_bytes_def le16_def le32_def as_bytes16_def as_bytes32_def
      del: push_bit_of_0 drop_bit_of_0)

lemma ifinfomsg_of_bytes [simp]: "ifinfomsg_of (ifinfomsg_bytes i @ rest) = i"
  by (simp add: ifinfomsg_of_def ifinfomsg_bytes_def le16_def le32_def as_bytes16_def as_bytes32_def)

lemma ifaddrmsg_of_bytes [simp]: "ifaddrmsg_of (ifaddrmsg_bytes i @ rest) = i"
  by (simp add: ifaddrmsg_of_def ifaddrmsg_bytes_def le16_def le32_def as_bytes16_def as_bytes32_def)

lemma length_structures [simp]:
  "length (nlmsghdr_bytes h) = 16" "length (ifinfomsg_bytes i) = 16" "length (ifaddrmsg_bytes a) = 8"
  by (simp_all add: nlmsghdr_bytes_def ifinfomsg_bytes_def ifaddrmsg_bytes_def)

lemma slice_at_append:
  "pos = length pre \<Longrightarrow> n = length bs \<Longrightarrow> slice_at (pre @ bs @ post) pos n = Inr bs"
  by (simp add: slice_at_def)

text \<open>An attribute as the kernel lays it out: padded to a multiple of four bytes.\<close>

definition attr_wf :: "TLVView \<Rightarrow> bool" where
  "attr_wf a \<longleftrightarrow> unat (rta_len a) = 4 + length (attr_value a)"

definition attr_bytes :: "TLVView \<Rightarrow> bytes" where
  "attr_bytes a = as_bytes16 (rta_len a) @ as_bytes16 (rta_type a) @ attr_value a
     @ replicate (4 * ((length (attr_value a) + 3) div 4) - length (attr_value a)) 0"

lemma length_attr_bytes: "length (attr_bytes a) = 4 + 4 * ((length (attr_value a) + 3) div 4)"
proof -
  have "length (attr_value a) \<le> 4 * ((length (attr_value a) + 3) div 4)" by presburger
  then show ?thesis by (simp add: attr_bytes_def)
qed

lemma attr_step: "attr_wf a \<Longrightarrow> unat (align32 (ucast (rta_len a))) = length (attr_bytes a)"
  by (simp add: align32_u16 attr_wf_def length_attr_bytes, presburger)

lemma ucast_of_nat_unat: "unat (w :: u32) = n \<Longrightarrow> (ucast w :: u64) = of_nat n"
  by (auto simp: word_unat_eq_iff unsigned_ucast_eq unsigned_of_nat)

text \<open>The loop over a well-formed sequence of attributes.\<close>

lemma rta_loop_attrs:
  assumes "list_all attr_wf attrs"
    and "length (concat (map attr_bytes attrs)) < 2 ^ 64"
  shows "rta_loop (pre @ concat (map attr_bytes attrs) @ post) (length pre)
     (of_nat (length (concat (map attr_bytes attrs)))) = Inr attrs"
  using assms
proof (induction attrs arbitrary: pre)
  case Nil
  then show ?case by (subst rta_loop.simps) simp
next
  case (Cons a attrs)
  let ?tail = "concat (map attr_bytes attrs)"
  let ?total = "length (attr_bytes a) + length ?tail"
  let ?mem = "pre @ concat (map attr_bytes (a # attrs)) @ post"
  let ?len = "4 + length (attr_value a)"
  have wf: "unat (rta_len a) = ?len" and total: "?total < 2 ^ 64"
    using Cons.prems by (simp_all add: attr_wf_def)
  have len_le: "?len \<le> length (attr_bytes a)" by (simp add: attr_bytes_def)
  have rem: "unat (of_nat ?total :: u64) = ?total" using total by (simp add: unat_of_nat del: of_nat_add)
  have ucast_len: "unat (ucast (rta_len a) :: u64) = ?len"
    using wf less_u16_bound(2) [of "rta_len a"]
    by (simp add: unsigned_ucast_eq take_bit_nat_eq_self)
  have more: "\<not> (of_nat ?total :: u64) < 4"
    using rem len_le by (simp add: word_less_nat_alt del: of_nat_add)
  have fits: "\<not> (rta_len a < 4 \<or> (of_nat ?total :: u64) < ucast (rta_len a))"
    using wf ucast_len rem len_le by (simp add: word_less_nat_alt del: of_nat_add)
  define attr where "attr = as_bytes16 (rta_len a) @ as_bytes16 (rta_type a) @ attr_value a"
  define pad where "pad = replicate (4 * ((length (attr_value a) + 3) div 4) - length (attr_value a)) (0 :: byte)"
  have bytes: "attr_bytes a = attr @ pad" by (simp add: attr_bytes_def attr_def pad_def)
  have mem2: "?mem = pre @ as_bytes16 (rta_len a) @ (as_bytes16 (rta_type a) @ attr_value a @ pad @ ?tail @ post)"
    by (simp add: bytes attr_def)
  have s2: "slice_at ?mem (length pre) 2 = Inr (as_bytes16 (rta_len a))"
    unfolding mem2 by (rule slice_at_append) simp_all
  have mem3: "?mem = pre @ attr @ (pad @ ?tail @ post)" by (simp add: bytes)
  have slen: "slice_at ?mem (length pre) (unat (rta_len a)) = Inr attr"
    unfolding mem3 by (rule slice_at_append) (simp_all add: wf attr_def)
  have step: "unat (align32 (ucast (rta_len a))) = length (attr_bytes a)"
    using Cons.prems by (simp add: attr_step)
  have "ucast (align32 (ucast (rta_len a))) = (of_nat (length (attr_bytes a)) :: u64)"
    using step by (simp add: ucast_of_nat_unat)
  then have rest: "(of_nat ?total :: u64) - ucast (align32 (ucast (rta_len a))) = of_nat (length ?tail)"
    by simp
  have IH: "rta_loop ?mem (length pre + length (attr_bytes a)) (of_nat (length ?tail)) = Inr attrs"
    using Cons.IH [of "pre @ attr_bytes a"] Cons.prems by simp
  have le: "le16 (as_bytes16 (rta_len a)) 0 = rta_len a" "le16 attr 2 = rta_type a" "drop 4 attr = attr_value a"
    by (simp_all add: le16_def as_bytes16_def attr_def)
  have "rta_loop ?mem (length pre) (of_nat ?total) = Inr (a # attrs)"
    unfolding rta_loop.simps [of ?mem "length pre" "of_nat ?total"]
    by (simp only: more fits s2 slen le step rest IH Let_def sum.case if_False bind_cpp.simps TLVView.surjective)
      simp
  then show ?case by simp
qed

subsection \<open>Messages as the kernel lays them out\<close>

definition link_types :: "u16 set" where "link_types = {RTM_GETLINK, RTM_NEWLINK, RTM_DELLINK}"
definition addr_types :: "u16 set" where "addr_types = {RTM_GETADDR, RTM_NEWADDR, RTM_DELADDR}"

text \<open>The bytes of a packet and the length its header must announce.\<close>

fun view_bytes :: "NetlinkPacketView \<Rightarrow> bytes" where
  "view_bytes (LinkView h i attrs) = nlmsghdr_bytes h @ ifinfomsg_bytes i @ concat (map attr_bytes attrs)"
| "view_bytes (AddrView h i attrs) = nlmsghdr_bytes h @ ifaddrmsg_bytes i @ concat (map attr_bytes attrs)"
| "view_bytes (DoneView h e) = nlmsghdr_bytes h @ as_bytes32 e"
| "view_bytes _ = []"

fun view_header :: "NetlinkPacketView \<Rightarrow> nlmsghdr" where
  "view_header (MessageView h _) = h"
| "view_header (LinkView h _ _) = h"
| "view_header (AddrView h _ _) = h"
| "view_header (ErrorView h _ _ _) = h"
| "view_header (DoneView h _) = h"

fun view_wf :: "NetlinkPacketView \<Rightarrow> bool" where
  "view_wf (LinkView h i attrs) \<longleftrightarrow> nlmsg_type h \<in> link_types \<and> list_all attr_wf attrs \<and>
     unat (nlmsg_len h) = length (view_bytes (LinkView h i attrs))"
| "view_wf (AddrView h i attrs) \<longleftrightarrow> nlmsg_type h \<in> addr_types \<and> list_all attr_wf attrs \<and>
     unat (nlmsg_len h) = length (view_bytes (AddrView h i attrs))"
| "view_wf (DoneView h e) \<longleftrightarrow> nlmsg_type h = NLMSG_DONE \<and> unat (nlmsg_len h) = 20"
| "view_wf _ \<longleftrightarrow> False"

lemma concat_attr_bytes_mod4: "length (concat (map attr_bytes attrs)) mod 4 = 0"
  by (induction attrs) (auto simp: length_attr_bytes mod_simps)

lemma length_view_bytes_mod4: "length (view_bytes v) mod 4 = 0"
  using concat_attr_bytes_mod4 [of "case v of LinkView _ _ a \<Rightarrow> a | AddrView _ _ a \<Rightarrow> a | _ \<Rightarrow> []"]
  by (cases v) (simp_all, presburger+)

lemma parseTlvs_attrs:
  assumes "list_all attr_wf attrs" and "length pre = 16 + n" and "n = 8 \<or> n = 16"
    and "unat (nlmsg_len h) = 16 + n + length (concat (map attr_bytes attrs))"
  shows "parseTlvs (pre @ concat (map attr_bytes attrs) @ post) h (of_nat n) = Inr attrs"
proof -
  let ?t = "length (concat (map attr_bytes attrs))"
  have bound: "16 + n + ?t < 2 ^ 32"
    using assms(4) unsigned_less [of "nlmsg_len h", where 'a = nat] by simp
  have off: "align64 (of_nat n + of_nat NLMSG_HDRLEN) = of_nat (16 + n)"
    using assms(3) by (auto simp: align64_def NLMSG_HDRLEN_def)
  have u: "unat (of_nat (16 + n) :: u64) = 16 + n" using assms(3) by auto
  have "ucast (nlmsg_len h) = (of_nat (16 + n + ?t) :: u64)"
    using assms(4) by (simp add: ucast_of_nat_unat)
  then have rem: "NLMSG_PAYLOAD64 h (of_nat n) = of_nat ?t"
    unfolding NLMSG_PAYLOAD64_def off by simp
  show ?thesis
    using rta_loop_attrs [OF assms(1), of pre post] bound assms(2)
    unfolding parseTlvs_def off u rem by simp
qed

lemma structure_parsed:
  "slice_at (nlmsghdr_bytes h @ rest) 0 16 = Inr (nlmsghdr_bytes h)"
  "nlmsg_data (nlmsghdr_bytes h @ ifinfomsg_bytes i @ rest) 16 = Inr (ifinfomsg_bytes i)"
  "nlmsg_data (nlmsghdr_bytes h @ ifaddrmsg_bytes a @ rest) 8 = Inr (ifaddrmsg_bytes a)"
  "nlmsg_data (nlmsghdr_bytes h @ as_bytes32 e @ rest) 4 = Inr (as_bytes32 e)"
  "nlmsghdr_of (nlmsghdr_bytes h) = h" "ifinfomsg_of (ifinfomsg_bytes i) = i"
  "ifaddrmsg_of (ifaddrmsg_bytes a) = a" "le32 (as_bytes32 e) 0 = e"
  using nlmsghdr_of_bytes [of h "[]"] ifinfomsg_of_bytes [of i "[]"] ifaddrmsg_of_bytes [of a "[]"]
  by (simp_all add: slice_at_def nlmsg_data_def NLMSG_HDRLEN_def le32_def as_bytes32_def)

lemma structure_le32 [simp]: "le32 (nlmsghdr_bytes h @ rest) 0 = nlmsg_len h"
  by (simp add: nlmsghdr_bytes_def le32_def as_bytes32_def)

lemma packetViewParser_view:
  assumes "view_wf v"
  shows "packetViewParser (view_bytes v @ post) = Inr v"
proof (cases v)
  case (LinkView h i attrs)
  have "parseTlvs (view_bytes v @ post) h 16 = Inr attrs"
    using parseTlvs_attrs [of attrs "nlmsghdr_bytes h @ ifinfomsg_bytes i" 16 h post] assms
    by (simp add: LinkView)
  then show ?thesis
    using assms
    by (auto simp: LinkView packetViewParser_def structure_parsed parseLinkViewPacket_def link_types_def)
next
  case (AddrView h i attrs)
  have "parseTlvs (view_bytes v @ post) h 8 = Inr attrs"
    using parseTlvs_attrs [of attrs "nlmsghdr_bytes h @ ifaddrmsg_bytes i" 8 h post] assms
    by (simp add: AddrView)
  then show ?thesis
    using assms
    by (auto simp: AddrView packetViewParser_def structure_parsed parseAddrViewPacket_def addr_types_def
        platform_defs)
next
  case (DoneView h e)
  then show ?thesis
    using assms by (simp add: packetViewParser_def structure_parsed platform_defs)
qed (use assms in simp_all)

lemma view_wf_length:
  assumes "view_wf v"
  shows "16 \<le> length (view_bytes v)" "le32 (view_bytes v @ post) 0 = nlmsg_len (view_header v)"
    "unat (nlmsg_len (view_header v)) = length (view_bytes v)"
  using assms
  by (cases v; simp add: nlmsghdr_bytes_def le32_def as_bytes32_def)+

lemma extract_view:
  assumes "view_wf v" "length (view_bytes v) + 3 < 2 ^ 32"
  shows "extractMessageFromBuffer (view_bytes v @ post) = Inr (Some post)"
proof -
  note len = view_wf_length [OF assms(1)]
  have "unat (align32 (nlmsg_len (view_header v))) = 4 * ((length (view_bytes v) + 3) div 4)"
    using assms(2) len(3) by (simp add: unat_align32)
  also have "\<dots> = length (view_bytes v)"
    using length_view_bytes_mod4 [of v] by presburger
  finally show ?thesis
    using len by (simp add: extractMessageFromBuffer_def Let_def)
qed

lemma read_batch_views:
  "list_all (\<lambda>v. view_wf v \<and> length (view_bytes v) + 3 < 2 ^ 32) vs \<Longrightarrow>
   read_batch (concat (map view_bytes vs)) = Inr vs"
proof (induction vs)
  case Nil
  show ?case by (subst read_batch.simps) (simp add: extractMessageFromBuffer_def)
next
  case (Cons v vs)
  then have "read_batch (concat (map view_bytes vs)) = Inr vs"
    and v: "view_wf v" "length (view_bytes v) + 3 < 2 ^ 32" by simp_all
  moreover have "view_bytes v \<noteq> []" using view_wf_length(1) [OF v(1)] by auto
  ultimately show ?case
    by (subst read_batch.simps) (simp add: extract_view packetViewParser_view)
qed

lemma recv_batch_whole:
  "0 \<le> fd \<Longrightarrow> recvNetlinkMessageBatch fd [] (Some d) (Some (pid, d)) = (if pid = 0 then d else [])"
  by (auto simp: recvNetlinkMessageBatch_def overwrite_def Let_def)

lemma read_batch_Nil [simp]: "read_batch [] = Inr []"
  by (subst read_batch.simps) (simp add: extractMessageFromBuffer_def)

text \<open>A link message whose single attribute is not padded.\<close>

lemma unpadded_attribute_loop:
  assumes "unat len = 4 + length v" and "length v mod 4 \<noteq> 0" and "length pre = 32"
    and "length v mod 4 + length pad \<le> 4"
  shows "rta_loop (pre @ as_bytes16 len @ as_bytes16 ty @ v @ pad) 32 (of_nat (unat len)) = Inl Read_out_of_bounds"
proof -
  let ?mem = "pre @ as_bytes16 len @ as_bytes16 ty @ v @ pad"
  let ?step = "align32 (ucast len) :: u32"
  have len: "unat len < 65536" using unsigned_less [of len, where 'a = nat] by simp
  have rem: "unat (of_nat (unat len) :: u64) = unat len" "unat (ucast len :: u64) = unat len"
    using less_u16_bound [of len] by (simp_all add: unsigned_ucast_eq unsigned_of_nat take_bit_nat_eq_self)
  have step: "unat ?step = 4 * ((unat len + 3) div 4)" by (rule align32_u16)
  have more: "unat len < unat ?step" "unat ?step \<le> unat len + 3"
    "length v mod 4 + (unat ?step - unat len) = 4"
    using assms(1,2) step by presburger+
  have s2: "slice_at ?mem 32 2 = Inr (as_bytes16 len)"
    using slice_at_append [of 32 pre 2 "as_bytes16 len" "as_bytes16 ty @ v @ pad"] assms(3) by simp
  have slen: "slice_at ?mem 32 (unat len) = Inr (as_bytes16 len @ as_bytes16 ty @ v)"
    using slice_at_append [of 32 pre "unat len" "as_bytes16 len @ as_bytes16 ty @ v" pad] assms by simp
  have ucast_step: "unat (ucast ?step :: u64) = unat ?step"
    using more len by (simp add: unsigned_ucast_eq take_bit_nat_eq_self)
  have le: "le16 (as_bytes16 len) 0 = len" by (simp add: le16_def as_bytes16_def)
  define a where "a = (of_nat (unat len) :: u64)"
  define b where "b = (ucast ?step :: u64)"
  have "unat a = unat len" "unat b = unat ?step" using rem ucast_step by (simp_all add: a_def b_def)
  then have "4 \<le> unat (a - b)"
    using more len by (simp add: unat_sub_if')
  then have next_more: "\<not> (of_nat (unat len) - ucast ?step :: u64) < 4"
    by (simp add: word_less_nat_alt a_def b_def)
  have "slice_at ?mem (32 + unat ?step) 2 = Inl Read_out_of_bounds"
    using more assms by (simp add: slice_at_def)
  then have tail: "rta_loop ?mem (32 + unat ?step) (of_nat (unat len) - ucast ?step) = Inl Read_out_of_bounds"
    using next_more by (subst rta_loop.simps) simp
  have "\<not> (of_nat (unat len) :: u64) < 4" "\<not> (len < 4 \<or> (of_nat (unat len) :: u64) < ucast len)"
    using rem assms(1) by (simp_all add: word_less_nat_alt del: unat_of_nat)
  then show ?thesis
    unfolding rta_loop.simps [of ?mem 32 "of_nat (unat len)"]
    by (simp only: s2 slen le tail Let_def sum.case if_False bind_cpp.simps)
qed

text \<open>The two requests, as the parser sees them.\<close>

lemma dump_requests_parsed:
  "packetViewParser (link_dump_request pid seq) = Inr (LinkView
     \<lparr>nlmsg_len = 32, nlmsg_type = RTM_GETLINK, nlmsg_flags = 0x305, nlmsg_seq = seq, nlmsg_pid = pid\<rparr>
     \<lparr>ifi_family = AF_UNSPEC, ifi_type = 0, ifi_index = 0, ifi_flags = 0, ifi_change = 0\<rparr> [])"
  "packetViewParser (addr_dump_request pid seq) = Inr (AddrView
     \<lparr>nlmsg_len = 24, nlmsg_type = RTM_GETADDR, nlmsg_flags = 0x305, nlmsg_seq = seq, nlmsg_pid = pid\<rparr>
     \<lparr>ifa_family = AF_UNSPEC, ifa_prefixlen = 0, ifa_flags = 0, ifa_scope = 0, ifa_index = 0\<rparr> [])"
  using packetViewParser_view [of "LinkView
     \<lparr>nlmsg_len = 32, nlmsg_type = RTM_GETLINK, nlmsg_flags = 0x305, nlmsg_seq = seq, nlmsg_pid = pid\<rparr>
     \<lparr>ifi_family = AF_UNSPEC, ifi_type = 0, ifi_index = 0, ifi_flags = 0, ifi_change = 0\<rparr> []" "[]"]
   packetViewParser_view [of "AddrView
     \<lparr>nlmsg_len = 24, nlmsg_type = RTM_GETADDR, nlmsg_flags = 0x305, nlmsg_seq = seq, nlmsg_pid = pid\<rparr>
     \<lparr>ifa_family = AF_UNSPEC, ifa_prefixlen = 0, ifa_flags = 0, ifa_scope = 0, ifa_index = 0\<rparr> []" "[]"]
  by (simp_all add: link_types_def addr_types_def link_dump_request_def addr_dump_request_def
      NLM_F_ACK_def NLM_F_DUMP_def NLM_F_REQUEST_def)

lemma link_dump_request_parsed:
  "\<exists>h i. packetViewParser (link_dump_request pid seq) = Inr (LinkView h i []) \<and>
     nlmsg_type h = RTM_GETLINK \<and> nlmsg_seq h = seq \<and> nlmsg_flags h AND NLM_F_DUMP = NLM_F_DUMP"
  "length (link_dump_request pid seq) = 32"
  by (simp_all add: dump_requests_parsed(1) NLM_F_DUMP_def)
    (simp add: link_dump_request_def)

subsection \<open>Properties\<close>

text \<open>C23: A batch from the kernel (netlink port 0) that holds well-formed link, address and end-of-dump
  messages is cut and parsed completely: the callback sees exactly those messages, in order, with
  every attribute's type and value.  The same batch from any other sender is dropped whole.\<close>
theorem batch_delivered_in_order:
  assumes "list_all (\<lambda>v. view_wf v \<and> length (view_bytes v) + 3 < 2 ^ 32) vs"
    and "callback_set sock" and "0 \<le> socket_fd sock"
  shows "NetlinkSocket_Call sock (Some (concat (map view_bytes vs)))
      (Some (pid, concat (map view_bytes vs))) = Inr (if pid = 0 then vs else [])"
  using assms by (simp add: NetlinkSocket_Call_def recv_batch_whole read_batch_views)

theorem batch_delivered_in_order_witness:
  "\<exists>h i e. let vs = [LinkView h i [\<lparr>rta_len = 7, rta_type = IFLA_IFNAME, attr_value = [108, 111, 0]\<rparr>],
      DoneView e 0] in
   NetlinkSocket_Call \<lparr>socket_fd = 3, sequence_number = 0, callback_set = True\<rparr>
     (Some (concat (map view_bytes vs))) (Some (0, concat (map view_bytes vs))) = Inr vs"
proof -
  let ?h = "\<lparr>nlmsg_len = 40, nlmsg_type = RTM_NEWLINK, nlmsg_flags = 0, nlmsg_seq = 1, nlmsg_pid = 9\<rparr>"
  let ?i = "\<lparr>ifi_family = 0, ifi_type = 1, ifi_index = 2, ifi_flags = 65, ifi_change = 0\<rparr>"
  let ?e = "\<lparr>nlmsg_len = 20, nlmsg_type = NLMSG_DONE, nlmsg_flags = 0, nlmsg_seq = 1, nlmsg_pid = 9\<rparr>"
  let ?vs = "[LinkView ?h ?i [\<lparr>rta_len = 7, rta_type = IFLA_IFNAME, attr_value = [108, 111, 0]\<rparr>],
      DoneView ?e 0]"
  have "NetlinkSocket_Call \<lparr>socket_fd = 3, sequence_number = 0, callback_set = True\<rparr>
     (Some (concat (map view_bytes ?vs))) (Some (0, concat (map view_bytes ?vs))) = Inr ?vs"
    using batch_delivered_in_order [of ?vs "\<lparr>socket_fd = 3, sequence_number = 0, callback_set = True\<rparr>" 0]
    by (simp add: link_types_def attr_wf_def length_attr_bytes)
  then show ?thesis by (intro exI [of _ ?h] exI [of _ ?i] exI [of _ ?e]) (simp add: Let_def)
qed

text \<open>C39: The remaining length of the attribute loop is unsigned, so an attribute that ends the last
  message of a batch without being counted in padded form makes it wrap around: for every such link
  message, of whatever attribute type and value, and whether or not padding bytes follow it in the
  buffer, the socket reads behind the end of the receive buffer.\<close>
theorem unpadded_attribute_reads_out_of_bounds:
  assumes "unat len = 4 + length v" and "length v mod 4 \<noteq> 0" and "length v mod 4 + length pad \<le> 4"
    and "nlmsg_type h = RTM_NEWLINK" and "nlmsg_len h = 32 + ucast len"
  shows "read_batch (nlmsghdr_bytes h @ ifinfomsg_bytes i @ as_bytes16 len @ as_bytes16 ty @ v @ pad)
     = Inl Read_out_of_bounds"
proof -
  let ?mem = "nlmsghdr_bytes h @ ifinfomsg_bytes i @ as_bytes16 len @ as_bytes16 ty @ v @ pad"
  have len: "unat len < 65536" using unsigned_less [of len, where 'a = nat] by simp
  have size: "unat (nlmsg_len h) = 32 + unat len"
    using assms(5) len by (simp add: unat_word_ariths unsigned_ucast_eq take_bit_nat_eq_self)
  have "unat (align32 (nlmsg_len h)) = 4 * ((32 + unat len + 3) div 4)"
    using size len by (subst unat_align32) simp_all
  then have aligned: "unat (align32 (nlmsg_len h)) + length v mod 4 = 36 + length v + 4"
    using assms(1,2) by presburger
  have first: "extractMessageFromBuffer ?mem =
      (if length v mod 4 + length pad = 4 then Inr (Some []) else Inl Read_out_of_bounds)"
    using aligned size assms(1,2,3) structure_le32 by (auto simp: extractMessageFromBuffer_def Let_def)
  have "(ucast (nlmsg_len h) :: u64) = of_nat (32 + unat len)"
    using size by (rule ucast_of_nat_unat)
  then have rem: "NLMSG_PAYLOAD64 h 16 = of_nat (unat len)"
    by (simp add: align64_def NLMSG_HDRLEN_def NLMSG_PAYLOAD64_def)
  have "parseTlvs ?mem h 16 = Inl Read_out_of_bounds"
    using unpadded_attribute_loop [OF assms(1,2), of "nlmsghdr_bytes h @ ifinfomsg_bytes i" pad ty] assms(3)
    by (simp add: parseTlvs_def rem) (simp add: align64_def NLMSG_HDRLEN_def)
  then have "packetViewParser ?mem = Inl Read_out_of_bounds"
    using assms(4) by (simp add: packetViewParser_def structure_parsed parseLinkViewPacket_def)
  then show ?thesis
    using first by (subst read_batch.simps) simp
qed

theorem unpadded_attribute_reads_out_of_bounds_witness:
  "\<exists>h i. read_batch (nlmsghdr_bytes h @ ifinfomsg_bytes i @ as_bytes16 7 @ as_bytes16 IFLA_IFNAME
     @ [108, 111, 0] @ [0]) = Inl Read_out_of_bounds"
proof -
  let ?h = "\<lparr>nlmsg_len = 39, nlmsg_type = RTM_NEWLINK, nlmsg_flags = 0, nlmsg_seq = 1, nlmsg_pid = 9\<rparr>"
  let ?i = "\<lparr>ifi_family = 0, ifi_type = 1, ifi_index = 2, ifi_flags = 65, ifi_change = 0\<rparr>"
  have "read_batch (nlmsghdr_bytes ?h @ ifinfomsg_bytes ?i @ as_bytes16 7 @ as_bytes16 IFLA_IFNAME
     @ [108, 111, 0] @ [0]) = Inl Read_out_of_bounds"
    using unpadded_attribute_reads_out_of_bounds [of 7 "[108, 111, 0]" "[0]" ?h ?i IFLA_IFNAME] by simp
  then show ?thesis by (intro exI)
qed

text \<open>The dump requests are valid netlink: a request the kernel accepts carries the next sequence
  number of its socket and parses back, by the repository's own parser, to a link dump request with
  that number and no attributes; a refused one consumes the number and is reported as an error.\<close>
theorem link_dump_request_parses_back:
  assumes "0 \<le> socket_fd sock"
  shows "case SendGetLinkDumpMessage sock env of (outcome, sock', env') \<Rightarrow>
     sequence_number sock' = sequence_number sock + 1 \<and> socket_fd sock' = socket_fd sock \<and>
     (\<exists>request h i. nl_requests env' = nl_requests env @ [(socket_fd sock, request)] \<and>
        packetViewParser request = Inr (LinkView h i []) \<and> nlmsg_type h = RTM_GETLINK \<and>
        nlmsg_seq h = sequence_number sock' \<and> nlmsg_flags h AND NLM_F_DUMP = NLM_F_DUMP \<and>
        outcome = (if nl_send_outcome env (length (nl_requests env)) < 32 then Inl (- 3)
                  else Inr (nlmsg_seq h)))"
  using assms link_dump_request_parsed(1) [of "own_pid env" "sequence_number sock + 1"]
  by (simp add: SendGetLinkDumpMessage_def Let_def link_dump_request_parsed(2)) metis

theorem link_dump_request_parses_back_witness:
  "case SendGetLinkDumpMessage \<lparr>socket_fd = 3, sequence_number = 7, callback_set = True\<rparr>
      \<lparr>own_pid = 100, nl_send_outcome = \<lambda>_. 32, nl_requests = []\<rparr> of (outcome, sock', env') \<Rightarrow>
     sequence_number sock' = 8 \<and> outcome = Inr 8"
  using link_dump_request_parses_back [of "\<lparr>socket_fd = 3, sequence_number = 7, callback_set = True\<rparr>"
      "\<lparr>own_pid = 100, nl_send_outcome = \<lambda>_. 32, nl_requests = []\<rparr>"]
  by (auto split: prod.splits)

end
