(* ===== verification/Readers.thy ===== *)
theory Readers
  imports Netlink_Monitor
begin

section \<open>The readers of link and address dumps\<close>

text \<open>
  \<open>device_reader.cc\<close> and \<open>ip_reader.cc\<close>: each reader sends a dump request on its own netlink socket,
  hands the messages of the answer to an update callback, and reports the end of the dump, an
  error of the kernel, or that the answer did not end in five seconds.  The timeouts are \<open>int\<close>; a
  tick of \<open>2 ^ 31\<close> seconds or more converts to a negative number, and the signed overflow that a
  subtraction of it can be is not modelled (the difference is the exact one).  An operation returns the
  callback it invokes, if any, with the reader's new state.  What the two classes have in common
  is the locale \<open>dump_protocol\<close>, interpreted for both.
\<close>

definition DUMP_READ_TIMEOUT :: int where "DUMP_READ_TIMEOUT = 5"

text \<open>A callback that an operation invokes, with its argument.\<close>

datatype 'v reader_callback =
  Update_callback 'v
| End_of_dump_callback
| Dump_errored_callback

type_synonym link_message = "nlmsghdr \<times> ifinfomsg \<times> TLVView list"
type_synonym addr_message = "nlmsghdr \<times> ifaddrmsg \<times> TLVView list"

subsection \<open>The device reader\<close>

text \<open>The three callbacks are set or not; they are the ones \<open>DeviceRepository::BindCallbacks\<close> binds.\<close>

record DeviceReader =
  dr_socket :: "NetlinkSocket option"
  dr_sequence_number :: "u32 option"
  dr_read_timeout :: int
  dr_update_set :: bool
  dr_end_set :: bool
  dr_errored_set :: bool

definition DeviceReader_new :: "NetlinkSocket option \<Rightarrow> DeviceReader" where
  "DeviceReader_new sock =
     \<lparr>dr_socket = map_option (callback_set_update (\<lambda>_. True)) sock, dr_sequence_number = None,
      dr_read_timeout = - 1, dr_update_set = False, dr_end_set = False, dr_errored_set = False\<rparr>"

definition DeviceReader_ResetDumpAttempt :: "DeviceReader \<Rightarrow> DeviceReader" where
  "DeviceReader_ResetDumpAttempt r = r\<lparr>dr_read_timeout := - 1, dr_sequence_number := None\<rparr>"

definition DeviceReader_Tick ::
  "u64 \<Rightarrow> DeviceReader \<Rightarrow> link_message reader_callback option \<times> DeviceReader" where
  "DeviceReader_Tick delta_seconds r =
     (if dr_sequence_number r \<noteq> None then
        if int_cast delta_seconds < dr_read_timeout r
        then (None, r\<lparr>dr_read_timeout := dr_read_timeout r - int_cast delta_seconds\<rparr>)
        else
          let r = DeviceReader_ResetDumpAttempt (r\<lparr>dr_read_timeout := 0\<rparr>)
          in (if dr_errored_set r then Some Dump_errored_callback else None, r)
      else (None, r))"

definition DeviceReader_TriggerDump ::
  "DeviceReader \<Rightarrow> nl_env \<Rightarrow> (int + unit) \<times> DeviceReader \<times> nl_env" where
  "DeviceReader_TriggerDump r env =
     (case dr_socket r of None \<Rightarrow> (Inl EINVAL, r, env)
      | Some sock \<Rightarrow>
        (case SendGetLinkDumpMessage sock env of (dump_result, sock, env) \<Rightarrow>
           let r = r\<lparr>dr_read_timeout := DUMP_READ_TIMEOUT, dr_socket := Some sock\<rparr>
           in (case dump_result of
                 Inl error \<Rightarrow> (Inl error, r, env)
               | Inr seq \<Rightarrow> (Inr (), r\<lparr>dr_sequence_number := Some seq\<rparr>, env))))"

definition DeviceReader_HandleNetlinkPacket ::
  "NetlinkPacketView \<Rightarrow> DeviceReader \<Rightarrow> link_message reader_callback option \<times> DeviceReader" where
  "DeviceReader_HandleNetlinkPacket packet r =
     (case dr_sequence_number r of None \<Rightarrow> (None, r)
      | Some expected \<Rightarrow>
        if view_seq packet \<noteq> expected then (None, r)
        else (case packet of
            LinkView h i attributes \<Rightarrow>
              (if dr_update_set r then Some (Update_callback (h, i, attributes)) else None, r)
          | DoneView _ _ \<Rightarrow>
              let r = DeviceReader_ResetDumpAttempt r
              in (if dr_end_set r then Some End_of_dump_callback else None, r)
          | ErrorView _ _ _ _ \<Rightarrow>
              let r = DeviceReader_ResetDumpAttempt r
              in (if dr_errored_set r then Some Dump_errored_callback else None, r)
          | _ \<Rightarrow> (None, r)))"

subsection \<open>The address reader\<close>

record IpReader =
  ir_socket :: "NetlinkSocket option"
  ir_sequence_number :: "u32 option"
  ir_read_timeout :: int
  ir_update_set :: bool
  ir_end_set :: bool
  ir_errored_set :: bool

definition IpReader_new :: "NetlinkSocket option \<Rightarrow> IpReader" where
  "IpReader_new sock =
     \<lparr>ir_socket = map_option (callback_set_update (\<lambda>_. True)) sock, ir_sequence_number = None,
      ir_read_timeout = - 1, ir_update_set = False, ir_end_set = False, ir_errored_set = False\<rparr>"

definition IpReader_ResetDumpAttempt :: "IpReader \<Rightarrow> IpReader" where
  "IpReader_ResetDumpAttempt r = r\<lparr>ir_read_timeout := - 1, ir_sequence_number := None\<rparr>"

definition IpReader_Tick ::
  "u64 \<Rightarrow> IpReader \<Rightarrow> addr_message reader_callback option \<times> IpReader" where
  "IpReader_Tick delta_seconds r =
     (if ir_sequence_number r \<noteq> None then
        if int_cast delta_seconds < ir_read_timeout r
        then (None, r\<lparr>ir_read_timeout := ir_read_timeout r - int_cast delta_seconds\<rparr>)
        else
          let r = IpReader_ResetDumpAttempt (r\<lparr>ir_read_timeout := 0\<rparr>)
          in (if ir_errored_set r then Some Dump_errored_callback else None, r)
      else (None, r))"

definition IpReader_TriggerDump ::
  "IpReader \<Rightarrow> nl_env \<Rightarrow> (int + unit) \<times> IpReader \<times> nl_env" where
  "IpReader_TriggerDump r env =
     (case ir_socket r of None \<Rightarrow> (Inl EINVAL, r, env)
      | Some sock \<Rightarrow>
        (case SendGetAddrMessage sock env of (dump_result, sock, env) \<Rightarrow>
           let r = r\<lparr>ir_read_timeout := DUMP_READ_TIMEOUT, ir_socket := Some sock\<rparr>
           in (case dump_result of
                 Inl error \<Rightarrow> (Inl error, r, env)
               | Inr seq \<Rightarrow> (Inr (), r\<lparr>ir_sequence_number := Some seq\<rparr>, env))))"

definition IpReader_HandleNetlinkPacket ::
  "NetlinkPacketView \<Rightarrow> IpReader \<Rightarrow> addr_message reader_callback option \<times> IpReader" where
  "IpReader_HandleNetlinkPacket packet r =
     (case ir_sequence_number r of None \<Rightarrow> (None, r)
      | Some expected \<Rightarrow>
        if view_seq packet \<noteq> expected then (None, r)
        else (case packet of
            AddrView h i attributes \<Rightarrow>
              (if ir_update_set r then Some (Update_callback (h, i, attributes)) else None, r)
          | DoneView _ _ \<Rightarrow>
              let r = IpReader_ResetDumpAttempt r
              in (if ir_end_set r then Some End_of_dump_callback else None, r)
          | ErrorView _ _ _ _ \<Rightarrow>
              let r = IpReader_ResetDumpAttempt r
              in (if ir_errored_set r then Some Dump_errored_callback else None, r)
          | _ \<Rightarrow> (None, r)))"

subsection \<open>Runs of a reader\<close>

datatype reader_event = Time_passes u64 | Packet_arrives NetlinkPacketView

fun DeviceReader_step ::
  "reader_event \<Rightarrow> DeviceReader \<Rightarrow> link_message reader_callback option \<times> DeviceReader" where
  "DeviceReader_step (Time_passes d) r = DeviceReader_Tick d r"
| "DeviceReader_step (Packet_arrives p) r = DeviceReader_HandleNetlinkPacket p r"

fun IpReader_step ::
  "reader_event \<Rightarrow> IpReader \<Rightarrow> addr_message reader_callback option \<times> IpReader" where
  "IpReader_step (Time_passes d) r = IpReader_Tick d r"
| "IpReader_step (Packet_arrives p) r = IpReader_HandleNetlinkPacket p r"

text \<open>The callbacks a run of events invokes, in order, and the state it leaves.\<close>

fun reader_run :: "('e \<Rightarrow> 'r \<Rightarrow> 'c option \<times> 'r) \<Rightarrow> 'e list \<Rightarrow> 'r \<Rightarrow> 'c list \<times> 'r" where
  "reader_run step [] r = ([], r)"
| "reader_run step (e # es) r =
     (case step e r of (call, r) \<Rightarrow> case reader_run step es r of (calls, r) \<Rightarrow>
        ((case call of None \<Rightarrow> calls | Some c \<Rightarrow> c # calls), r))"

text \<open>What a packet is to a reader that waits for an answer: an update, the end, an error, or nothing.\<close>

fun link_meaning :: "NetlinkPacketView \<Rightarrow> link_message reader_callback option" where
  "link_meaning (LinkView h i attributes) = Some (Update_callback (h, i, attributes))"
| "link_meaning (DoneView _ _) = Some End_of_dump_callback"
| "link_meaning (ErrorView _ _ _ _) = Some Dump_errored_callback"
| "link_meaning _ = None"

fun addr_meaning :: "NetlinkPacketView \<Rightarrow> addr_message reader_callback option" where
  "addr_meaning (AddrView h i attributes) = Some (Update_callback (h, i, attributes))"
| "addr_meaning (DoneView _ _) = Some End_of_dump_callback"
| "addr_meaning (ErrorView _ _ _ _) = Some Dump_errored_callback"
| "addr_meaning _ = None"

definition final :: "'v reader_callback \<Rightarrow> bool" where
  "final c \<longleftrightarrow> c = End_of_dump_callback \<or> c = Dump_errored_callback"

lemma final_simps [simp]:
  "\<not> final (Update_callback v)" "final End_of_dump_callback" "final Dump_errored_callback"
  by (simp_all add: final_def)

lemma not_final: "\<not> final c \<Longrightarrow> \<exists>v. c = Update_callback v"
  by (cases c) (simp_all add: final_def)

fun seconds :: "reader_event \<Rightarrow> nat" where
  "seconds (Time_passes d) = unat d"
| "seconds (Packet_arrives _) = 0"

text \<open>Ticks that an \<open>int\<close> can hold.\<close>

fun in_range :: "reader_event \<Rightarrow> bool" where
  "in_range (Time_passes d) \<longleftrightarrow> uint d < 2 ^ 31"
| "in_range (Packet_arrives _) \<longleftrightarrow> True"

subsection \<open>The protocol\<close>

locale dump_protocol =
  fixes seq :: "'r \<Rightarrow> u32 option" and timeout :: "'r \<Rightarrow> int" and bound :: "'r \<Rightarrow> bool"
    and step :: "reader_event \<Rightarrow> 'r \<Rightarrow> 'v reader_callback option \<times> 'r"
    and meaning :: "NetlinkPacketView \<Rightarrow> 'v reader_callback option"
  assumes idle: "seq r = None \<Longrightarrow> step e r = (None, r)"
    and stale: "seq r = Some s \<Longrightarrow> view_seq p \<noteq> s \<Longrightarrow> step (Packet_arrives p) r = (None, r)"
    and update: "seq r = Some (view_seq p) \<Longrightarrow> bound r \<Longrightarrow> pred_option (\<lambda>c. \<not> final c) (meaning p) \<Longrightarrow>
      step (Packet_arrives p) r = (meaning p, r)"
    and ending: "seq r = Some (view_seq p) \<Longrightarrow> bound r \<Longrightarrow> meaning p = Some c \<Longrightarrow> final c \<Longrightarrow>
      fst (step (Packet_arrives p) r) = Some c \<and> seq (snd (step (Packet_arrives p) r)) = None"
    and waiting: "seq r = Some s \<Longrightarrow> int_cast d < timeout r \<Longrightarrow>
      fst (step (Time_passes d) r) = None \<and> seq (snd (step (Time_passes d) r)) = Some s \<and>
      timeout (snd (step (Time_passes d) r)) = timeout r - int_cast d"
    and expiry: "seq r = Some s \<Longrightarrow> bound r \<Longrightarrow> timeout r \<le> int_cast d \<Longrightarrow>
      fst (step (Time_passes d) r) = Some Dump_errored_callback \<and>
      seq (snd (step (Time_passes d) r)) = None"
    and bound: "bound (snd (step e r)) = bound r"
begin

lemma run_idle: "seq r = None \<Longrightarrow> reader_run step es r = ([], r)"
  by (induction es) (simp_all add: idle)

text \<open>One step of a reader that waits: nothing, an update, or the end of the waiting.\<close>

lemma step_cases:
  assumes "seq r = Some s" "bound r"
  obtains "fst (step e r) = None" "seq (snd (step e r)) = Some s"
  | v where "fst (step e r) = Some (Update_callback v)" "seq (snd (step e r)) = Some s"
  | c where "fst (step e r) = Some c" "final c" "seq (snd (step e r)) = None"
proof (cases e)
  case (Time_passes d)
  then show thesis
    using that waiting [OF assms(1), of d] expiry [OF assms, of d] by (cases "int_cast d < timeout r") auto
next
  case (Packet_arrives p)
  show thesis
  proof (cases "view_seq p = s")
    case False
    then show thesis using that(1) stale [OF assms(1)] Packet_arrives assms(1) by simp
  next
    case True
    then have s: "seq r = Some (view_seq p)" using assms(1) by simp
    show thesis
    proof (cases "pred_option (\<lambda>c. \<not> final c) (meaning p)")
      case upd: True
      then show thesis
        using that(1,2) update [OF s assms(2) upd] Packet_arrives assms(1) not_final
        by (cases "meaning p") auto
    next
      case False
      then obtain c where "meaning p = Some c" "final c" by (cases "meaning p") auto
      then show thesis using that(3) ending [OF s assms(2)] Packet_arrives by blast
    qed
  qed
qed

text \<open>A dump ends at most once, and nothing is reported after its end.\<close>

lemma run_shape:
  assumes "seq r = Some s" "bound r"
  shows "\<exists>us fin. fst (reader_run step es r) = map Update_callback us @ fin \<and>
     (fin = [] \<and> seq (snd (reader_run step es r)) = Some s \<or>
      (\<exists>c. fin = [c] \<and> final c) \<and> seq (snd (reader_run step es r)) = None)"
  using assms
proof (induction es arbitrary: r)
  case (Cons e es)
  have b: "bound (snd (step e r))" using bound Cons.prems(2) by simp
  show ?case
  proof (rule step_cases [OF Cons.prems, of e])
    assume "fst (step e r) = None" "seq (snd (step e r)) = Some s"
    then show ?thesis using Cons.IH [OF _ b] by (simp add: case_prod_beta)
  next
    fix v assume v: "fst (step e r) = Some (Update_callback v)" "seq (snd (step e r)) = Some s"
    from Cons.IH [OF v(2) b] obtain us fin where
      "fst (reader_run step es (snd (step e r))) = map Update_callback us @ fin"
      "fin = [] \<and> seq (snd (reader_run step es (snd (step e r)))) = Some s \<or>
       (\<exists>c. fin = [c] \<and> final c) \<and> seq (snd (reader_run step es (snd (step e r)))) = None"
      by blast
    then show ?thesis
      using v(1) by (intro exI [of _ "v # us"] exI [of _ fin]) (simp add: case_prod_beta)
  next
    fix c assume "fst (step e r) = Some c" "final c" "seq (snd (step e r)) = None"
    then show ?thesis
      by (intro exI [of _ "[]"] exI [of _ "[c]"]) (simp add: case_prod_beta run_idle)
  qed
qed simp

text \<open>Once the seconds of its timeout have passed, a dump has ended.\<close>

lemma packet_keeps_timeout:
  "seq r = Some s \<Longrightarrow> bound r \<Longrightarrow> seq (snd (step (Packet_arrives p) r)) = Some s \<Longrightarrow>
   snd (step (Packet_arrives p) r) = r"
  using stale [of r s p] update [of r p] ending [of r p]
  by (cases "view_seq p = s"; cases "meaning p"; cases "pred_option (\<lambda>c. \<not> final c) (meaning p)") auto

lemma run_times_out:
  assumes "bound r" "list_all in_range es" "timeout r \<le> int (sum_list (map seconds es))"
    and "0 < timeout r" "seq r \<noteq> None"
  shows "seq (snd (reader_run step es r)) = None"
  using assms
proof (induction es arbitrary: r)
  case (Cons e es)
  let ?r = "snd (step e r)"
  obtain s where s: "seq r = Some s" using Cons.prems by auto
  have b: "bound ?r" using bound Cons.prems by simp
  show ?case
  proof (cases "seq ?r = None")
    case True
    then show ?thesis by (simp add: case_prod_beta run_idle)
  next
    case running: False
    have "timeout ?r \<le> int (sum_list (map seconds es)) \<and> 0 < timeout ?r"
    proof (cases e)
      case (Packet_arrives p)
      have "seq ?r = Some s"
        by (rule step_cases [OF s Cons.prems(1), of e]) (use running in auto)
      then have "?r = r" using packet_keeps_timeout [OF s Cons.prems(1), of p] Packet_arrives by simp
      then show ?thesis using Cons.prems Packet_arrives by simp
    next
      case (Time_passes d)
      then have "int_cast d = int (unat d)"
        using Cons.prems(2) by (simp add: int_cast_small)
      then show ?thesis
        using Cons.prems Time_passes waiting [OF s, of d] expiry [OF s Cons.prems(1), of d] running
        by (cases "int_cast d < timeout r") auto
    qed
    then show ?thesis
      using Cons.IH [OF b] Cons.prems running by (simp add: case_prod_beta)
  qed
qed simp

text \<open>The answer of a dump: updates, then the end.\<close>

lemma run_answer:
  assumes "seq r = Some s" "bound r"
    and "list_all (\<lambda>p. view_seq p = s \<and> pred_option (\<lambda>c. \<not> final c) (meaning p)) ps"
    and "view_seq fin = s" "meaning fin = Some c" "final c"
  shows "fst (reader_run step (map Packet_arrives (ps @ [fin])) r) = List.map_filter meaning ps @ [c] \<and>
     seq (snd (reader_run step (map Packet_arrives (ps @ [fin])) r)) = None"
  using assms
proof (induction ps)
  case Nil
  then show ?case using ending [of r fin c] by (auto simp: case_prod_beta List.map_filter_def)
next
  case (Cons p ps)
  then have "step (Packet_arrives p) r = (meaning p, r)" using update [of r p] by simp
  then show ?case using Cons by (auto simp: case_prod_beta List.map_filter_def)
qed

end

definition DeviceReader_bound :: "DeviceReader \<Rightarrow> bool" where
  "DeviceReader_bound r \<longleftrightarrow> dr_update_set r \<and> dr_end_set r \<and> dr_errored_set r"

definition IpReader_bound :: "IpReader \<Rightarrow> bool" where
  "IpReader_bound r \<longleftrightarrow> ir_update_set r \<and> ir_end_set r \<and> ir_errored_set r"

lemmas device_reader_defs =
  DeviceReader_Tick_def DeviceReader_HandleNetlinkPacket_def DeviceReader_ResetDumpAttempt_def
  DeviceReader_bound_def Let_def

lemmas ip_reader_defs =
  IpReader_Tick_def IpReader_HandleNetlinkPacket_def IpReader_ResetDumpAttempt_def
  IpReader_bound_def Let_def

interpretation dr: dump_protocol dr_sequence_number dr_read_timeout DeviceReader_bound
    DeviceReader_step link_meaning
proof
  fix r and p :: NetlinkPacketView and e and d :: u64 and s and c :: "link_message reader_callback"
  show "dr_sequence_number r = None \<Longrightarrow> DeviceReader_step e r = (None, r)"
    by (cases e) (simp_all add: device_reader_defs)
  show "dr_sequence_number r = Some s \<Longrightarrow> view_seq p \<noteq> s \<Longrightarrow>
      DeviceReader_step (Packet_arrives p) r = (None, r)"
    by (simp add: device_reader_defs)
  show "dr_sequence_number r = Some (view_seq p) \<Longrightarrow> DeviceReader_bound r \<Longrightarrow>
      pred_option (\<lambda>c. \<not> final c) (link_meaning p) \<Longrightarrow>
      DeviceReader_step (Packet_arrives p) r = (link_meaning p, r)"
    by (cases p) (simp_all add: device_reader_defs)
  show "dr_sequence_number r = Some (view_seq p) \<Longrightarrow> DeviceReader_bound r \<Longrightarrow>
      link_meaning p = Some c \<Longrightarrow> final c \<Longrightarrow>
      fst (DeviceReader_step (Packet_arrives p) r) = Some c \<and>
      dr_sequence_number (snd (DeviceReader_step (Packet_arrives p) r)) = None"
    by (cases p) (auto simp: device_reader_defs)
  show "dr_sequence_number r = Some s \<Longrightarrow> int_cast d < dr_read_timeout r \<Longrightarrow>
      fst (DeviceReader_step (Time_passes d) r) = None \<and>
      dr_sequence_number (snd (DeviceReader_step (Time_passes d) r)) = Some s \<and>
      dr_read_timeout (snd (DeviceReader_step (Time_passes d) r)) = dr_read_timeout r - int_cast d"
    by (simp add: device_reader_defs)
  show "dr_sequence_number r = Some s \<Longrightarrow> DeviceReader_bound r \<Longrightarrow> dr_read_timeout r \<le> int_cast d \<Longrightarrow>
      fst (DeviceReader_step (Time_passes d) r) = Some Dump_errored_callback \<and>
      dr_sequence_number (snd (DeviceReader_step (Time_passes d) r)) = None"
    by (simp add: device_reader_defs)
  show "DeviceReader_bound (snd (DeviceReader_step e r)) = DeviceReader_bound r"
    by (cases e) (simp_all add: device_reader_defs split: option.splits NetlinkPacketView.splits)
qed

interpretation ir: dump_protocol ir_sequence_number ir_read_timeout IpReader_bound
    IpReader_step addr_meaning
proof
  fix r and p :: NetlinkPacketView and e and d :: u64 and s and c :: "addr_message reader_callback"
  show "ir_sequence_number r = None \<Longrightarrow> IpReader_step e r = (None, r)"
    by (cases e) (simp_all add: ip_reader_defs)
  show "ir_sequence_number r = Some s \<Longrightarrow> view_seq p \<noteq> s \<Longrightarrow>
      IpReader_step (Packet_arrives p) r = (None, r)"
    by (simp add: ip_reader_defs)
  show "ir_sequence_number r = Some (view_seq p) \<Longrightarrow> IpReader_bound r \<Longrightarrow>
      pred_option (\<lambda>c. \<not> final c) (addr_meaning p) \<Longrightarrow>
      IpReader_step (Packet_arrives p) r = (addr_meaning p, r)"
    by (cases p) (simp_all add: ip_reader_defs)
  show "ir_sequence_number r = Some (view_seq p) \<Longrightarrow> IpReader_bound r \<Longrightarrow>
      addr_meaning p = Some c \<Longrightarrow> final c \<Longrightarrow>
      fst (IpReader_step (Packet_arrives p) r) = Some c \<and>
      ir_sequence_number (snd (IpReader_step (Packet_arrives p) r)) = None"
    by (cases p) (auto simp: ip_reader_defs)
  show "ir_sequence_number r = Some s \<Longrightarrow> int_cast d < ir_read_timeout r \<Longrightarrow>
      fst (IpReader_step (Time_passes d) r) = None \<and>
      ir_sequence_number (snd (IpReader_step (Time_passes d) r)) = Some s \<and>
      ir_read_timeout (snd (IpReader_step (Time_passes d) r)) = ir_read_timeout r - int_cast d"
    by (simp add: ip_reader_defs)
  show "ir_sequence_number r = Some s \<Longrightarrow> IpReader_bound r \<Longrightarrow> ir_read_timeout r \<le> int_cast d \<Longrightarrow>
      fst (IpReader_step (Time_passes d) r) = Some Dump_errored_callback \<and>
      ir_sequence_number (snd (IpReader_step (Time_passes d) r)) = None"
    by (simp add: ip_reader_defs)
  show "IpReader_bound (snd (IpReader_step e r)) = IpReader_bound r"
    by (cases e) (simp_all add: ip_reader_defs split: option.splits NetlinkPacketView.splits)
qed

lemma DeviceReader_TriggerDump_ok:
  "DeviceReader_TriggerDump r env = (Inr u, r', env') \<Longrightarrow>
   dr_sequence_number r' \<noteq> None \<and> dr_read_timeout r' = 5 \<and> DeviceReader_bound r' = DeviceReader_bound r"
  by (auto simp: DeviceReader_TriggerDump_def DeviceReader_bound_def DUMP_READ_TIMEOUT_def Let_def
      split: option.splits prod.splits sum.splits)

lemma IpReader_TriggerDump_ok:
  "IpReader_TriggerDump r env = (Inr u, r', env') \<Longrightarrow>
   ir_sequence_number r' \<noteq> None \<and> ir_read_timeout r' = 5 \<and> IpReader_bound r' = IpReader_bound r"
  by (auto simp: IpReader_TriggerDump_def IpReader_bound_def DUMP_READ_TIMEOUT_def Let_def
      split: option.splits prod.splits sum.splits)

context dump_protocol
begin

text \<open>The two together: a dump that was started ends exactly once.\<close>

lemma run_ends_once:
  assumes "seq r \<noteq> None" "timeout r = 5" "bound r"
    and "list_all in_range es" "5 \<le> sum_list (map seconds es)"
  shows "\<exists>us fin. fst (reader_run step es r) = map Update_callback us @ [fin] \<and> final fin \<and>
     seq (snd (reader_run step es r)) = None"
proof -
  obtain s where "seq r = Some s" using assms by auto
  from run_shape [OF this assms(3), of es] run_times_out [OF assms(3,4)] assms(1,2,5)
  show ?thesis by auto
qed

end

subsection \<open>Properties\<close>

text \<open>C30: A link dump that was started ends: whatever packets arrive in whatever order (stale ones,
  errors, several ends), once five seconds have passed the reader has reported updates followed by
  exactly one end or error, reports nothing after it, and is ready for the next dump.\<close>
theorem device_dump_ends_once:
  assumes "DeviceReader_TriggerDump r env = (Inr (), r', env')" and "DeviceReader_bound r"
    and "list_all in_range es" and "5 \<le> sum_list (map seconds es)"
  shows "\<exists>us fin. fst (reader_run DeviceReader_step es r') = map Update_callback us @ [fin] \<and> final fin \<and>
     dr_sequence_number (snd (reader_run DeviceReader_step es r')) = None"
  using dr.run_ends_once [of r' es] DeviceReader_TriggerDump_ok [OF assms(1)] assms(2,3,4) by simp

definition example_socket :: NetlinkSocket where
  "example_socket = \<lparr>socket_fd = 3, sequence_number = 1, callback_set = True\<rparr>"

definition example_nl_env :: nl_env where
  "example_nl_env = \<lparr>own_pid = 100, nl_send_outcome = (\<lambda>_. 32), nl_requests = []\<rparr>"

theorem device_dump_ends_once_witness:
  "let r = (DeviceReader_new (Some example_socket))\<lparr>dr_update_set := True, dr_end_set := True, dr_errored_set := True\<rparr>
   in case DeviceReader_TriggerDump r example_nl_env of (_, r', _) \<Rightarrow>
      \<exists>us fin. fst (reader_run DeviceReader_step [Time_passes 2, Time_passes 3] r') =
        map Update_callback us @ [fin] \<and> final fin"
proof -
  let ?r = "(DeviceReader_new (Some example_socket))\<lparr>dr_update_set := True, dr_end_set := True, dr_errored_set := True\<rparr>"
  obtain r' env' where r': "DeviceReader_TriggerDump ?r example_nl_env = (Inr (), r', env')"
    by (simp add: DeviceReader_TriggerDump_def DeviceReader_new_def example_socket_def example_nl_env_def
        SendGetLinkDumpMessage_def link_dump_request_parsed(2))
  have "\<exists>us fin. fst (reader_run DeviceReader_step [Time_passes 2, Time_passes 3] r') =
        map Update_callback us @ [fin] \<and> final fin \<and>
     dr_sequence_number (snd (reader_run DeviceReader_step [Time_passes 2, Time_passes 3] r')) = None"
    by (rule device_dump_ends_once [OF r']) (simp_all add: DeviceReader_bound_def)
  then show ?thesis unfolding Let_def r' by blast
qed

text \<open>An address dump that was started ends in the same way: once five seconds have passed it has
  reported updates followed by exactly one end or error, and the reader is idle.\<close>
theorem address_dump_ends_once:
  assumes "IpReader_TriggerDump r env = (Inr (), r', env')" and "IpReader_bound r"
    and "list_all in_range es" and "5 \<le> sum_list (map seconds es)"
  shows "\<exists>us fin. fst (reader_run IpReader_step es r') = map Update_callback us @ [fin] \<and> final fin \<and>
     ir_sequence_number (snd (reader_run IpReader_step es r')) = None"
  using ir.run_ends_once [of r' es] IpReader_TriggerDump_ok [OF assms(1)] assms(2,3,4) by simp

theorem address_dump_ends_once_witness:
  "let r = (IpReader_new (Some example_socket))\<lparr>ir_update_set := True, ir_end_set := True, ir_errored_set := True\<rparr>
   in case IpReader_TriggerDump r example_nl_env of (_, r', _) \<Rightarrow>
      \<exists>us fin. fst (reader_run IpReader_step [Packet_arrives (DoneView \<lparr>nlmsg_len = 20, nlmsg_type = NLMSG_DONE, nlmsg_flags = 0, nlmsg_seq = 9, nlmsg_pid = 0\<rparr> 0), Time_passes 5] r') =
        map Update_callback us @ [fin] \<and> final fin"
proof -
  let ?r = "(IpReader_new (Some example_socket))\<lparr>ir_update_set := True, ir_end_set := True, ir_errored_set := True\<rparr>"
  let ?es = "[Packet_arrives (DoneView \<lparr>nlmsg_len = 20, nlmsg_type = NLMSG_DONE, nlmsg_flags = 0, nlmsg_seq = 9, nlmsg_pid = 0\<rparr> 0), Time_passes 5]"
  have "length (addr_dump_request pid seq) = 24" for pid seq by (simp add: addr_dump_request_def)
  then obtain r' env' where r': "IpReader_TriggerDump ?r example_nl_env = (Inr (), r', env')"
    by (simp add: IpReader_TriggerDump_def IpReader_new_def example_socket_def example_nl_env_def
        SendGetAddrMessage_def)
  have "\<exists>us fin. fst (reader_run IpReader_step ?es r') = map Update_callback us @ [fin] \<and> final fin \<and>
     ir_sequence_number (snd (reader_run IpReader_step ?es r')) = None"
    by (rule address_dump_ends_once [OF r']) (simp_all add: IpReader_bound_def)
  then show ?thesis unfolding Let_def r' by blast
qed

end
