(* ===== verification/Device_Repository.thy ===== *)
theory Device_Repository
  imports Readers Device_Data Ordered_Map
begin

section \<open>The device repository\<close>

text \<open>
  \<open>device_repository.cc\<close>: asks the kernel for its links and then for its addresses, gathers both in
  the map \<open>devices_\<close>, and hands the map to the synchronisation callback when the address dump has
  ended.  A resynchronisation starts every 120 seconds, and two seconds after the last packet of
  the monitor socket or after a dump that failed.  Every operation takes and returns the
  repository and the netlink environment; \<open>Some devices\<close> beside them is a call of the
  synchronisation callback.
\<close>

definition DEVICE_REPOSITORY_SYNC_TIMEOUT :: int where "DEVICE_REPOSITORY_SYNC_TIMEOUT = 120"
definition DEVICE_REPOSITORY_EXPEDITE_TIMEOUT :: int where "DEVICE_REPOSITORY_EXPEDITE_TIMEOUT = 2"

type_synonym devices = "(u32, DeviceData) omap"

record DeviceRepository =
  sync_timeout :: int
  monitor :: "NetlinkSocket option"
  device_reader :: "DeviceReader option"
  ip_reader :: "IpReader option"
  devices :: devices
  synchronization_callback_set :: bool

subsection \<open>Timers and requests\<close>

definition ScheduleResync :: "DeviceRepository \<Rightarrow> DeviceRepository" where
  "ScheduleResync repo = repo\<lparr>sync_timeout := DEVICE_REPOSITORY_SYNC_TIMEOUT\<rparr>"

definition ScheduleExpediteResync :: "DeviceRepository \<Rightarrow> DeviceRepository" where
  "ScheduleExpediteResync repo = repo\<lparr>sync_timeout := DEVICE_REPOSITORY_EXPEDITE_TIMEOUT\<rparr>"

text \<open>An error of \<open>TriggerDump\<close> is printed and otherwise ignored.\<close>

definition RequestDeviceDump :: "DeviceRepository \<Rightarrow> nl_env \<Rightarrow> DeviceRepository \<times> nl_env" where
  "RequestDeviceDump repo env =
     (case device_reader repo of None \<Rightarrow> (repo, env)
      | Some r \<Rightarrow> (case DeviceReader_TriggerDump r env of
          (_, r, env) \<Rightarrow> (repo\<lparr>device_reader := Some r\<rparr>, env)))"

definition RequestIpDump :: "DeviceRepository \<Rightarrow> nl_env \<Rightarrow> DeviceRepository \<times> nl_env" where
  "RequestIpDump repo env =
     (case ip_reader repo of None \<Rightarrow> (repo, env)
      | Some r \<Rightarrow> (case IpReader_TriggerDump r env of
          (_, r, env) \<Rightarrow> (repo\<lparr>ip_reader := Some r\<rparr>, env)))"

definition HandleMonitorPackets :: "NetlinkPacketView \<Rightarrow> DeviceRepository \<Rightarrow> DeviceRepository" where
  "HandleMonitorPackets packet repo = ScheduleExpediteResync repo"

subsection \<open>Link and address messages\<close>

text \<open>The interface name loses one trailing NUL.\<close>

definition drop_trailing_nul :: "bytes \<Rightarrow> bytes" where
  "drop_trailing_nul name = (if name \<noteq> [] \<and> last name = 0 then butlast name else name)"

definition apply_link_attribute :: "TLVView \<Rightarrow> DeviceData \<Rightarrow> DeviceData" where
  "apply_link_attribute attribute device =
     (if rta_type attribute = IFLA_IFNAME \<and> 1 < length (attr_value attribute)
      then device\<lparr>interface_name := Some (drop_trailing_nul (attr_value attribute))\<rparr>
      else if rta_type attribute = IFLA_ADDRESS \<and> length (attr_value attribute) = ETH_ALEN
      then device\<lparr>mac_address := Some (attr_value attribute)\<rparr>
      else device)"

definition HandleLinkPacket :: "link_message \<Rightarrow> devices \<Rightarrow> devices" where
  "HandleLinkPacket = (\<lambda>(h, interface_info, attributes) devs.
     if nlmsg_type h \<noteq> RTM_NEWLINK \<or> ifi_type interface_info \<noteq> ARPHRD_ETHER then devs
     else
       let index = ifi_index interface_info;
           device = om_at DeviceData_default devs index;
           device = device\<lparr>if_index := index,
             device_operational := ifi_flags interface_info AND IFF_UP \<noteq> 0 \<and>
               ifi_flags interface_info AND IFF_LOWER_UP \<noteq> 0\<rparr>
       in om_put index (fold apply_link_attribute attributes device) devs)"

definition apply_address_attribute :: "byte \<Rightarrow> TLVView \<Rightarrow> DeviceData \<Rightarrow> DeviceData" where
  "apply_address_attribute family attribute device =
     (if rta_type attribute = IFA_ADDRESS then
        if family = AF_INET \<and> length (attr_value attribute) = sizeof_in_addr
        then device\<lparr>ipv4_address := Some (attr_value attribute)\<rparr>
        else if family = AF_INET6 \<and> length (attr_value attribute) = sizeof_in6_addr
        then device\<lparr>ipv6_address := Some (attr_value attribute)\<rparr>
        else device
      else device)"

definition HandleAddressPacket :: "addr_message \<Rightarrow> devices \<Rightarrow> devices" where
  "HandleAddressPacket = (\<lambda>(h, address_info, attributes) devs.
     if nlmsg_type h = RTM_NEWADDR then
       if ifa_family address_info \<noteq> AF_INET \<and> ifa_family address_info \<noteq> AF_INET6 then devs
       else if ifa_flags address_info AND IFA_F_SECONDARY \<noteq> 0 then devs
       else
         let index = ifa_index address_info;
             device = (om_at DeviceData_default devs index)\<lparr>if_index := index\<rparr>
         in om_put index (fold (apply_address_attribute (ifa_family address_info)) attributes device) devs
     else devs)"

subsection \<open>The callbacks of the readers\<close>

text \<open>\<open>BindCallbacks\<close> connects each reader callback to the operation it runs here.\<close>

fun device_reader_called ::
  "link_message reader_callback \<Rightarrow> DeviceRepository \<Rightarrow> nl_env \<Rightarrow> DeviceRepository \<times> nl_env" where
  "device_reader_called (Update_callback link) repo env =
     (repo\<lparr>devices := HandleLinkPacket link (devices repo)\<rparr>, env)"
| "device_reader_called End_of_dump_callback repo env = RequestIpDump repo env"
| "device_reader_called Dump_errored_callback repo env = (ScheduleExpediteResync repo, env)"

fun ip_reader_called ::
  "addr_message reader_callback \<Rightarrow> DeviceRepository \<Rightarrow> devices option \<times> DeviceRepository" where
  "ip_reader_called (Update_callback addr) repo =
     (None, repo\<lparr>devices := HandleAddressPacket addr (devices repo)\<rparr>)"
| "ip_reader_called End_of_dump_callback repo =
     (if synchronization_callback_set repo then Some (devices repo) else None, repo)"
| "ip_reader_called Dump_errored_callback repo = (None, ScheduleExpediteResync repo)"

definition device_packet ::
  "NetlinkPacketView \<Rightarrow> DeviceRepository \<Rightarrow> nl_env \<Rightarrow> DeviceRepository \<times> nl_env" where
  "device_packet packet repo env =
     (case device_reader repo of None \<Rightarrow> (repo, env)
      | Some r \<Rightarrow> (case DeviceReader_HandleNetlinkPacket packet r of (call, r) \<Rightarrow>
          let repo = repo\<lparr>device_reader := Some r\<rparr>
          in (case call of None \<Rightarrow> (repo, env) | Some c \<Rightarrow> device_reader_called c repo env)))"

definition ip_packet ::
  "NetlinkPacketView \<Rightarrow> DeviceRepository \<Rightarrow> devices option \<times> DeviceRepository" where
  "ip_packet packet repo =
     (case ip_reader repo of None \<Rightarrow> (None, repo)
      | Some r \<Rightarrow> (case IpReader_HandleNetlinkPacket packet r of (call, r) \<Rightarrow>
          let repo = repo\<lparr>ip_reader := Some r\<rparr>
          in (case call of None \<Rightarrow> (None, repo) | Some c \<Rightarrow> ip_reader_called c repo)))"

subsection \<open>Time\<close>

definition tick_device_reader :: "u64 \<Rightarrow> DeviceRepository \<Rightarrow> nl_env \<Rightarrow> DeviceRepository \<times> nl_env" where
  "tick_device_reader delta_seconds repo env =
     (case device_reader repo of None \<Rightarrow> (repo, env)
      | Some r \<Rightarrow> (case DeviceReader_Tick delta_seconds r of (call, r) \<Rightarrow>
          let repo = repo\<lparr>device_reader := Some r\<rparr>
          in (case call of None \<Rightarrow> (repo, env) | Some c \<Rightarrow> device_reader_called c repo env)))"

definition tick_ip_reader :: "u64 \<Rightarrow> DeviceRepository \<Rightarrow> devices option \<times> DeviceRepository" where
  "tick_ip_reader delta_seconds repo =
     (case ip_reader repo of None \<Rightarrow> (None, repo)
      | Some r \<Rightarrow> (case IpReader_Tick delta_seconds r of (call, r) \<Rightarrow>
          let repo = repo\<lparr>ip_reader := Some r\<rparr>
          in (case call of None \<Rightarrow> (None, repo) | Some c \<Rightarrow> ip_reader_called c repo)))"

definition DeviceRepository_Tick ::
  "u64 \<Rightarrow> DeviceRepository \<Rightarrow> nl_env \<Rightarrow> devices option \<times> DeviceRepository \<times> nl_env" where
  "DeviceRepository_Tick delta_seconds repo env =
     (if device_reader repo = None \<or> ip_reader repo = None then (None, repo, env)
      else
        let (repo, env) = tick_device_reader delta_seconds repo env;
            (sync, repo) = tick_ip_reader delta_seconds repo
        in if int_cast delta_seconds < sync_timeout repo
           then (sync, repo\<lparr>sync_timeout := sync_timeout repo - int_cast delta_seconds\<rparr>, env)
           else
             let (repo, env) = RequestDeviceDump (repo\<lparr>sync_timeout := 0\<rparr>) env
             in (sync, ScheduleResync repo, env))"

text \<open>The constructor, with the callbacks \<open>BindCallbacks\<close> sets on the readers and the monitor.\<close>

definition DeviceRepository_new ::
  "NetlinkSocket option \<Rightarrow> DeviceReader option \<Rightarrow> IpReader option \<Rightarrow> DeviceRepository" where
  "DeviceRepository_new monitor_socket dr ir =
     \<lparr>sync_timeout = - 1,
      monitor = map_option (callback_set_update (\<lambda>_. True)) monitor_socket,
      device_reader = map_option (\<lambda>r. r\<lparr>dr_update_set := True, dr_end_set := True, dr_errored_set := True\<rparr>) dr,
      ip_reader = map_option (\<lambda>r. r\<lparr>ir_update_set := True, ir_end_set := True, ir_errored_set := True\<rparr>) ir,
      devices = [], synchronization_callback_set = False\<rparr>"

subsection \<open>Runs\<close>

datatype repository_event =
  Clock_tick u64
| Monitor_packet NetlinkPacketView
| Device_packet NetlinkPacketView
| Address_packet NetlinkPacketView

fun repository_step ::
  "repository_event \<Rightarrow> DeviceRepository \<times> nl_env \<Rightarrow> devices option \<times> DeviceRepository \<times> nl_env" where
  "repository_step (Clock_tick d) (repo, env) = DeviceRepository_Tick d repo env"
| "repository_step (Monitor_packet p) (repo, env) = (None, HandleMonitorPackets p repo, env)"
| "repository_step (Device_packet p) (repo, env) = (None, device_packet p repo env)"
| "repository_step (Address_packet p) (repo, env) =
     (case ip_packet p repo of (sync, repo) \<Rightarrow> (sync, repo, env))"

text \<open>The maps handed to the synchronisation callback, in order, and the state at the end.\<close>

fun repository_run ::
  "repository_event list \<Rightarrow> DeviceRepository \<times> nl_env \<Rightarrow> devices list \<times> DeviceRepository \<times> nl_env" where
  "repository_run [] p = ([], p)"
| "repository_run (e # es) p =
     (case repository_step e p of (sync, p) \<Rightarrow> case repository_run es p of (syncs, p) \<Rightarrow>
        (case sync of None \<Rightarrow> syncs | Some ds \<Rightarrow> ds # syncs, p))"

subsection \<open>What the operations leave alone\<close>

lemma Request_keeps [simp]:
  "devices (fst (RequestDeviceDump repo env)) = devices repo"
  "devices (fst (RequestIpDump repo env)) = devices repo"
  "sync_timeout (fst (RequestIpDump repo env)) = sync_timeout repo"
  "device_reader (fst (RequestIpDump repo env)) = device_reader repo"
  "ip_reader (fst (RequestDeviceDump repo env)) = ip_reader repo"
  "synchronization_callback_set (fst (RequestDeviceDump repo env)) = synchronization_callback_set repo"
  "synchronization_callback_set (fst (RequestIpDump repo env)) = synchronization_callback_set repo"
  by (simp_all add: RequestDeviceDump_def RequestIpDump_def split: option.splits prod.splits)

lemma Schedule_simps [simp]:
  "devices (ScheduleResync repo) = devices repo" "devices (ScheduleExpediteResync repo) = devices repo"
  "device_reader (ScheduleResync repo) = device_reader repo"
  "device_reader (ScheduleExpediteResync repo) = device_reader repo"
  "ip_reader (ScheduleResync repo) = ip_reader repo"
  "ip_reader (ScheduleExpediteResync repo) = ip_reader repo"
  "sync_timeout (ScheduleResync repo) = 120" "sync_timeout (ScheduleExpediteResync repo) = 2"
  "synchronization_callback_set (ScheduleResync repo) = synchronization_callback_set repo"
  "synchronization_callback_set (ScheduleExpediteResync repo) = synchronization_callback_set repo"
  by (simp_all add: ScheduleResync_def ScheduleExpediteResync_def DEVICE_REPOSITORY_SYNC_TIMEOUT_def
      DEVICE_REPOSITORY_EXPEDITE_TIMEOUT_def)

subsection \<open>What is recorded about a device\<close>

definition devices_inv :: "devices \<Rightarrow> bool" where
  "devices_inv ds \<longleftrightarrow> om_inv ds \<and> (\<forall>k d. om_find ds k = Some d \<longrightarrow> if_index d = k \<and> device_wf d)"

text \<open>Nothing known of the first device is unknown of the second.\<close>

definition remembers :: "DeviceData \<Rightarrow> DeviceData \<Rightarrow> bool" where
  "remembers d d' \<longleftrightarrow>
     (mac_address d \<noteq> None \<longrightarrow> mac_address d' \<noteq> None) \<and>
     (ipv4_address d \<noteq> None \<longrightarrow> ipv4_address d' \<noteq> None) \<and>
     (ipv6_address d \<noteq> None \<longrightarrow> ipv6_address d' \<noteq> None) \<and>
     (interface_name d \<noteq> None \<longrightarrow> interface_name d' \<noteq> None)"

definition knows_all_of :: "devices \<Rightarrow> devices \<Rightarrow> bool" where
  "knows_all_of ds' ds \<longleftrightarrow>
     (\<forall>k d. om_find ds k = Some d \<longrightarrow> (\<exists>d'. om_find ds' k = Some d' \<and> remembers d d'))"

lemma remembers_refl [simp]: "remembers d d"
  by (simp add: remembers_def)

lemma remembers_trans: "remembers a b \<Longrightarrow> remembers b c \<Longrightarrow> remembers a c"
  by (simp add: remembers_def)

lemma knows_all_of_refl [simp]: "knows_all_of ds ds"
  by (simp add: knows_all_of_def)

lemma knows_all_of_trans: "knows_all_of c b \<Longrightarrow> knows_all_of b a \<Longrightarrow> knows_all_of c a"
  unfolding knows_all_of_def by (meson remembers_trans)

lemma devices_inv_Nil [simp]: "devices_inv []"
  by (simp add: devices_inv_def)

lemma devices_inv_at: "devices_inv ds \<Longrightarrow> device_wf (om_at DeviceData_default ds k)"
  by (simp add: devices_inv_def om_at_find split: option.split)

text \<open>The contract of the two handlers: they assign at most one device, without forgetting anything.\<close>

locale device_recorder =
  fixes record_message :: "'m \<Rightarrow> devices \<Rightarrow> devices"
  assumes records: "record_message m ds = ds \<or>
      (\<exists>k d. record_message m ds = om_put k d ds \<and> if_index d = k \<and>
         remembers (om_at DeviceData_default ds k) d \<and>
         (device_wf (om_at DeviceData_default ds k) \<longrightarrow> device_wf d))"
begin

lemma inv: "devices_inv ds \<Longrightarrow> devices_inv (record_message m ds)"
  using records [of m ds] devices_inv_at [of ds]
  by (auto simp: devices_inv_def om_inv_put split: if_splits)

lemma knows: "devices_inv ds \<Longrightarrow> knows_all_of (record_message m ds) ds"
  using records [of m ds]
  by (auto simp: knows_all_of_def devices_inv_def om_at_find)

lemma inv_fold: "devices_inv ds \<Longrightarrow> devices_inv (fold record_message ms ds)"
  by (induction ms arbitrary: ds) (simp_all add: inv)

end

lemma apply_link_attribute_keeps:
  "if_index (apply_link_attribute a d) = if_index d"
  "device_operational (apply_link_attribute a d) = device_operational d"
  "ipv4_address (apply_link_attribute a d) = ipv4_address d"
  "ipv6_address (apply_link_attribute a d) = ipv6_address d"
  "remembers d (apply_link_attribute a d)"
  "device_wf d \<Longrightarrow> device_wf (apply_link_attribute a d)"
  by (auto simp: apply_link_attribute_def remembers_def device_wf_def)

lemma apply_address_attribute_keeps:
  "if_index (apply_address_attribute f a d) = if_index d"
  "device_operational (apply_address_attribute f a d) = device_operational d"
  "mac_address (apply_address_attribute f a d) = mac_address d"
  "interface_name (apply_address_attribute f a d) = interface_name d"
  "remembers d (apply_address_attribute f a d)"
  "device_wf d \<Longrightarrow> device_wf (apply_address_attribute f a d)"
  by (auto simp: apply_address_attribute_def remembers_def device_wf_def)

lemma fold_link_attributes_keeps:
  "if_index (fold apply_link_attribute as d) = if_index d \<and>
   device_operational (fold apply_link_attribute as d) = device_operational d \<and>
   ipv4_address (fold apply_link_attribute as d) = ipv4_address d \<and>
   ipv6_address (fold apply_link_attribute as d) = ipv6_address d \<and>
   remembers d (fold apply_link_attribute as d) \<and>
   (device_wf d \<longrightarrow> device_wf (fold apply_link_attribute as d))"
proof (induction as arbitrary: d)
  case (Cons a as)
  then show ?case
    using apply_link_attribute_keeps [where a = a and d = d] remembers_trans [of d "apply_link_attribute a d"] by simp
qed simp

lemma fold_address_attributes_keeps:
  "if_index (fold (apply_address_attribute f) as d) = if_index d \<and>
   device_operational (fold (apply_address_attribute f) as d) = device_operational d \<and>
   mac_address (fold (apply_address_attribute f) as d) = mac_address d \<and>
   interface_name (fold (apply_address_attribute f) as d) = interface_name d \<and>
   remembers d (fold (apply_address_attribute f) as d) \<and>
   (device_wf d \<longrightarrow> device_wf (fold (apply_address_attribute f) as d))"
proof (induction as arbitrary: d)
  case (Cons a as)
  then show ?case
    using apply_address_attribute_keeps [where f = f and a = a and d = d] remembers_trans [of d "apply_address_attribute f a d"] by simp
qed simp

lemma HandleAddressPacket_eq:
  "HandleAddressPacket (h, i, as) ds =
     (if nlmsg_type h = RTM_NEWADDR \<and> (ifa_family i = AF_INET \<or> ifa_family i = AF_INET6) \<and>
         ifa_flags i AND IFA_F_SECONDARY = 0
      then om_put (ifa_index i) (fold (apply_address_attribute (ifa_family i)) as
             ((om_at DeviceData_default ds (ifa_index i))\<lparr>if_index := ifa_index i\<rparr>)) ds
      else ds)"
  by (simp add: HandleAddressPacket_def Let_def del: disj_not1)

lemma recorder_put:
  "if_index d = k \<Longrightarrow> remembers (om_at DeviceData_default ds k) d \<Longrightarrow>
   (device_wf (om_at DeviceData_default ds k) \<Longrightarrow> device_wf d) \<Longrightarrow>
   \<exists>j e. om_put k d ds = om_put j e ds \<and> if_index e = j \<and> remembers (om_at DeviceData_default ds j) e \<and>
     (device_wf (om_at DeviceData_default ds j) \<longrightarrow> device_wf e)"
  by (intro exI [of _ k] exI [of _ d]) simp

interpretation link: device_recorder HandleLinkPacket
proof
  fix m :: link_message and ds :: devices
  obtain h i as where m: "m = (h, i, as)" by (cases m)
  let ?d = "om_at DeviceData_default ds (ifi_index i)"
  let ?d' = "?d\<lparr>if_index := ifi_index i, device_operational := ifi_flags i AND IFF_UP \<noteq> 0 \<and>
               ifi_flags i AND IFF_LOWER_UP \<noteq> 0\<rparr>"
  have "remembers ?d ?d'" "device_wf ?d \<Longrightarrow> device_wf ?d'" by (simp_all add: remembers_def device_wf_def)
  then show "HandleLinkPacket m ds = ds \<or>
      (\<exists>k d. HandleLinkPacket m ds = om_put k d ds \<and> if_index d = k \<and>
         remembers (om_at DeviceData_default ds k) d \<and>
         (device_wf (om_at DeviceData_default ds k) \<longrightarrow> device_wf d))"
    using fold_link_attributes_keeps [of as ?d'] remembers_trans [of ?d ?d' "fold apply_link_attribute as ?d'"]
      recorder_put [of "fold apply_link_attribute as ?d'" "ifi_index i" ds]
    by (simp add: HandleLinkPacket_def m Let_def)
qed

interpretation addr: device_recorder HandleAddressPacket
proof
  fix m :: addr_message and ds :: devices
  obtain h i as where m: "m = (h, i, as)" by (cases m)
  let ?d = "om_at DeviceData_default ds (ifa_index i)"
  let ?d' = "?d\<lparr>if_index := ifa_index i\<rparr>"
  have "remembers ?d ?d'" "device_wf ?d \<Longrightarrow> device_wf ?d'" by (simp_all add: remembers_def device_wf_def)
  then show "HandleAddressPacket m ds = ds \<or>
      (\<exists>k d. HandleAddressPacket m ds = om_put k d ds \<and> if_index d = k \<and>
         remembers (om_at DeviceData_default ds k) d \<and>
         (device_wf (om_at DeviceData_default ds k) \<longrightarrow> device_wf d))"
    using fold_address_attributes_keeps [of "ifa_family i" as ?d'] remembers_trans [of ?d ?d' "fold (apply_address_attribute (ifa_family i)) as ?d'"]
      recorder_put [of "fold (apply_address_attribute (ifa_family i)) as ?d'" "ifa_index i" ds]
    by (simp add: HandleAddressPacket_eq m)
qed

subsection \<open>Steps and the device map\<close>

lemma device_reader_called_devices:
  "devices (fst (device_reader_called c repo env)) =
     (case c of Update_callback link \<Rightarrow> HandleLinkPacket link (devices repo) | _ \<Rightarrow> devices repo)"
  by (cases c) simp_all

lemma ip_reader_called_devices:
  "devices (snd (ip_reader_called c repo)) =
     (case c of Update_callback addr \<Rightarrow> HandleAddressPacket addr (devices repo) | _ \<Rightarrow> devices repo)"
  by (cases c) simp_all

lemma tick_devices [simp]:
  "devices (fst (tick_device_reader d repo env)) = devices repo"
  "devices (snd (tick_ip_reader d repo)) = devices repo"
  by (auto simp: tick_device_reader_def tick_ip_reader_def Let_def DeviceReader_Tick_def IpReader_Tick_def
      split: option.splits prod.splits if_splits)

lemma device_packet_devices:
  "devices (fst (device_packet p repo env)) = devices repo \<or>
   (\<exists>m. devices (fst (device_packet p repo env)) = HandleLinkPacket m (devices repo))"
  by (auto simp: device_packet_def Let_def device_reader_called_devices
      split: option.split prod.split reader_callback.split)

lemma ip_packet_devices:
  "devices (snd (ip_packet p repo)) = devices repo \<or>
   (\<exists>m. devices (snd (ip_packet p repo)) = HandleAddressPacket m (devices repo))"
  by (auto simp: ip_packet_def Let_def ip_reader_called_devices
      split: option.split prod.split reader_callback.split)

lemma repository_step_devices:
  obtains "devices (fst (snd (repository_step e (repo, env)))) = devices repo"
  | m where "devices (fst (snd (repository_step e (repo, env)))) = HandleLinkPacket m (devices repo)"
  | m where "devices (fst (snd (repository_step e (repo, env)))) = HandleAddressPacket m (devices repo)"
proof (cases e)
  case (Clock_tick d)
  then show thesis
    using that(1) by (simp add: DeviceRepository_Tick_def Let_def case_prod_beta split: if_splits)
next
  case (Monitor_packet p)
  then show thesis using that(1) by (simp add: HandleMonitorPackets_def)
next
  case (Device_packet p)
  then show thesis using that(1,2) device_packet_devices [of p repo env] by auto
next
  case (Address_packet p)
  then show thesis using that(1,3) ip_packet_devices [of p repo] by (auto simp: case_prod_beta)
qed

lemma repository_step_knows:
  "devices_inv (devices repo) \<Longrightarrow>
   devices_inv (devices (fst (snd (repository_step e (repo, env))))) \<and>
   knows_all_of (devices (fst (snd (repository_step e (repo, env))))) (devices repo)"
  by (rule repository_step_devices [of e repo env]) (simp_all add: link.inv link.knows addr.inv addr.knows)

lemma repository_run_knows:
  "devices_inv (devices (fst p)) \<Longrightarrow>
   devices_inv (devices (fst (snd (repository_run es p)))) \<and>
   knows_all_of (devices (fst (snd (repository_run es p)))) (devices (fst p))"
proof (induction es arbitrary: p)
  case (Cons e es)
  have "devices_inv (devices (fst (snd (repository_step e p)))) \<and>
      knows_all_of (devices (fst (snd (repository_step e p)))) (devices (fst p))"
    using repository_step_knows [of "fst p" e "snd p"] Cons.prems by simp
  then show ?case
    using Cons.IH [of "snd (repository_step e p)"] knows_all_of_trans by (auto simp: case_prod_beta)
qed simp

text \<open>Every map handed to the callback is the device map at some point of the run.\<close>

lemma ip_packet_sync:
  "fst (ip_packet p repo) = Some ds \<Longrightarrow> ds = devices repo \<and> devices (snd (ip_packet p repo)) = devices repo"
proof -
  have "fst (ip_reader_called c r) = Some ds \<Longrightarrow> ds = devices r \<and> devices (snd (ip_reader_called c r)) = devices r"
    for c r by (cases c) (auto split: if_splits)
  then show "fst (ip_packet p repo) = Some ds \<Longrightarrow> ?thesis"
    by (fastforce simp: ip_packet_def Let_def split: option.splits prod.splits)
qed

lemma tick_ip_no_sync [simp]: "fst (tick_ip_reader d repo) = None"
  by (auto simp: tick_ip_reader_def IpReader_Tick_def Let_def split: option.splits prod.splits if_splits)

lemma repository_step_sync:
  "fst (repository_step e p) = Some ds \<Longrightarrow>
   ds = devices (fst p) \<and> devices (fst (snd (repository_step e p))) = devices (fst p)"
proof (cases e)
  case (Clock_tick d)
  then show "fst (repository_step e p) = Some ds \<Longrightarrow> ?thesis"
    by (cases p) (simp add: DeviceRepository_Tick_def Let_def case_prod_beta split: if_splits)
next
  case (Address_packet q)
  then show "fst (repository_step e p) = Some ds \<Longrightarrow> ?thesis"
    using ip_packet_sync [of q "fst p" ds] by (cases p) (auto simp: case_prod_beta)
qed (cases p; simp)+

subsection \<open>When the next dump is requested\<close>

definition link_dump_running :: "DeviceRepository \<Rightarrow> bool" where
  "link_dump_running repo \<longleftrightarrow> (case device_reader repo of None \<Rightarrow> False | Some r \<Rightarrow> dr_sequence_number r \<noteq> None)"

definition addr_dump_running :: "DeviceRepository \<Rightarrow> bool" where
  "addr_dump_running repo \<longleftrightarrow> (case ip_reader repo of None \<Rightarrow> False | Some r \<Rightarrow> ir_sequence_number r \<noteq> None)"

text \<open>The socket link dumps are requested on.\<close>

definition link_dump_fd :: "DeviceRepository \<Rightarrow> int option" where
  "link_dump_fd repo = Option.bind (device_reader repo) (\<lambda>r. map_option socket_fd (dr_socket r))"

definition link_dump_requests :: "nl_env \<Rightarrow> nat" where
  "link_dump_requests env = length (filter (\<lambda>(_, request). le16 request 4 = RTM_GETLINK) (nl_requests env))"

definition can_request :: "DeviceRepository \<Rightarrow> bool" where
  "can_request repo \<longleftrightarrow> pred_option (\<lambda>fd. 0 \<le> fd) (link_dump_fd repo) \<and> link_dump_fd repo \<noteq> None \<and>
     ip_reader repo \<noteq> None"

text \<open>An upper bound on the seconds until the next request: a dump in progress can fail once, and a
  link dump can be followed by an address dump, which can fail too.\<close>

definition patience :: "DeviceRepository \<Rightarrow> int" where
  "patience repo = max 0 (sync_timeout repo) + (if link_dump_running repo then 4 else 0)
     + (if addr_dump_running repo then 2 else 0)"

lemmas patience_defs = patience_def link_dump_running_def addr_dump_running_def can_request_def link_dump_fd_def

lemma request_types [simp]:
  "le16 (link_dump_request pid seq) 4 = RTM_GETLINK" "le16 (addr_dump_request pid seq) 4 = RTM_GETADDR"
  by (simp_all add: link_dump_request_def addr_dump_request_def nlmsghdr_bytes_def as_bytes32_def
      as_bytes16_def le16_def)

lemma RequestIpDump_effect:
  "patience (fst (RequestIpDump repo env)) \<le> max 0 (sync_timeout repo) + (if link_dump_running repo then 4 else 0) + 2"
  "can_request (fst (RequestIpDump repo env)) = can_request repo"
  "link_dump_requests (snd (RequestIpDump repo env)) = link_dump_requests env"
  by (auto simp: RequestIpDump_def IpReader_TriggerDump_def SendGetAddrMessage_def patience_defs Let_def
      link_dump_requests_def RTM_GETLINK_def RTM_GETADDR_def split: option.splits prod.splits sum.splits)

lemma RequestDeviceDump_effect:
  assumes "can_request repo"
  shows "link_dump_requests (snd (RequestDeviceDump repo env)) = Suc (link_dump_requests env)"
    and "can_request (fst (RequestDeviceDump repo env))"
  using assms
  by (auto simp: RequestDeviceDump_def DeviceReader_TriggerDump_def SendGetLinkDumpMessage_def Let_def
      can_request_def link_dump_fd_def link_dump_requests_def bind_eq_Some_conv
      split: option.splits prod.splits sum.splits)

lemma tick_device_reader_effect:
  "patience (fst (tick_device_reader d repo env)) \<le> patience repo"
  "can_request (fst (tick_device_reader d repo env)) = can_request repo"
  "snd (tick_device_reader d repo env) = env"
  by (auto simp: tick_device_reader_def device_reader_defs patience_defs ScheduleExpediteResync_def
      DEVICE_REPOSITORY_EXPEDITE_TIMEOUT_def split: option.splits prod.splits if_splits)

lemma tick_ip_reader_effect:
  "patience (snd (tick_ip_reader d repo)) \<le> patience repo"
  "can_request (snd (tick_ip_reader d repo)) = can_request repo"
  by (auto simp: tick_ip_reader_def ip_reader_defs patience_defs ScheduleExpediteResync_def
      DEVICE_REPOSITORY_EXPEDITE_TIMEOUT_def split: option.splits prod.splits if_splits)

lemma ip_packet_effect:
  "patience (snd (ip_packet p repo)) \<le> patience repo"
  "can_request (snd (ip_packet p repo)) = can_request repo"
proof -
  have "patience (snd (ip_packet p repo)) \<le> patience repo \<and>
      can_request (snd (ip_packet p repo)) = can_request repo"
  proof (cases "ip_reader repo")
    case (Some r)
    show ?thesis
    proof (cases "ir_sequence_number r = Some (view_seq p)")
      case True
      then show ?thesis
        using Some by (cases p) (simp_all add: ip_packet_def ip_reader_defs patience_defs
            ScheduleExpediteResync_def DEVICE_REPOSITORY_EXPEDITE_TIMEOUT_def max_def)
    next
      case False
      then have "IpReader_HandleNetlinkPacket p r = (None, r)"
        by (auto simp: IpReader_HandleNetlinkPacket_def split: option.splits)
      then show ?thesis using Some by (simp add: ip_packet_def patience_defs)
    qed
  qed (simp add: ip_packet_def)
  then show "patience (snd (ip_packet p repo)) \<le> patience repo"
    "can_request (snd (ip_packet p repo)) = can_request repo" by simp_all
qed

lemma can_request_simps [simp]:
  "can_request (ScheduleExpediteResync repo) = can_request repo"
  "can_request (repo\<lparr>devices := ds\<rparr>) = can_request repo"
  "can_request (repo\<lparr>sync_timeout := t\<rparr>) = can_request repo"
  by (simp_all add: can_request_def link_dump_fd_def)

lemma device_packet_effect:
  "patience (fst (device_packet p repo env)) \<le> patience repo"
  "can_request (fst (device_packet p repo env)) = can_request repo"
  "link_dump_requests (snd (device_packet p repo env)) = link_dump_requests env"
proof -
  have ended: "(if link_dump_running (repo\<lparr>device_reader := Some (DeviceReader_ResetDumpAttempt r)\<rparr>) then 4 else 0) = (0::int)"
    for r by (simp add: link_dump_running_def DeviceReader_ResetDumpAttempt_def)
  have same: "can_request (repo\<lparr>device_reader := Some (DeviceReader_ResetDumpAttempt r)\<rparr>) = can_request repo"
    if "device_reader repo = Some r" for r
    using that by (simp add: can_request_def link_dump_fd_def DeviceReader_ResetDumpAttempt_def)
  show "patience (fst (device_packet p repo env)) \<le> patience repo"
  proof (cases "device_reader repo")
    case (Some r)
    show ?thesis
    proof (cases p)
      case (DoneView h e)
      let ?repo = "repo\<lparr>device_reader := Some (DeviceReader_ResetDumpAttempt r)\<rparr>"
      show ?thesis
        using RequestIpDump_effect(1) [of ?repo env] ended [of r] Some DoneView
        by (auto simp: device_packet_def DeviceReader_HandleNetlinkPacket_def Let_def patience_defs
            DeviceReader_ResetDumpAttempt_def split: option.splits if_splits)
    qed (use Some in \<open>auto simp: device_packet_def device_reader_defs patience_defs
        ScheduleExpediteResync_def DEVICE_REPOSITORY_EXPEDITE_TIMEOUT_def split: option.splits if_splits\<close>)
  qed (simp add: device_packet_def)
  show "can_request (fst (device_packet p repo env)) = can_request repo"
  proof (cases "device_reader repo")
    case (Some r)
    then have "can_request (repo\<lparr>device_reader := Some r\<rparr>) = can_request repo"
      by (simp add: can_request_def link_dump_fd_def)
    then show ?thesis
      using same [OF Some] Some
      by (cases p) (simp_all add: device_packet_def DeviceReader_HandleNetlinkPacket_def Let_def
          RequestIpDump_effect(2) split: option.split)
  qed (simp add: device_packet_def)
  show "link_dump_requests (snd (device_packet p repo env)) = link_dump_requests env"
    using RequestIpDump_effect(3)
    by (cases "device_reader repo"; cases p)
      (auto simp: device_packet_def DeviceReader_HandleNetlinkPacket_def Let_def
        split: option.splits if_splits)
qed

text \<open>Without monitor packets, every step either requests a link dump or brings it closer.\<close>

fun elapsed_seconds :: "repository_event \<Rightarrow> nat" where
  "elapsed_seconds (Clock_tick d) = unat d"
| "elapsed_seconds _ = 0"

fun tick_in_range :: "repository_event \<Rightarrow> bool" where
  "tick_in_range (Clock_tick d) \<longleftrightarrow> uint d < 2 ^ 31"
| "tick_in_range _ \<longleftrightarrow> True"

fun is_monitor_packet :: "repository_event \<Rightarrow> bool" where
  "is_monitor_packet (Monitor_packet _) \<longleftrightarrow> True"
| "is_monitor_packet _ \<longleftrightarrow> False"

lemma DeviceRepository_Tick_progress:
  assumes "can_request repo" "uint d < 2 ^ 31"
  shows "let (repo', env') = snd (DeviceRepository_Tick d repo env) in can_request repo' \<and>
    (link_dump_requests env' = Suc (link_dump_requests env) \<or>
     link_dump_requests env' = link_dump_requests env \<and> patience repo' + int (unat d) \<le> patience repo)"
proof -
  have present: "device_reader repo \<noteq> None" "ip_reader repo \<noteq> None"
    using assms(1) by (auto simp: can_request_def link_dump_fd_def bind_eq_Some_conv)
  define repo1 where "repo1 = fst (tick_device_reader d repo env)"
  define repo2 where "repo2 = snd (tick_ip_reader d repo1)"
  have tick: "snd (DeviceRepository_Tick d repo env) =
      (if int_cast d < sync_timeout repo2
       then (repo2\<lparr>sync_timeout := sync_timeout repo2 - int_cast d\<rparr>, env)
       else (ScheduleResync (fst (RequestDeviceDump (repo2\<lparr>sync_timeout := 0\<rparr>) env)),
             snd (RequestDeviceDump (repo2\<lparr>sync_timeout := 0\<rparr>) env)))"
    using present tick_device_reader_effect(3) [of d repo env]
    by (auto simp: DeviceRepository_Tick_def Let_def case_prod_beta repo1_def repo2_def)
  have "can_request repo2"
    using assms(1) tick_device_reader_effect(2) tick_ip_reader_effect(2) by (simp add: repo1_def repo2_def)
  moreover have "patience repo2 \<le> patience repo"
    using tick_device_reader_effect(1) [of d repo env] tick_ip_reader_effect(1) [of d repo1]
    by (simp add: repo1_def repo2_def)
  moreover have "int_cast d = int (unat d)" using assms(2) by (simp add: int_cast_small)
  moreover have "patience (repo2\<lparr>sync_timeout := sync_timeout repo2 - int_cast d\<rparr>) + int (unat d) = patience repo2"
    if "int (unat d) < sync_timeout repo2"
    using that \<open>int_cast d = int (unat d)\<close> order_trans [OF of_nat_0_le_iff less_imp_le [OF that]]
    by (simp add: max_def patience_def link_dump_running_def addr_dump_running_def)
  moreover have "can_request (ScheduleResync r) = can_request r" for r
    by (simp add: can_request_def link_dump_fd_def)
  ultimately show ?thesis
    unfolding tick using RequestDeviceDump_effect [of "repo2\<lparr>sync_timeout := 0\<rparr>" env]
    by (auto simp: Let_def case_prod_beta)
qed

lemma repository_step_progress:
  assumes "can_request (fst p)" "tick_in_range e" "\<not> is_monitor_packet e"
  shows "let (repo', env') = snd (repository_step e p) in can_request repo' \<and>
    (link_dump_requests env' = Suc (link_dump_requests (snd p)) \<or>
     link_dump_requests env' = link_dump_requests (snd p) \<and>
       patience repo' + int (elapsed_seconds e) \<le> patience (fst p))"
  using assms
  by (cases "(e, p)" rule: repository_step.cases)
    (auto simp: Let_def case_prod_beta ip_packet_effect device_packet_effect
      dest: DeviceRepository_Tick_progress [where env = "snd p"])

lemma repository_run_progress:
  assumes "can_request (fst p)" "list_all (\<lambda>e. tick_in_range e \<and> \<not> is_monitor_packet e) es"
  shows "let (repo', env') = snd (repository_run es p) in
    link_dump_requests (snd p) < link_dump_requests env' \<or>
    link_dump_requests env' = link_dump_requests (snd p) \<and>
      patience repo' + int (sum_list (map elapsed_seconds es)) \<le> patience (fst p)"
  using assms
proof (induction es arbitrary: p)
  case (Cons e es)
  have "let (repo', env') = snd (repository_step e p) in can_request repo' \<and>
    (link_dump_requests env' = Suc (link_dump_requests (snd p)) \<or>
     link_dump_requests env' = link_dump_requests (snd p) \<and>
       patience repo' + int (elapsed_seconds e) \<le> patience (fst p))"
    using repository_step_progress [of p e] Cons.prems by simp
  then show ?case
    using Cons.IH [of "snd (repository_step e p)"] Cons.prems by (auto simp: Let_def case_prod_beta)
qed (simp add: case_prod_beta)

lemma patience_bound: "0 \<le> patience repo" "sync_timeout repo \<le> 120 \<Longrightarrow> patience repo \<le> 126"
  by (auto simp: patience_def)

subsection \<open>A synchronisation round\<close>

lemma repository_run_append:
  "repository_run (xs @ ys) p =
     (fst (repository_run xs p) @ fst (repository_run ys (snd (repository_run xs p))),
      snd (repository_run ys (snd (repository_run xs p))))"
  by (induction xs arbitrary: p) (simp_all add: case_prod_beta split: option.split)

fun link_packet :: "link_message \<Rightarrow> repository_event" where
  "link_packet (h, i, attributes) = Device_packet (LinkView h i attributes)"

fun addr_packet :: "addr_message \<Rightarrow> repository_event" where
  "addr_packet (h, i, attributes) = Address_packet (AddrView h i attributes)"

lemma set_same_reader:
  "device_reader repo = Some r \<Longrightarrow> repo\<lparr>device_reader := Some r\<rparr> = repo"
  "ip_reader repo = Some q \<Longrightarrow> repo\<lparr>ip_reader := Some q\<rparr> = repo"
  by (cases repo; simp)+

lemma run_link_packets:
  assumes "device_reader repo = Some r" "dr_sequence_number r = Some s" "DeviceReader_bound r"
    and "list_all (\<lambda>(h, _). nlmsg_seq h = s) links"
  shows "repository_run (map link_packet links) (repo, env) =
     ([], repo\<lparr>devices := fold HandleLinkPacket links (devices repo)\<rparr>, env)"
  using assms
proof (induction links arbitrary: repo)
  case (Cons l links)
  obtain h i as where l: "l = (h, i, as)" by (cases l)
  have "repository_step (link_packet l) (repo, env) =
      (None, repo\<lparr>devices := HandleLinkPacket l (devices repo)\<rparr>, env)"
    using Cons.prems
    by (simp add: l device_packet_def DeviceReader_HandleNetlinkPacket_def DeviceReader_bound_def
        set_same_reader)
  then show ?case
    using Cons.IH [of "repo\<lparr>devices := HandleLinkPacket l (devices repo)\<rparr>"] Cons.prems by simp
qed simp

lemma run_addr_packets:
  assumes "ip_reader repo = Some r" "ir_sequence_number r = Some s" "IpReader_bound r"
    and "list_all (\<lambda>(h, _). nlmsg_seq h = s) addrs"
  shows "repository_run (map addr_packet addrs) (repo, env) =
     ([], repo\<lparr>devices := fold HandleAddressPacket addrs (devices repo)\<rparr>, env)"
  using assms
proof (induction addrs arbitrary: repo)
  case (Cons l addrs)
  obtain h i as where l: "l = (h, i, as)" by (cases l)
  have "repository_step (addr_packet l) (repo, env) =
      (None, repo\<lparr>devices := HandleAddressPacket l (devices repo)\<rparr>, env)"
    using Cons.prems
    by (simp add: l ip_packet_def IpReader_HandleNetlinkPacket_def IpReader_bound_def
        set_same_reader)
  then show ?case
    using Cons.IH [of "repo\<lparr>devices := HandleAddressPacket l (devices repo)\<rparr>"] Cons.prems by simp
qed simp

text \<open>The end of the link dump starts the address dump.\<close>

lemma link_dump_done:
  assumes "device_reader repo = Some r" "dr_sequence_number r = Some (nlmsg_seq h)" "DeviceReader_bound r"
    and "ip_reader repo = Some q" "ir_socket q = Some sock" "0 \<le> socket_fd sock"
    and "24 \<le> nl_send_outcome env (length (nl_requests env))"
  shows "\<exists>q' repo' env'. repository_run [Device_packet (DoneView h e)] (repo, env) = ([], repo', env') \<and>
     ip_reader repo' = Some q' \<and> ir_sequence_number q' = Some (sequence_number sock + 1) \<and>
     IpReader_bound q' = IpReader_bound q \<and> devices repo' = devices repo \<and>
     synchronization_callback_set repo' = synchronization_callback_set repo"
  using assms
  by (simp add: device_packet_def DeviceReader_HandleNetlinkPacket_def DeviceReader_bound_def Let_def
      DeviceReader_ResetDumpAttempt_def RequestIpDump_def IpReader_TriggerDump_def SendGetAddrMessage_def addr_dump_request_def IpReader_bound_def)

lemma addr_dump_done:
  assumes "ip_reader repo = Some r" "ir_sequence_number r = Some (nlmsg_seq h)" "IpReader_bound r"
    and "synchronization_callback_set repo"
  shows "fst (repository_run [Address_packet (DoneView h e)] (repo, env)) = [devices repo]"
  using assms
  by (simp add: ip_packet_def IpReader_HandleNetlinkPacket_def IpReader_ResetDumpAttempt_def IpReader_bound_def
      Let_def case_prod_beta)

subsection \<open>What the attributes of a message say\<close>

text \<open>The value of the last attribute of a message that fits, or what was known before.\<close>

definition last_fitting :: "u16 \<Rightarrow> nat \<Rightarrow> TLVView list \<Rightarrow> bytes option \<Rightarrow> bytes option" where
  "last_fitting ty sz attributes known =
     (case filter (\<lambda>a. rta_type a = ty \<and> length (attr_value a) = sz) attributes of
        [] \<Rightarrow> known | fitting \<Rightarrow> Some (attr_value (last fitting)))"

lemma last_fitting_Cons:
  "last_fitting ty sz (a # as) known =
     last_fitting ty sz as
       (if rta_type a = ty \<and> length (attr_value a) = sz then Some (attr_value a) else known)"
  by (auto simp: last_fitting_def split: list.split)

lemma last_fitting_Nil [simp]: "last_fitting ty sz [] known = known"
  by (simp add: last_fitting_def)

lemma fold_link_mac:
  "mac_address (fold apply_link_attribute as d) = last_fitting IFLA_ADDRESS ETH_ALEN as (mac_address d)"
  by (induction as arbitrary: d)
    (simp_all add: last_fitting_Cons apply_link_attribute_def IFLA_ADDRESS_def IFLA_IFNAME_def)

lemma fold_address_ips:
  "ipv4_address (fold (apply_address_attribute AF_INET) as d) =
     last_fitting IFA_ADDRESS sizeof_in_addr as (ipv4_address d)"
  "ipv6_address (fold (apply_address_attribute AF_INET) as d) = ipv6_address d"
  "ipv6_address (fold (apply_address_attribute AF_INET6) as d) =
     last_fitting IFA_ADDRESS sizeof_in6_addr as (ipv6_address d)"
  "ipv4_address (fold (apply_address_attribute AF_INET6) as d) = ipv4_address d"
  by (induction as arbitrary: d)
    (simp_all add: last_fitting_Cons apply_address_attribute_def AF_INET_def AF_INET6_def)

text \<open>The starvation of the resynchronisation by a monitor packet every second.\<close>

lemma idle_ticks:
  "device_reader repo = Some r \<Longrightarrow> dr_sequence_number r = None \<Longrightarrow>
     tick_device_reader d repo env = (repo, env)"
  "ip_reader repo = Some q \<Longrightarrow> ir_sequence_number q = None \<Longrightarrow> tick_ip_reader d repo = (None, repo)"
  by (simp_all add: tick_device_reader_def tick_ip_reader_def DeviceReader_Tick_def IpReader_Tick_def
      set_same_reader)

lemma postponed_second:
  assumes "device_reader repo = Some r" "dr_sequence_number r = None"
    and "ip_reader repo = Some q" "ir_sequence_number q = None"
  shows "repository_run [Monitor_packet p, Clock_tick 1] (repo, env) = ([], repo\<lparr>sync_timeout := 1\<rparr>, env)"
proof -
  let ?repo = "ScheduleExpediteResync repo"
  have "int_cast 1 = 1" using int_cast_small [of 1] by simp
  moreover have "tick_device_reader 1 ?repo env = (?repo, env)" "tick_ip_reader 1 ?repo = (None, ?repo)"
    using assms by (simp_all add: idle_ticks)
  moreover have "?repo\<lparr>sync_timeout := 1\<rparr> = repo\<lparr>sync_timeout := 1\<rparr>"
    by (simp add: ScheduleExpediteResync_def)
  ultimately show ?thesis
    using assms by (simp add: HandleMonitorPackets_def DeviceRepository_Tick_def Let_def)
qed

subsection \<open>Properties\<close>

text \<open>C18: A synchronisation round: once a link dump is running and the kernel answers it and the address
  dump that follows, the synchronisation callback runs exactly once, when the address dump has
  ended, with a map in which every message of the two answers has been recorded, in order.\<close>
theorem synchronisation_round:
  assumes "device_reader repo = Some r" and "dr_sequence_number r = Some s" and "DeviceReader_bound r"
    and "ip_reader repo = Some q" and "IpReader_bound q" and "ir_socket q = Some sock"
    and "0 \<le> socket_fd sock" and "24 \<le> nl_send_outcome env (length (nl_requests env))"
    and "synchronization_callback_set repo"
    and "list_all (\<lambda>(h, _). nlmsg_seq h = s) links" and "nlmsg_seq h1 = s"
    and "list_all (\<lambda>(h, _). nlmsg_seq h = sequence_number sock + 1) addrs"
    and "nlmsg_seq h2 = sequence_number sock + 1"
  shows "fst (repository_run
      (map link_packet links @ [Device_packet (DoneView h1 e1)] @
       map addr_packet addrs @ [Address_packet (DoneView h2 e2)]) (repo, env)) =
    [fold HandleAddressPacket addrs (fold HandleLinkPacket links (devices repo))]"
proof -
  let ?repo = "repo\<lparr>devices := fold HandleLinkPacket links (devices repo)\<rparr>"
  have dev: "device_reader ?repo = Some r" "ip_reader ?repo = Some q"
    "dr_sequence_number r = Some (nlmsg_seq h1)"
    using assms by simp_all
  obtain q' repo' env' where done1: "repository_run [Device_packet (DoneView h1 e1)] (?repo, env) = ([], repo', env')"
    and q': "ip_reader repo' = Some q'" "ir_sequence_number q' = Some (sequence_number sock + 1)"
    "IpReader_bound q'" "devices repo' = devices ?repo" "synchronization_callback_set repo'"
    using link_dump_done [OF dev(1,3) assms(3) dev(2) assms(6,7,8), of e1] assms(5,9) by auto
  let ?repo2 = "repo'\<lparr>devices := fold HandleAddressPacket addrs (devices repo')\<rparr>"
  have done2: "fst (repository_run [Address_packet (DoneView h2 e2)] (?repo2, env')) = [devices ?repo2]"
    using q' assms(13) by (intro addr_dump_done) simp_all
  show ?thesis
    unfolding repository_run_append run_link_packets [OF assms(1,2,3,10)] snd_conv fst_conv done1
      run_addr_packets [OF q'(1,2,3) assms(12)] done2
    using q'(4) by simp
qed

definition example_repository :: DeviceRepository where
  "example_repository = (DeviceRepository_new None
     (Some ((DeviceReader_new (Some example_socket))\<lparr>dr_sequence_number := Some 2\<rparr>))
     (Some (IpReader_new (Some example_socket))))\<lparr>synchronization_callback_set := True\<rparr>"

definition example_header :: "u16 \<Rightarrow> nlmsghdr" where
  "example_header ty = \<lparr>nlmsg_len = 0, nlmsg_type = ty, nlmsg_flags = 0, nlmsg_seq = 2, nlmsg_pid = 0\<rparr>"

definition example_link :: link_message where
  "example_link = (example_header RTM_NEWLINK,
     \<lparr>ifi_family = 0, ifi_type = ARPHRD_ETHER, ifi_index = 7, ifi_flags = 0x10001, ifi_change = 0\<rparr>,
     [\<lparr>rta_len = 10, rta_type = IFLA_ADDRESS, attr_value = [2, 0, 0, 0, 0, 1]\<rparr>])"

definition example_addr :: addr_message where
  "example_addr = (example_header RTM_NEWADDR,
     \<lparr>ifa_family = AF_INET, ifa_prefixlen = 24, ifa_flags = 0, ifa_scope = 0, ifa_index = 7\<rparr>,
     [\<lparr>rta_len = 8, rta_type = IFA_ADDRESS, attr_value = [10, 0, 0, 1]\<rparr>])"

theorem synchronisation_round_witness:
  "map (\<lambda>ds. map_option (\<lambda>d. (mac_address d, ipv4_address d, device_operational d)) (om_find ds 7))
     (fst (repository_run [link_packet example_link, Device_packet (DoneView (example_header 3) 0),
        addr_packet example_addr, Address_packet (DoneView (example_header 3) 0)]
        (example_repository, example_nl_env))) =
   [Some (Some [2, 0, 0, 0, 0, 1], Some [10, 0, 0, 1], True)]"
proof -
  let ?q = "(IpReader_new (Some example_socket))\<lparr>ir_update_set := True, ir_end_set := True, ir_errored_set := True\<rparr>"
  let ?r = "(DeviceReader_new (Some example_socket))\<lparr>dr_sequence_number := Some 2,
      dr_update_set := True, dr_end_set := True, dr_errored_set := True\<rparr>"
  have "fst (repository_run (map link_packet [example_link] @ [Device_packet (DoneView (example_header 3) 0)] @
       map addr_packet [example_addr] @ [Address_packet (DoneView (example_header 3) 0)])
       (example_repository, example_nl_env)) =
    [fold HandleAddressPacket [example_addr] (fold HandleLinkPacket [example_link] (devices example_repository))]"
    by (rule synchronisation_round [where s = 2 and r = ?r and q = ?q and sock = example_socket])
      (simp_all add: example_repository_def DeviceRepository_new_def DeviceReader_new_def IpReader_new_def
        DeviceReader_bound_def IpReader_bound_def example_socket_def example_nl_env_def example_link_def
        example_addr_def example_header_def)
  then show ?thesis
    by (simp add: example_repository_def DeviceRepository_new_def example_link_def example_addr_def
        HandleLinkPacket_def HandleAddressPacket_def example_header_def om_at_def Let_def om_find_Cons
        apply_link_attribute_def apply_address_attribute_def DeviceData_default_def platform_defs)
qed

text \<open>C29: As long as the sockets exist and no monitor packet postpones it, a resynchronisation is never
  more than 126 seconds away: whatever dumps are in progress, however they end and whatever the
  kernel answers, a run of more than 126 seconds makes at least one link dump request.\<close>
theorem resynchronises_within_126_seconds:
  assumes "can_request repo" and "sync_timeout repo \<le> 120"
    and "list_all (\<lambda>e. tick_in_range e \<and> \<not> is_monitor_packet e) es"
    and "126 < sum_list (map elapsed_seconds es)"
  shows "link_dump_requests env < link_dump_requests (snd (snd (repository_run es (repo, env))))"
  using repository_run_progress [of "(repo, env)" es] assms patience_bound(2) [OF assms(2)]
    patience_bound(1) [of "fst (snd (repository_run es (repo, env)))"]
  by (auto simp: Let_def case_prod_beta)

theorem resynchronises_within_126_seconds_witness:
  "link_dump_requests example_nl_env <
     link_dump_requests (snd (snd (repository_run [Clock_tick 100, Clock_tick 27] (example_repository, example_nl_env))))"
  by (rule resynchronises_within_126_seconds)
    (simp_all add: can_request_def link_dump_fd_def example_repository_def DeviceRepository_new_def
      DeviceReader_new_def example_socket_def)

text \<open>Monitor packets only ever postpone: while one arrives every second and no dump is running,
  no dump is requested, for any number of seconds, and the map of devices stays as it is.\<close>
theorem monitor_packets_postpone_resync:
  assumes "device_reader repo = Some r" and "dr_sequence_number r = None"
    and "ip_reader repo = Some q" and "ir_sequence_number q = None"
  shows "repository_run (concat (replicate n [Monitor_packet p, Clock_tick 1])) (repo, env) =
    ([], (if n = 0 then repo else repo\<lparr>sync_timeout := 1\<rparr>), env)"
  using assms
proof (induction n arbitrary: repo)
  case (Suc n)
  have "concat (replicate (Suc n) [Monitor_packet p, Clock_tick 1]) =
      [Monitor_packet p, Clock_tick 1] @ concat (replicate n [Monitor_packet p, Clock_tick 1])" by simp
  then show ?case
    using Suc.IH [of "repo\<lparr>sync_timeout := 1\<rparr>"] Suc.prems
    by (simp only: repository_run_append postponed_second [OF Suc.prems] fst_conv snd_conv) simp
qed simp

theorem monitor_packets_postpone_resync_witness:
  "let repo = DeviceRepository_new None (Some (DeviceReader_new (Some example_socket)))
       (Some (IpReader_new (Some example_socket)))
   in nl_requests (snd (snd (repository_run (concat (replicate 1000 [Monitor_packet (DoneView (example_header 3) 0), Clock_tick 1]))
        (repo, example_nl_env)))) = []"
proof -
  let ?repo = "DeviceRepository_new None (Some (DeviceReader_new (Some example_socket)))
       (Some (IpReader_new (Some example_socket)))"
  have "repository_run (concat (replicate 1000 [Monitor_packet (DoneView (example_header 3) 0), Clock_tick 1])) (?repo, example_nl_env) =
    ([], (if (1000 :: nat) = 0 then ?repo else ?repo\<lparr>sync_timeout := 1\<rparr>), example_nl_env)"
    by (rule monitor_packets_postpone_resync [where
          r = "(DeviceReader_new (Some example_socket))\<lparr>dr_update_set := True, dr_end_set := True, dr_errored_set := True\<rparr>"
          and q = "(IpReader_new (Some example_socket))\<lparr>ir_update_set := True, ir_end_set := True, ir_errored_set := True\<rparr>"])
      (simp_all add: DeviceRepository_new_def DeviceReader_new_def IpReader_new_def)
  then show ?thesis unfolding Let_def by (simp add: example_nl_env_def)
qed

text \<open>Nothing is ever forgotten: whatever happens, every interface that was known stays in the map
  under its index, and a MAC address, IPv4 address, IPv6 address or name that was known is still
  known, if perhaps with another value.  The map stays sorted, its keys are the devices' indices
  and its addresses have the sizes of their types.\<close>
theorem devices_never_forgotten:
  assumes "devices_inv (devices repo)"
  shows "case repository_run es (repo, env) of (syncs, repo', env') \<Rightarrow>
    devices_inv (devices repo') \<and> knows_all_of (devices repo') (devices repo)"
  using repository_run_knows [of "(repo, env)" es] assms by (simp add: case_prod_beta)

theorem devices_never_forgotten_witness:
  "case repository_run [Device_packet (LinkView (example_header RTM_DELLINK) (fst (snd example_link)) []), Clock_tick 5]
      (example_repository\<lparr>devices := [(7, DeviceData_default\<lparr>if_index := 7, ipv4_address := Some [10, 0, 0, 1]\<rparr>)]\<rparr>, example_nl_env)
   of (syncs, repo', env') \<Rightarrow> \<exists>d. om_find (devices repo') 7 = Some d \<and> ipv4_address d \<noteq> None"
proof -
  let ?ds = "[(7, DeviceData_default\<lparr>if_index := 7, ipv4_address := Some [10, 0, 0, 1]\<rparr>)] :: devices"
  have "devices_inv ?ds"
    by (auto simp: devices_inv_def om_inv_Cons om_find_Cons device_wf_def DeviceData_default_def
        sizeof_in_addr_def split: if_splits)
  then have "case repository_run [Device_packet (LinkView (example_header RTM_DELLINK) (fst (snd example_link)) []), Clock_tick 5]
      (example_repository\<lparr>devices := ?ds\<rparr>, example_nl_env) of (syncs, repo', env') \<Rightarrow>
      devices_inv (devices repo') \<and> knows_all_of (devices repo') ?ds"
    using devices_never_forgotten [of "example_repository\<lparr>devices := ?ds\<rparr>"]
    by (simp del: repository_run.simps)
  moreover have "om_find ?ds 7 = Some (DeviceData_default\<lparr>if_index := 7, ipv4_address := Some [10, 0, 0, 1]\<rparr>)"
    by (simp add: om_find_Cons)
  ultimately show ?thesis
    unfolding knows_all_of_def remembers_def by (force split: prod.splits)
qed

text \<open>A message about a new Ethernet link is recorded under its index and nowhere else: the device
  is operational exactly when it is up and its lower layer is, its MAC address is the last
  six-byte address of the message, if there is one, and its IP addresses stay.\<close>
theorem link_message_recorded:
  assumes "om_inv ds" and "nlmsg_type h = RTM_NEWLINK" and "ifi_type i = ARPHRD_ETHER"
  shows "\<exists>d. om_find (HandleLinkPacket (h, i, as) ds) = (om_find ds)(ifi_index i \<mapsto> d) \<and>
    if_index d = ifi_index i \<and>
    (device_operational d \<longleftrightarrow> ifi_flags i AND IFF_UP \<noteq> 0 \<and> ifi_flags i AND IFF_LOWER_UP \<noteq> 0) \<and>
    mac_address d = last_fitting IFLA_ADDRESS 6 as (mac_address (om_at DeviceData_default ds (ifi_index i))) \<and>
    ipv4_address d = ipv4_address (om_at DeviceData_default ds (ifi_index i)) \<and>
    ipv6_address d = ipv6_address (om_at DeviceData_default ds (ifi_index i))"
proof -
  let ?d = "(om_at DeviceData_default ds (ifi_index i))\<lparr>if_index := ifi_index i,
      device_operational := ifi_flags i AND IFF_UP \<noteq> 0 \<and> ifi_flags i AND IFF_LOWER_UP \<noteq> 0\<rparr>"
  have "HandleLinkPacket (h, i, as) ds = om_put (ifi_index i) (fold apply_link_attribute as ?d) ds"
    using assms(2,3) by (simp add: HandleLinkPacket_def Let_def)
  then show ?thesis
    using fold_link_attributes_keeps [of as ?d] fold_link_mac [of as ?d] assms(1)
    by (intro exI [of _ "fold apply_link_attribute as ?d"]) (auto simp: ETH_ALEN_def fun_eq_iff)
qed

theorem link_message_recorded_witness:
  "\<exists>d. om_find (HandleLinkPacket example_link []) 7 = Some d \<and> device_operational d \<and>
     mac_address d = Some [2, 0, 0, 0, 0, 1]"
  using link_message_recorded [of "[]" "fst example_link" "fst (snd example_link)" "snd (snd example_link)"]
  by (auto simp: example_link_def example_header_def last_fitting_def platform_defs)

text \<open>A message about a new primary IPv4 or IPv6 address is recorded under its interface and nowhere
  else, and only in the address of its family, as the last value of the right size; what else is
  known of the interface stays.  Any other address message, the removal of an address among them,
  changes nothing.\<close>
theorem address_message_recorded:
  assumes "om_inv ds"
  shows "if nlmsg_type h = RTM_NEWADDR \<and> (ifa_family i = AF_INET \<or> ifa_family i = AF_INET6) \<and>
       ifa_flags i AND IFA_F_SECONDARY = 0
    then \<exists>d. om_find (HandleAddressPacket (h, i, as) ds) = (om_find ds)(ifa_index i \<mapsto> d) \<and>
      d = (om_at DeviceData_default ds (ifa_index i))\<lparr>if_index := ifa_index i,
        ipv4_address := (if ifa_family i = AF_INET
          then last_fitting IFA_ADDRESS 4 as (ipv4_address (om_at DeviceData_default ds (ifa_index i)))
          else ipv4_address (om_at DeviceData_default ds (ifa_index i))),
        ipv6_address := (if ifa_family i = AF_INET6
          then last_fitting IFA_ADDRESS 16 as (ipv6_address (om_at DeviceData_default ds (ifa_index i)))
          else ipv6_address (om_at DeviceData_default ds (ifa_index i)))\<rparr>
    else HandleAddressPacket (h, i, as) ds = ds"
proof -
  let ?d = "(om_at DeviceData_default ds (ifa_index i))\<lparr>if_index := ifa_index i\<rparr>"
  show ?thesis
    using fold_address_attributes_keeps [of AF_INET as ?d] fold_address_attributes_keeps [of AF_INET6 as ?d]
      fold_address_ips [of as ?d] assms
    by (auto simp: HandleAddressPacket_eq fun_eq_iff sizeof_in_addr_def sizeof_in6_addr_def
        AF_INET_def AF_INET6_def intro!: DeviceData.equality)
qed

theorem address_message_recorded_witness:
  "\<exists>d. om_find (HandleAddressPacket example_addr []) 7 = Some d \<and> ipv4_address d = Some [10, 0, 0, 1]"
  using address_message_recorded [of "[]" "fst example_addr" "fst (snd example_addr)" "snd (snd example_addr)"]
  by (simp add: example_addr_def example_header_def last_fitting_def platform_defs)

end
