(* ===== verification/Lldp_Repository.thy ===== *)
theory Lldp_Repository
  imports Lldp_Sender Device_Repository
begin

section \<open>The senders of all devices\<close>

text \<open>
  \<open>lldp_repository.cc\<close>: one sender per device of the device repository.  \<open>UpdateState\<close> is the
  synchronisation callback: it updates the senders of known devices, creates those of new ones,
  and ends the transmission of the ones that are gone.  Operations on the map of senders take and
  return the map with the \<open>link_env\<close>; the repository as a whole also threads the netlink
  environment of its device repository.
\<close>

type_synonym senders = "(u32, LldpSender) omap"

record LldpRepository =
  current_state :: senders
  device_repository :: "DeviceRepository option"

subsection \<open>Operations\<close>

fun MarkChangedLldpStateMachine :: "u32 \<Rightarrow> senders \<times> link_env \<Rightarrow> senders \<times> link_env" where
  "MarkChangedLldpStateMachine idx (cs, env) =
     (case om_find cs idx of None \<Rightarrow> (cs, env)
      | Some s \<Rightarrow> (case LocalChangeDetected s env of (s, env) \<Rightarrow> (om_put idx s cs, env)))"

fun DeleteLldpStateMachine :: "u32 \<Rightarrow> senders \<times> link_env \<Rightarrow> senders \<times> link_env" where
  "DeleteLldpStateMachine idx (cs, env) =
     (case om_find cs idx of None \<Rightarrow> (cs, env)
      | Some s \<Rightarrow> (case EndTransmission s env of (s, env) \<Rightarrow> (om_erase idx (om_put idx s cs), env)))"

fun CreateLldpStateMachine :: "u32 \<Rightarrow> senders \<times> link_env \<Rightarrow> senders \<times> link_env" where
  "CreateLldpStateMachine idx (cs, env) =
     (case om_find cs idx of None \<Rightarrow> (cs, env)
      | Some s \<Rightarrow> (case NewNeighbour s env of (s, env) \<Rightarrow> (om_put idx s cs, env)))"

text \<open>The body of the first loop of \<open>UpdateState\<close>.\<close>

fun update_device :: "u32 \<times> DeviceData \<Rightarrow> senders \<times> link_env \<Rightarrow> senders \<times> link_env" where
  "update_device (index, new_device_state) (cs, env) =
     (case om_find cs index of
        Some s \<Rightarrow> (case Update new_device_state s env of (s, env) \<Rightarrow> (om_put index s cs, env))
      | None \<Rightarrow> (case LldpSender_new new_device_state env of (s, env) \<Rightarrow>
          CreateLldpStateMachine index (om_put index s cs, env)))"

definition UpdateState :: "devices \<Rightarrow> senders \<times> link_env \<Rightarrow> senders \<times> link_env" where
  "UpdateState new_state p =
     (let (cs, env) = fold update_device new_state p;
          deletables = filter (\<lambda>index. \<not> om_contains new_state index) (om_keys cs)
      in fold DeleteLldpStateMachine deletables (cs, env))"

text \<open>The loop over the senders in \<open>Tick\<close>.\<close>

fun tick_senders :: "u64 \<Rightarrow> senders \<Rightarrow> link_env \<Rightarrow> senders \<times> link_env" where
  "tick_senders delta_seconds [] env = ([], env)"
| "tick_senders delta_seconds ((idx, s) # cs) env =
     (case Sender_Tick delta_seconds s env of (s, env) \<Rightarrow>
      case tick_senders delta_seconds cs env of (cs, env) \<Rightarrow> ((idx, s) # cs, env))"

text \<open>A call of the synchronisation callback, when there is one.\<close>

definition synchronised :: "devices option \<Rightarrow> senders \<times> link_env \<Rightarrow> senders \<times> link_env" where
  "synchronised sync p = (case sync of None \<Rightarrow> p | Some new_state \<Rightarrow> UpdateState new_state p)"

definition LldpRepository_Tick ::
  "u64 \<Rightarrow> LldpRepository \<Rightarrow> nl_env \<Rightarrow> link_env \<Rightarrow> LldpRepository \<times> nl_env \<times> link_env" where
  "LldpRepository_Tick delta_seconds repo nenv env =
     (let (dr, nenv, p) =
        (case device_repository repo of
           None \<Rightarrow> (None, nenv, current_state repo, env)
         | Some dr \<Rightarrow> (case DeviceRepository_Tick delta_seconds dr nenv of (sync, dr, nenv) \<Rightarrow>
             (Some dr, nenv, synchronised sync (current_state repo, env))));
        (cs, env) = tick_senders delta_seconds (fst p) (snd p)
      in (\<lparr>current_state = cs, device_repository = dr\<rparr>, nenv, env))"

text \<open>The constructor sets the synchronisation callback.\<close>

definition LldpRepository_new :: "DeviceRepository \<Rightarrow> LldpRepository" where
  "LldpRepository_new dr =
     \<lparr>current_state = [], device_repository = Some (dr\<lparr>synchronization_callback_set := True\<rparr>)\<rparr>"

subsection \<open>Runs\<close>

text \<open>The clock ticks the whole repository; a packet reaches it through its device repository.\<close>

fun lldp_repository_step ::
  "repository_event \<Rightarrow> LldpRepository \<times> nl_env \<times> link_env \<Rightarrow> LldpRepository \<times> nl_env \<times> link_env" where
  "lldp_repository_step (Clock_tick d) (repo, nenv, env) = LldpRepository_Tick d repo nenv env"
| "lldp_repository_step e (repo, nenv, env) =
     (case device_repository repo of None \<Rightarrow> (repo, nenv, env)
      | Some dr \<Rightarrow> (case repository_step e (dr, nenv) of (sync, dr, nenv) \<Rightarrow>
          case synchronised sync (current_state repo, env) of (cs, env) \<Rightarrow>
            (\<lparr>current_state = cs, device_repository = Some dr\<rparr>, nenv, env)))"

definition lldp_repository_run ::
  "repository_event list \<Rightarrow> LldpRepository \<times> nl_env \<times> link_env \<Rightarrow> LldpRepository \<times> nl_env \<times> link_env" where
  "lldp_repository_run = fold lldp_repository_step"

subsection \<open>What an update does to the map\<close>

lemma om_erase_absent: "om_find m k = None \<Longrightarrow> om_erase k m = m"
  by (induction m) (auto simp: om_erase_def om_find_Cons split: if_splits)

lemma om_erase_put: "om_inv m \<Longrightarrow> om_erase k (om_put k v m) = om_erase k m"
  by (rule om_ext) (auto intro: om_inv_erase om_inv_put)

lemma om_keys_find: "k \<in> set (om_keys m) \<longleftrightarrow> om_find m k \<noteq> None"
  using om_find_None_iff [of m k] by auto

lemma om_put_put: "om_inv m \<Longrightarrow> om_put k v (om_put k w m) = om_put k v m"
  by (rule om_ext) (auto simp: om_inv_put)

lemma Delete_senders: "om_inv (fst p) \<Longrightarrow> fst (DeleteLldpStateMachine idx p) = om_erase idx (fst p)"
  by (cases p) (simp add: om_erase_absent om_erase_put split: option.split prod.split)

text \<open>The sender that the first loop leaves for a device.\<close>

definition updated_sender :: "LldpSender option \<Rightarrow> DeviceData \<Rightarrow> link_env \<Rightarrow> LldpSender \<times> link_env" where
  "updated_sender old dev env =
     (case old of Some s \<Rightarrow> Update dev s env | None \<Rightarrow> case_prod NewNeighbour (LldpSender_new dev env))"

lemma update_device_eq:
  "om_inv cs \<Longrightarrow> update_device (k, dev) (cs, env) =
     (om_put k (fst (updated_sender (om_find cs k) dev env)) cs, snd (updated_sender (om_find cs k) dev env))"
  by (simp add: updated_sender_def om_put_put case_prod_beta split: option.split)

lemma fold_update_device:
  assumes "om_inv (fst p)" "distinct (map fst news)"
  shows "om_inv (fst (fold update_device news p)) \<and>
    (case map_of news k of
       None \<Rightarrow> om_find (fst (fold update_device news p)) k = om_find (fst p) k
     | Some dev \<Rightarrow> \<exists>e. om_find (fst (fold update_device news p)) k =
         Some (fst (updated_sender (om_find (fst p) k) dev e)))"
  using assms
proof (induction news arbitrary: p)
  case (Cons new news)
  obtain j dev where new: "new = (j, dev)" by (cases new)
  let ?p = "update_device new p"
  have step: "fst ?p = om_put j (fst (updated_sender (om_find (fst p) j) dev (snd p))) (fst p)"
    using update_device_eq [of "fst p" j dev "snd p"] Cons.prems(1) by (simp add: new)
  have inv: "om_inv (fst ?p)" unfolding step using Cons.prems(1) by (rule om_inv_put)
  have find: "om_find (fst ?p) i =
      (if i = j then Some (fst (updated_sender (om_find (fst p) j) dev (snd p))) else om_find (fst p) i)" for i
    unfolding step using Cons.prems(1) by simp
  have "distinct (map fst news)" and j: "map_of news j = None"
    using Cons.prems(2) by (simp_all add: new map_of_eq_None_iff)
  from Cons.IH [OF inv this(1)] find j show ?case
    by (cases "k = j") (auto simp: new split: option.splits)
qed simp

lemma fold_Delete:
  assumes "om_inv (fst p)"
  shows "fst (fold DeleteLldpStateMachine ks p) = fold om_erase ks (fst p)"
  using assms
proof (induction ks arbitrary: p)
  case (Cons k ks)
  then show ?case using Delete_senders [of p k] by (simp add: om_inv_erase del: DeleteLldpStateMachine.simps)
qed simp

lemma UpdateState_senders:
  assumes "om_inv (fst p)" "om_inv new_state"
  shows "om_inv (fst (UpdateState new_state p)) \<and>
    (case om_find new_state k of
       None \<Rightarrow> om_find (fst (UpdateState new_state p)) k = None
     | Some dev \<Rightarrow> \<exists>e. om_find (fst (UpdateState new_state p)) k =
         Some (fst (updated_sender (om_find (fst p) k) dev e)))"
proof -
  let ?q = "fold update_device new_state p"
  let ?ks = "filter (\<lambda>index. \<not> om_contains new_state index) (om_keys (fst ?q))"
  have dist: "distinct (map fst new_state)" using om_distinct [OF assms(2)] by (simp add: om_keys_def)
  note q = fold_update_device [OF assms(1) dist, of k]
  have all: "fst (UpdateState new_state p) = fold om_erase ?ks (fst ?q)"
    using q fold_Delete [of ?q] by (simp add: UpdateState_def Let_def case_prod_beta)
  have "om_find (fold om_erase ?ks (fst ?q)) k = (if k \<in> set ?ks then None else om_find (fst ?q) k)"
    using q by (intro om.find_fold_erase) simp
  moreover have "k \<in> set ?ks \<longleftrightarrow> om_find new_state k = None \<and> om_find (fst ?q) k \<noteq> None"
    by (auto simp: om_contains_find om_keys_find)
  moreover have "om_inv (fold om_erase ?ks (fst ?q))"
    using q by (intro om.inv_fold_erase) simp
  ultimately show ?thesis
    unfolding all using q by (auto simp: om_find_def split: option.splits)
qed

subsection \<open>What is transmitted on the way\<close>

text \<open>
  A transmission of the frame that \<open>constructFrame\<close> builds for a device and a time to live, in an
  environment that has the given outside.  The bytes of the time to live on the wire are what
  \<open>dead_read\<close> makes of it.
\<close>

definition constructed :: "u16 \<Rightarrow> outside \<Rightarrow> DeviceData \<Rightarrow> transmission \<Rightarrow> bool" where
  "constructed ttl w dev t \<longleftrightarrow> tx_ifindex t = if_index dev \<and> (\<exists>env f env'. world env = w \<and>
     constructFrame ttl dev env = (Some f, env') \<and> tx_bytes t = Inr (encode_frame f))"

definition announces :: "u16 \<Rightarrow> outside \<Rightarrow> transmission \<Rightarrow> bool" where
  "announces ttl w t \<longleftrightarrow> (\<exists>dev. device_wf dev \<and> constructed ttl w dev t)"

text \<open>Between two environments only frames built for \<open>TARGET_TTL\<close> were transmitted.\<close>

definition only_announces :: "link_env \<Rightarrow> link_env \<Rightarrow> bool" where
  "only_announces env env' \<longleftrightarrow> world env' = world env \<and>
     (\<exists>ts. send_log env' = send_log env @ ts \<and> list_all (announces TARGET_TTL (world env)) ts)"

lemma only_announces_refl [simp]: "only_announces env env"
  by (simp add: only_announces_def)

lemma only_announces_trans:
  assumes "only_announces a b" "only_announces b c"
  shows "only_announces a c"
  using assms by (auto simp: only_announces_def)

lemma SendLldp_constructs:
  assumes "device_wf (device_data s)"
  shows "\<exists>ts. send_log (snd (SendLldp ttl s env)) = send_log env @ ts \<and>
    list_all (constructed ttl (world env) (device_data s)) ts \<and> (sendable s \<longrightarrow> ts \<noteq> [])"
proof (cases "sendable s")
  case True
  from SendLldp_transmits [OF True assms, of ttl env] obtain f env' where
    f: "constructFrame ttl (device_data s) env = (Some f, env')"
    and log: "send_log (snd (SendLldp ttl s env)) =
       send_log env @ [\<lparr>tx_ifindex = if_index (device_data s), tx_bytes = Inr (encode_frame f)\<rparr>]" by blast
  have "constructed ttl (world env) (device_data s)
      \<lparr>tx_ifindex = if_index (device_data s), tx_bytes = Inr (encode_frame f)\<rparr>"
    using f by (auto simp: constructed_def)
  with log show ?thesis by simp
qed (simp add: SendLldp_unsendable)

lemma TryTransmit_announces:
  assumes "device_wf (device_data s)"
  shows "only_announces env (snd (TryTransmit s env))"
proof -
  let ?s = "s\<lparr>trigger_ready := False, transmit_credits := transmit_credits s - 1\<rparr>"
  have "only_announces env (snd (SendLldp TARGET_TTL ?s env))"
    using SendLldp_constructs [of ?s TARGET_TTL env] assms
    by (auto simp: only_announces_def announces_def list_all_iff)
  then show ?thesis by (simp add: TryTransmit_def)
qed

lemma TriggerTransmission_announces:
  "device_wf (device_data s) \<Longrightarrow> only_announces env (snd (TriggerTransmission s env))"
  by (simp add: TriggerTransmission_def Let_def TryTransmit_announces)

lemma TimerExpired_announces:
  "device_wf (device_data s) \<Longrightarrow> only_announces env (snd (TimerExpired s env))"
  by (simp add: TimerExpired_def TriggerTransmission_announces)

lemma NewNeighbour_announces:
  "device_wf (device_data s) \<Longrightarrow> only_announces env (snd (NewNeighbour s env))"
  by (simp add: NewNeighbour_def TimerExpired_announces)

lemma identity_wf:
  assumes "identity s' = identity s"
  shows "device_wf (device_data s') = device_wf (device_data s)"
  using identity_parts [OF assms] by (simp add: device_wf_def)

lemma sender_wf [simp]:
  "device_wf (device_data (fst (TryTransmit s env))) = device_wf (device_data s)"
  "device_wf (device_data (fst (TriggerTransmission s env))) = device_wf (device_data s)"
  "device_wf (device_data (fst (TimerExpired s env))) = device_wf (device_data s)"
  "device_wf (device_data (fst (NewNeighbour s env))) = device_wf (device_data s)"
  "device_wf (device_data (fst (Sender_Tick d s env))) = device_wf (device_data s)"
  "device_wf (device_data (set_operational b s)) = device_wf (device_data s)"
  by (rule identity_wf; simp)+ (simp add: set_operational_def device_wf_def)

lemma copy_changed_wf:
  "device_wf (device_data s) \<Longrightarrow> device_wf new \<Longrightarrow> device_wf (device_data (copy_changed new s))"
  by (simp add: copy_changed_def device_wf_def)

lemma Sender_Tick_announces:
  assumes "device_wf (device_data s)"
  shows "only_announces env (snd (Sender_Tick d s env))"
proof -
  let ?x = "TimerExpired ((refill d s)\<lparr>transmit_timer := 0\<rparr>) env"
  have "only_announces env (snd ?x)" using assms by (simp add: TimerExpired_announces)
  moreover have "only_announces (snd ?x) (snd (TryTransmit (fst ?x) (snd ?x)))"
    using assms by (simp add: TryTransmit_announces)
  ultimately show ?thesis
    using assms by (auto simp: Sender_Tick_stages case_prod_beta TryTransmit_announces
        intro: only_announces_trans)
qed

lemma Update_announces:
  assumes "device_wf (device_data s)" "device_wf new"
  shows "only_announces env (snd (Update new s env)) \<and> device_wf (device_data (fst (Update new s env)))"
proof -
  let ?s = "copy_changed new s"
  let ?x = "NewNeighbour ?s env"
  have s: "device_wf (device_data ?s)" using assms by (rule copy_changed_wf)
  have "only_announces env (snd ?x)" using s by (rule NewNeighbour_announces)
  moreover have "only_announces (snd ?x) (snd (TriggerTransmission (set_operational False (fst ?x)) (snd ?x)))"
    using s by (simp add: TriggerTransmission_announces)
  ultimately show ?thesis
    using assms s by (auto simp: Update_stages case_prod_beta TriggerTransmission_announces
        intro: only_announces_trans)
qed

lemma LldpSender_new_announces:
  assumes "device_wf dev"
  shows "only_announces env (snd (LldpSender_new dev env)) \<and> device_wf (device_data (fst (LldpSender_new dev env)))"
  using assms
  by (simp add: LldpSender_new_def Let_def EnableSender_def DisableSender_def NewNeighbour_announces)

lemma updated_sender_announces:
  assumes "pred_option (\<lambda>s. device_wf (device_data s) \<and> sender_inv s) old" "device_wf dev"
  shows "only_announces env (snd (updated_sender old dev env)) \<and>
    device_wf (device_data (fst (updated_sender old dev env))) \<and> sender_inv (fst (updated_sender old dev env))"
proof (cases old)
  case None
  let ?x = "LldpSender_new dev env"
  have "only_announces (snd ?x) (snd (NewNeighbour (fst ?x) (snd ?x)))"
    using LldpSender_new_announces [OF assms(2)] by (simp add: NewNeighbour_announces)
  with None LldpSender_new_announces [OF assms(2), of env] show ?thesis
    by (auto simp: updated_sender_def case_prod_beta intro: only_announces_trans NewNeighbour_inv LldpSender_new_inv)
next
  case (Some s)
  then show ?thesis
    using Update_announces [of s dev env] assms by (simp add: updated_sender_def Update_inv)
qed

subsection \<open>The invariant of the senders\<close>

definition senders_inv :: "senders \<Rightarrow> bool" where
  "senders_inv cs \<longleftrightarrow> om_inv cs \<and>
     (\<forall>k s. om_find cs k = Some s \<longrightarrow> device_wf (device_data s) \<and> sender_inv s)"

lemma senders_inv_Nil [simp]: "senders_inv []"
  by (simp add: senders_inv_def)

lemma senders_inv_put:
  "senders_inv cs \<Longrightarrow> device_wf (device_data s) \<Longrightarrow> sender_inv s \<Longrightarrow> senders_inv (om_put k s cs)"
  by (auto simp: senders_inv_def om_inv_put split: if_splits)

lemma senders_inv_erase: "senders_inv cs \<Longrightarrow> senders_inv (om_erase k cs)"
  by (auto simp: senders_inv_def om_inv_erase split: if_splits)

lemma update_device_keeps:
  assumes "senders_inv (fst p)" "device_wf dev"
  shows "senders_inv (fst (update_device (k, dev) p)) \<and>
    only_announces (snd p) (snd (update_device (k, dev) p)) \<and>
    set (om_keys (fst (update_device (k, dev) p))) = insert k (set (om_keys (fst p)))"
proof -
  have inv: "om_inv (fst p)" using assms(1) by (simp add: senders_inv_def)
  have old: "pred_option (\<lambda>s. device_wf (device_data s) \<and> sender_inv s) (om_find (fst p) k)"
    using assms(1) by (cases "om_find (fst p) k") (simp_all add: senders_inv_def)
  show ?thesis
    using update_device_eq [OF inv, of k dev "snd p"] updated_sender_announces [OF old assms(2), of "snd p"]
      senders_inv_put [OF assms(1)] by simp
qed

lemma fold_update_keeps:
  assumes "senders_inv (fst p)" "\<forall>(k, dev) \<in> set news. device_wf dev"
  shows "senders_inv (fst (fold update_device news p)) \<and> only_announces (snd p) (snd (fold update_device news p)) \<and>
    set (om_keys (fst (fold update_device news p))) = fst ` set news \<union> set (om_keys (fst p))"
  using assms
proof (induction news arbitrary: p)
  case (Cons new news)
  obtain k dev where new: "new = (k, dev)" by (cases new)
  have one: "senders_inv (fst (update_device new p)) \<and> only_announces (snd p) (snd (update_device new p)) \<and>
      set (om_keys (fst (update_device new p))) = insert k (set (om_keys (fst p)))"
    using update_device_keeps [of p dev k] Cons.prems by (simp add: new)
  then show ?case
    using Cons.IH [of "update_device new p"] Cons.prems only_announces_trans by (auto simp: new)
qed simp

lemma senders_inv_ConsD:
  assumes "senders_inv ((idx, s) # cs)"
  shows "device_wf (device_data s)" "sender_inv s" "senders_inv cs" "om_find cs idx = None"
proof -
  have inv: "om_inv ((idx, s) # cs)" using assms by (simp add: senders_inv_def)
  have find: "om_find ((idx, s) # cs) k = Some t \<Longrightarrow> device_wf (device_data t) \<and> sender_inv t" for k t
    using assms by (simp add: senders_inv_def)
  show "device_wf (device_data s)" "sender_inv s" using find [of idx s] by (simp_all add: om_find_Cons)
  have "\<forall>k \<in> set (om_keys cs). idx < k" using inv by (simp add: om_inv_Cons om_keys_def)
  then show none: "om_find cs idx = None" using om_find_None_iff by fastforce
  then show "senders_inv cs"
    using inv find by (auto simp: senders_inv_def om_inv_Cons om_find_Cons split: if_splits)
      (metis option.distinct(1))+
qed

lemma tick_senders_keeps:
  assumes "senders_inv cs"
  shows "senders_inv (fst (tick_senders d cs env)) \<and> only_announces env (snd (tick_senders d cs env)) \<and>
    om_keys (fst (tick_senders d cs env)) = om_keys cs"
  using assms
proof (induction d cs env rule: tick_senders.induct)
  case (2 d idx s cs env)
  let ?x = "Sender_Tick d s env"
  let ?y = "tick_senders d cs (snd ?x)"
  note s = senders_inv_ConsD(1,2) [OF 2(2)] and cs = senders_inv_ConsD(3) [OF 2(2)]
  have less: "\<forall>k \<in> set (om_keys cs). idx < k" using 2(2) by (simp add: senders_inv_def om_inv_Cons om_keys_def)
  have IH: "senders_inv (fst ?y) \<and> only_announces (snd ?x) (snd ?y) \<and> om_keys (fst ?y) = om_keys cs"
    using 2(1) [of "fst ?x" "snd ?x"] cs by simp
  then have "fst ` set (fst ?y) = set (om_keys cs)"
    by (metis image_set om_keys_def)
  then have "senders_inv ((idx, fst ?x) # fst ?y)"
    using IH s less
    by (auto simp: senders_inv_def om_inv_Cons om_find_Cons Sender_Tick_inv)
  then show ?case
    using IH only_announces_trans [OF Sender_Tick_announces [OF s(1), of env d], of "snd ?y"]
    by (simp add: case_prod_beta om_keys_def)
qed simp

subsection \<open>The repository as a whole\<close>

definition repository_inv :: "LldpRepository \<Rightarrow> bool" where
  "repository_inv repo \<longleftrightarrow> senders_inv (current_state repo) \<and>
     (case device_repository repo of None \<Rightarrow> False
      | Some dr \<Rightarrow> devices_inv (devices dr) \<and>
          set (om_keys (current_state repo)) \<subseteq> set (om_keys (devices dr)))"

lemma repository_inv_new [simp]: "devices_inv (devices dr) \<Longrightarrow> repository_inv (LldpRepository_new dr)"
  by (simp add: repository_inv_def LldpRepository_new_def om_keys_def)

lemma devices_inv_set: "devices_inv ds \<Longrightarrow> \<forall>(k, dev) \<in> set ds. device_wf dev"
  using om_find_in_set [of ds] by (auto simp: devices_inv_def)

lemma knows_all_keys: "knows_all_of ds' ds \<Longrightarrow> set (om_keys ds) \<subseteq> set (om_keys ds')"
  by (auto simp: knows_all_of_def om_keys_find) (metis option.distinct(1))

text \<open>When every sender has a device, the second loop of \<open>UpdateState\<close> finds nothing to delete.\<close>

lemma UpdateState_superset:
  assumes "senders_inv (fst p)" "devices_inv ds" "set (om_keys (fst p)) \<subseteq> set (om_keys ds)"
  shows "UpdateState ds p = fold update_device ds p"
proof -
  have "set (om_keys (fst (fold update_device ds p))) \<subseteq> set (om_keys ds)"
    using fold_update_keeps [OF assms(1) devices_inv_set [OF assms(2)]] assms(3) by (auto simp: om_keys_def)
  then have "filter (\<lambda>index. \<not> om_contains ds index) (om_keys (fst (fold update_device ds p))) = []"
    by (auto simp: filter_empty_conv om_contains_iff)
  then show ?thesis by (simp add: UpdateState_def Let_def case_prod_beta)
qed

lemma synchronised_keeps:
  assumes "senders_inv cs" "devices_inv ds" "set (om_keys cs) \<subseteq> set (om_keys ds)"
    and "sync = None \<or> sync = Some ds"
  shows "senders_inv (fst (synchronised sync (cs, env))) \<and> only_announces env (snd (synchronised sync (cs, env))) \<and>
    set (om_keys cs) \<subseteq> set (om_keys (fst (synchronised sync (cs, env)))) \<and>
    set (om_keys (fst (synchronised sync (cs, env)))) \<subseteq> set (om_keys ds)"
proof -
  have "fst ` set ds = set (om_keys ds)" by (simp add: om_keys_def)
  then show ?thesis
    using fold_update_keeps [of "(cs, env)" ds] UpdateState_superset [of "(cs, env)" ds]
      devices_inv_set [OF assms(2)] assms
    by (auto simp: synchronised_def)
qed

definition keeps_senders :: "LldpRepository \<times> nl_env \<times> link_env \<Rightarrow> LldpRepository \<times> nl_env \<times> link_env \<Rightarrow> bool" where
  "keeps_senders p q \<longleftrightarrow> repository_inv (fst q) \<and> only_announces (snd (snd p)) (snd (snd q)) \<and>
     set (om_keys (current_state (fst p))) \<subseteq> set (om_keys (current_state (fst q)))"

lemma lldp_repository_step_eq:
  assumes "device_repository repo = Some dr"
    and "repository_step e (dr, nenv) = (sync, dr', nenv')"
    and "synchronised sync (current_state repo, env) = (cs, env')"
  shows "lldp_repository_step e (repo, nenv, env) =
    (case e of Clock_tick d \<Rightarrow>
       (\<lparr>current_state = fst (tick_senders d cs env'), device_repository = Some dr'\<rparr>, nenv', snd (tick_senders d cs env'))
     | _ \<Rightarrow> (\<lparr>current_state = cs, device_repository = Some dr'\<rparr>, nenv', env'))"
  using assms by (cases e) (simp_all add: LldpRepository_Tick_def Let_def case_prod_beta)

lemma lldp_repository_step_keeps:
  assumes "repository_inv (fst p)"
  shows "keeps_senders p (lldp_repository_step e p)"
proof -
  obtain repo nenv env where p: "p = (repo, nenv, env)" by (cases p)
  from assms obtain dr where dr: "device_repository repo = Some dr" "devices_inv (devices dr)"
    "set (om_keys (current_state repo)) \<subseteq> set (om_keys (devices dr))" "senders_inv (current_state repo)"
    by (auto simp: p repository_inv_def split: option.splits)
  obtain sync dr' nenv' where step: "repository_step e (dr, nenv) = (sync, dr', nenv')"
    by (cases "repository_step e (dr, nenv)")
  obtain cs env' where cs: "synchronised sync (current_state repo, env) = (cs, env')"
    by (cases "synchronised sync (current_state repo, env)")
  have dr': "devices_inv (devices dr')" "set (om_keys (devices dr)) \<subseteq> set (om_keys (devices dr'))"
    using repository_step_knows [OF dr(2), of e nenv] step knows_all_keys by auto
  have "sync = None \<or> sync = Some (devices dr)"
    using repository_step_sync [of e "(dr, nenv)"] step by (cases sync) auto
  from synchronised_keeps [OF dr(4,2,3) this, of env]
  have cs': "senders_inv cs" "only_announces env env'" "set (om_keys (current_state repo)) \<subseteq> set (om_keys cs)"
    "set (om_keys cs) \<subseteq> set (om_keys (devices dr'))"
    using cs dr'(2) by auto
  show ?thesis
    using cs' dr'(1) tick_senders_keeps [OF cs'(1)] only_announces_trans [OF cs'(2)]
    unfolding p lldp_repository_step_eq [OF dr(1) step cs]
    by (cases e) (auto simp: keeps_senders_def repository_inv_def)
qed

lemma lldp_repository_run_keeps:
  "repository_inv (fst p) \<Longrightarrow> keeps_senders p (lldp_repository_run es p)"
proof (induction es arbitrary: p)
  case Nil
  then show ?case by (simp add: lldp_repository_run_def keeps_senders_def)
next
  case (Cons e es)
  have one: "keeps_senders p (lldp_repository_step e p)"
    using Cons.prems by (rule lldp_repository_step_keeps)
  then have "keeps_senders (lldp_repository_step e p) (lldp_repository_run es (lldp_repository_step e p))"
    using Cons.IH [of "lldp_repository_step e p"] by (simp add: keeps_senders_def)
  with one show ?case
    by (auto simp: keeps_senders_def lldp_repository_run_def intro: only_announces_trans)
qed

text \<open>
  A repository whose synchronisation callback has the first loop of \<open>UpdateState\<close> only, and so
  never calls \<open>EndTransmission\<close> or erases a sender.
\<close>

fun updating_step ::
  "repository_event \<Rightarrow> LldpRepository \<times> nl_env \<times> link_env \<Rightarrow> LldpRepository \<times> nl_env \<times> link_env" where
  "updating_step e (repo, nenv, env) =
     (case device_repository repo of None \<Rightarrow> (repo, nenv, env)
      | Some dr \<Rightarrow> (case repository_step e (dr, nenv) of (sync, dr, nenv) \<Rightarrow>
          let (cs, env) = (case sync of None \<Rightarrow> (current_state repo, env)
                           | Some ds \<Rightarrow> fold update_device ds (current_state repo, env));
              (cs, env) = (case e of Clock_tick d \<Rightarrow> tick_senders d cs env | _ \<Rightarrow> (cs, env))
          in (\<lparr>current_state = cs, device_repository = Some dr\<rparr>, nenv, env)))"

lemma step_only_updates:
  assumes "repository_inv (fst p)"
  shows "lldp_repository_step e p = updating_step e p"
proof -
  obtain repo nenv env where p: "p = (repo, nenv, env)" by (cases p)
  from assms obtain dr where dr: "device_repository repo = Some dr" "devices_inv (devices dr)"
    "set (om_keys (current_state repo)) \<subseteq> set (om_keys (devices dr))" "senders_inv (current_state repo)"
    by (auto simp: p repository_inv_def split: option.splits)
  obtain sync dr' nenv' where step: "repository_step e (dr, nenv) = (sync, dr', nenv')"
    by (cases "repository_step e (dr, nenv)")
  obtain cs env' where cs: "synchronised sync (current_state repo, env) = (cs, env')"
    by (cases "synchronised sync (current_state repo, env)")
  have "sync = None \<or> sync = Some (devices dr)"
    using repository_step_sync [of e "(dr, nenv)"] step by (cases sync) auto
  moreover have "UpdateState (devices dr) (current_state repo, env) = fold update_device (devices dr) (current_state repo, env)"
    using dr(2-4) by (intro UpdateState_superset) simp_all
  ultimately have "(case sync of None \<Rightarrow> (current_state repo, env)
      | Some ds \<Rightarrow> fold update_device ds (current_state repo, env)) = (cs, env')"
    using cs by (auto simp: synchronised_def)
  then have "updating_step e (repo, nenv, env) =
      (case (case e of Clock_tick d \<Rightarrow> tick_senders d cs env' | _ \<Rightarrow> (cs, env')) of
         (cs, env) \<Rightarrow> (\<lparr>current_state = cs, device_repository = Some dr'\<rparr>, nenv', env))"
    by (simp add: dr(1) step)
  then show ?thesis
    unfolding p lldp_repository_step_eq [OF dr(1) step cs] by (cases e) (simp_all add: case_prod_beta)
qed

lemma run_only_updates:
  "repository_inv (fst p) \<Longrightarrow> lldp_repository_run es p = fold updating_step es p"
proof (induction es arbitrary: p)
  case (Cons e es)
  have "repository_inv (fst (lldp_repository_step e p))"
    using lldp_repository_step_keeps [OF Cons.prems, of e] by (simp add: keeps_senders_def)
  from Cons.IH [OF this] step_only_updates [OF Cons.prems, of e]
  show ?case by (simp add: lldp_repository_run_def)
qed (simp add: lldp_repository_run_def)

subsection \<open>Deletion\<close>

definition shuts_down :: "LldpSender \<Rightarrow> outside \<Rightarrow> transmission \<Rightarrow> bool" where
  "shuts_down s w t \<longleftrightarrow> constructed 0 w (device_data s) t"

lemma EndTransmission_shuts_down:
  assumes "device_wf (device_data s)"
  shows "\<exists>ts. send_log (snd (EndTransmission s env)) = send_log env @ ts \<and>
     world (snd (EndTransmission s env)) = world env \<and>
     (sendable s \<longrightarrow> (\<exists>t \<in> set ts. shuts_down s (world env) t))"
proof -
  obtain ts where ts: "send_log (snd (SendLldp 0 s env)) = send_log env @ ts"
    "list_all (constructed 0 (world env) (device_data s)) ts" "sendable s \<longrightarrow> ts \<noteq> []"
    using SendLldp_constructs [OF assms] by blast
  then have "sendable s \<longrightarrow> (\<exists>t \<in> set ts. shuts_down s (world env) t)"
    by (cases ts) (simp_all add: shuts_down_def)
  then show ?thesis using ts(1) by (auto simp: EndTransmission_def sendable_def)
qed

lemma Delete_log:
  assumes "senders_inv (fst p)"
  shows "\<exists>ts. send_log (snd (DeleteLldpStateMachine k p)) = send_log (snd p) @ ts \<and>
    world (snd (DeleteLldpStateMachine k p)) = world (snd p) \<and>
    (\<forall>s. om_find (fst p) k = Some s \<and> sendable s \<longrightarrow> (\<exists>t \<in> set ts. shuts_down s (world (snd p)) t))"
proof (cases "om_find (fst p) k")
  case (Some s)
  then have "device_wf (device_data s)" using assms by (simp add: senders_inv_def)
  from EndTransmission_shuts_down [OF this, of "snd p"] Some show ?thesis
    by (cases p) (auto split: prod.split)
qed (cases p; simp)

lemma fold_Delete_log:
  assumes "senders_inv (fst p)" "distinct ks"
  shows "\<exists>ts. send_log (snd (fold DeleteLldpStateMachine ks p)) = send_log (snd p) @ ts \<and>
    (\<forall>k s. k \<in> set ks \<and> om_find (fst p) k = Some s \<and> sendable s \<longrightarrow>
       (\<exists>t \<in> set ts. shuts_down s (world (snd p)) t))"
  using assms
proof (induction ks arbitrary: p)
  case (Cons j ks)
  let ?p = "DeleteLldpStateMachine j p"
  have "om_inv (fst p)" using Cons.prems by (simp add: senders_inv_def)
  then have fst: "fst ?p = om_erase j (fst p)" by (rule Delete_senders)
  then have "senders_inv (fst ?p)" using Cons.prems by (simp add: senders_inv_erase)
  from Cons.IH [OF this] Cons.prems(2) obtain ts2 where ts2:
    "send_log (snd (fold DeleteLldpStateMachine ks ?p)) = send_log (snd ?p) @ ts2"
    "\<And>k s. k \<in> set ks \<Longrightarrow> om_find (fst ?p) k = Some s \<Longrightarrow> sendable s \<Longrightarrow>
       \<exists>t \<in> set ts2. shuts_down s (world (snd ?p)) t" by auto
  from Delete_log [OF Cons.prems(1), of j] obtain ts1 where ts1:
    "send_log (snd ?p) = send_log (snd p) @ ts1" "world (snd ?p) = world (snd p)"
    "\<And>s. om_find (fst p) j = Some s \<Longrightarrow> sendable s \<Longrightarrow>
       \<exists>t \<in> set ts1. shuts_down s (world (snd p)) t" by auto
  have "\<exists>t \<in> set (ts1 @ ts2). shuts_down s (world (snd p)) t"
    if "k \<in> set (j # ks)" "om_find (fst p) k = Some s" "sendable s" for k s
    using that ts1(2) ts1(3) [of s] ts2(2) [of k s] fst by (cases "k = j") auto
  then show ?case
    using ts1(1) ts2(1) by (intro exI [of _ "ts1 @ ts2"]) (auto simp del: DeleteLldpStateMachine.simps)
qed simp

subsection \<open>Properties\<close>

text \<open>C19: After an update there is a sender for exactly the devices of the new state.  The sender of a
  device that was known is its old one, updated with the new data; that of a new device is freshly
  constructed and then told of a new neighbour.  Senders of devices that are gone are erased.\<close>
theorem update_state_senders:
  assumes "om_inv cs" and "om_inv new_state"
  shows "om_inv (fst (UpdateState new_state (cs, env))) \<and>
    (\<forall>k. case om_find new_state k of
       None \<Rightarrow> om_find (fst (UpdateState new_state (cs, env))) k = None
     | Some dev \<Rightarrow> (case om_find cs k of
         Some s \<Rightarrow> \<exists>e. om_find (fst (UpdateState new_state (cs, env))) k = Some (fst (Update dev s e))
       | None \<Rightarrow> \<exists>e. om_find (fst (UpdateState new_state (cs, env))) k =
           Some (fst (NewNeighbour (fst (LldpSender_new dev e)) (snd (LldpSender_new dev e))))))"
proof (intro conjI allI)
  fix k
  show "case om_find new_state k of
       None \<Rightarrow> om_find (fst (UpdateState new_state (cs, env))) k = None
     | Some dev \<Rightarrow> (case om_find cs k of
         Some s \<Rightarrow> \<exists>e. om_find (fst (UpdateState new_state (cs, env))) k = Some (fst (Update dev s e))
       | None \<Rightarrow> \<exists>e. om_find (fst (UpdateState new_state (cs, env))) k =
           Some (fst (NewNeighbour (fst (LldpSender_new dev e)) (snd (LldpSender_new dev e)))))"
    using UpdateState_senders [of "(cs, env)" new_state k] assms
    by (auto simp: updated_sender_def case_prod_beta split: option.splits)
qed (use UpdateState_senders [of "(cs, env)" new_state] assms in simp)

definition example_link_env :: link_env where
  "example_link_env = \<lparr>machine_id_file = Some [97, 98], machine_id = [], machine_id_vector = [],
     frame_buffer = [], dead_storage = (\<lambda>_. nth), send_outcome = (\<lambda>_. Bytes_sent 60), send_log = []\<rparr>"

definition example_device :: "u32 \<Rightarrow> DeviceData" where
  "example_device i = DeviceData_default\<lparr>mac_address := Some [2, 0, 0, 0, 0, 1], if_index := i\<rparr>"

definition example_sender :: "u32 \<Rightarrow> LldpSender" where
  "example_sender i = \<lparr>device_data = example_device i, transmit_timer = 0, transmit_credits = 0,
      fast_forward_counter = 0, trigger_ready = False\<rparr>"

theorem update_state_senders_witness:
  "om_find (fst (UpdateState [(2, example_device 2)] ([(1, example_sender 1)], example_link_env))) 1 = None \<and>
   om_find (fst (UpdateState [(2, example_device 2)] ([(1, example_sender 1)], example_link_env))) 2 \<noteq> None"
proof -
  have "\<forall>k. case om_find [(2, example_device 2)] k of
       None \<Rightarrow> om_find (fst (UpdateState [(2, example_device 2)] ([(1, example_sender 1)], example_link_env))) k = None
     | Some dev \<Rightarrow> (case om_find [(1, example_sender 1)] k of
         Some s \<Rightarrow> \<exists>e. om_find (fst (UpdateState [(2, example_device 2)] ([(1, example_sender 1)], example_link_env))) k
             = Some (fst (Update dev s e))
       | None \<Rightarrow> \<exists>e. om_find (fst (UpdateState [(2, example_device 2)] ([(1, example_sender 1)], example_link_env))) k =
           Some (fst (NewNeighbour (fst (LldpSender_new dev e)) (snd (LldpSender_new dev e)))))"
    using update_state_senders [of "[(1, example_sender 1)]" "[(2, example_device 2)]" example_link_env]
    by (simp add: om_inv_Cons)
  from this [THEN spec, of 1] this [THEN spec, of 2] show ?thesis
    by (auto simp: om_find_Cons)
qed

text \<open>A device that is gone is withdrawn: if it could be sent from, the update hands the socket a
  frame for its interface whose time to live is built from 0, and erases its sender.\<close>
theorem removed_device_is_shut_down:
  assumes "senders_inv cs" and "devices_inv new_state"
    and "om_find cs k = Some s" and "sendable s" and "om_find new_state k = None"
  shows "om_find (fst (UpdateState new_state (cs, env))) k = None \<and>
    (\<exists>ts. send_log (snd (UpdateState new_state (cs, env))) = send_log env @ ts \<and>
       (\<exists>t \<in> set ts. shuts_down s (world env) t))"
proof -
  let ?q = "fold update_device new_state (cs, env)"
  let ?ks = "filter (\<lambda>index. \<not> om_contains new_state index) (om_keys (fst ?q))"
  have inv: "om_inv cs" "om_inv new_state" using assms(1,2) by (simp_all add: senders_inv_def devices_inv_def)
  have dist: "distinct (map fst new_state)" using om_distinct [OF inv(2)] by (simp add: om_keys_def)
  have q: "om_inv (fst ?q)" "om_find (fst ?q) k = Some s"
    using fold_update_device [of "(cs, env)", OF _ dist, of k] inv assms(3,5) by (auto simp: om_find_def)
  have keeps: "senders_inv (fst ?q)" "only_announces env (snd ?q)"
    using fold_update_keeps [of "(cs, env)" new_state] assms(1) devices_inv_set [OF assms(2)] by simp_all
  then obtain ts1 where ts1: "send_log (snd ?q) = send_log env @ ts1"
    and w: "world (snd ?q) = world env"
    by (auto simp: only_announces_def)
  have "k \<in> set ?ks" using q(2) assms(5) by (simp add: om_contains_find om_keys_find)
  moreover have "distinct ?ks" using om_distinct [OF q(1)] by simp
  ultimately obtain ts2 where ts2: "send_log (snd (fold DeleteLldpStateMachine ?ks ?q)) = send_log (snd ?q) @ ts2"
    "\<exists>t \<in> set ts2. shuts_down s (world env) t"
    using fold_Delete_log [OF keeps(1), of ?ks] q(2) assms(4) w by auto
  have "UpdateState new_state (cs, env) = fold DeleteLldpStateMachine ?ks ?q"
    by (simp add: UpdateState_def Let_def case_prod_beta)
  moreover have "om_find (fst (UpdateState new_state (cs, env))) k = None"
    using UpdateState_senders [of "(cs, env)" new_state k] inv assms(5) by simp
  ultimately show ?thesis
    using ts1 ts2 by (intro conjI exI [of _ "ts1 @ ts2"]) auto
qed

theorem removed_device_is_shut_down_witness:
  "\<exists>t \<in> set (send_log (snd (UpdateState [] ([(3, example_sender 3)], example_link_env)))).
     tx_ifindex t = 3 \<and> announces 0 (world example_link_env) t"
proof -
  have "senders_inv [(3, example_sender 3)]"
    by (simp add: senders_inv_def om_inv_Cons om_find_Cons example_sender_def example_device_def
        device_wf_def DeviceData_default_def sender_inv_def ETH_ALEN_def)
  moreover have "sendable (example_sender 3)"
    by (simp add: sendable_def example_sender_def example_device_def INT_MAX_def)
  ultimately obtain ts where
    log: "send_log (snd (UpdateState [] ([(3, example_sender 3)], example_link_env))) = send_log example_link_env @ ts"
    and "\<exists>t \<in> set ts. shuts_down (example_sender 3) (world example_link_env) t"
    using removed_device_is_shut_down [of "[(3, example_sender 3)]" "[]" 3 "example_sender 3" example_link_env]
    by (auto simp: om_find_Cons)
  moreover have "device_wf (device_data (example_sender 3))" "if_index (device_data (example_sender 3)) = 3"
    by (simp_all add: example_sender_def example_device_def device_wf_def DeviceData_default_def ETH_ALEN_def)
  ultimately have "\<exists>t \<in> set ts. tx_ifindex t = 3 \<and> announces 0 (world example_link_env) t"
    unfolding shuts_down_def announces_def constructed_def by metis
  then show ?thesis using log by auto
qed

definition example_events :: "repository_event list" where
  "example_events = [link_packet example_link, Device_packet (DoneView (example_header 3) 0),
     Address_packet (DoneView (example_header 3) 0)]"

text \<open>C24: In the running service devices are never withdrawn.  The device repository never forgets a
  device, so from the construction of the repository on, through any sequence of ticks and netlink
  packets (removals of links and addresses included), the repository, the socket and everything
  transmitted are as if \<open>UpdateState\<close> had no second loop, the only caller of \<open>EndTransmission\<close>: no
  sender is ever erased, and every frame was built by \<open>constructFrame\<close> for the full time to live.
  Which bytes the socket reads for that time to live is another matter, since it reads them from
  variables that are gone.\<close>
theorem no_device_is_ever_withdrawn:
  assumes "devices_inv (devices dr)"
  shows "lldp_repository_run (es @ later) (LldpRepository_new dr, nenv, env) =
      fold updating_step (es @ later) (LldpRepository_new dr, nenv, env) \<and>
    (case lldp_repository_run (es @ later) (LldpRepository_new dr, nenv, env) of (repo', nenv', env') \<Rightarrow>
      set (om_keys (current_state (fst (lldp_repository_run es (LldpRepository_new dr, nenv, env)))))
        \<subseteq> set (om_keys (current_state repo')) \<and>
      (\<exists>ts. send_log env' = send_log env @ ts \<and> list_all (announces TARGET_TTL (world env)) ts))"
proof -
  let ?p = "(LldpRepository_new dr, nenv, env)"
  let ?q = "lldp_repository_run es ?p"
  have first: "keeps_senders ?p ?q"
    using assms by (intro lldp_repository_run_keeps) simp
  then have second: "keeps_senders ?q (lldp_repository_run later ?q)"
    by (intro lldp_repository_run_keeps) (simp add: keeps_senders_def)
  have run: "lldp_repository_run (es @ later) ?p = lldp_repository_run later ?q"
    by (simp add: lldp_repository_run_def)
  have "only_announces env (snd (snd (lldp_repository_run later ?q)))"
    using first second only_announces_trans by (auto simp: keeps_senders_def)
  moreover have "lldp_repository_run (es @ later) ?p = fold updating_step (es @ later) ?p"
    using assms by (intro run_only_updates) simp
  ultimately show ?thesis
    using second unfolding run by (simp add: case_prod_beta keeps_senders_def only_announces_def)
qed

text \<open>The link of device 7 is dumped, announced, then removed: its sender stays and goes on transmitting.\<close>

definition example_removal :: "repository_event list" where
  "example_removal = Device_packet (LinkView (example_header RTM_DELLINK) (fst (snd example_link)) [])
     # replicate 7 (Clock_tick 1)"

theorem no_device_is_ever_withdrawn_witness:
  "case lldp_repository_run (example_events @ example_removal)
      (LldpRepository_new example_repository, example_nl_env, example_link_env) of (repo', nenv', env') \<Rightarrow>
    om_contains (current_state repo') 7 \<and> 2 \<le> length (send_log env') \<and>
    list_all (announces TARGET_TTL (world example_link_env)) (send_log env')"
proof -
  let ?p = "(LldpRepository_new example_repository, example_nl_env, example_link_env)"
  have "om_contains (current_state (fst (lldp_repository_run example_events ?p))) 7" by code_simp
  then have "7 \<in> set (om_keys (current_state (fst (lldp_repository_run example_events ?p))))"
    by (simp add: om_contains_iff)
  moreover have "2 \<le> length (send_log (snd (snd (lldp_repository_run (example_events @ example_removal) ?p))))"
    by code_simp
  moreover have "devices_inv (devices example_repository)"
    by (simp add: example_repository_def DeviceRepository_new_def)
  moreover have "send_log example_link_env = []" by (simp add: example_link_env_def)
  ultimately show ?thesis
    using no_device_is_ever_withdrawn [where dr = example_repository and es = example_events and
        later = example_removal and nenv = example_nl_env and env = example_link_env]
    by (auto simp: om_contains_iff)
qed

text \<open>At any point of the service's life every sender satisfies the bounds on its credits, timer
  and fast-start counter, has addresses of the right sizes, and belongs to a device of the device
  repository.\<close>
theorem running_senders_well_formed:
  assumes "devices_inv (devices dr)"
    and "lldp_repository_run es (LldpRepository_new dr, nenv, env) = (repo', nenv', env')"
    and "om_find (current_state repo') k = Some s"
  shows "sender_inv s \<and> device_wf (device_data s) \<and>
    (\<exists>dr' d. device_repository repo' = Some dr' \<and> om_find (devices dr') k = Some d)"
proof -
  have "repository_inv repo'"
    using lldp_repository_run_keeps [of "(LldpRepository_new dr, nenv, env)" es] assms(1,2)
    by (simp add: keeps_senders_def)
  moreover have "k \<in> set (om_keys (current_state repo'))"
    using assms(3) by (simp add: om_keys_find)
  ultimately show ?thesis
    using assms(3) om_keys_find [of k]
    by (force simp: repository_inv_def senders_inv_def split: option.splits)
qed

theorem running_senders_well_formed_witness:
  "\<exists>repo' nenv' env' s. lldp_repository_run example_events
     (LldpRepository_new example_repository, example_nl_env, example_link_env) = (repo', nenv', env') \<and>
   om_find (current_state repo') 7 = Some s \<and> sender_inv s \<and> device_wf (device_data s)"
proof -
  obtain repo' nenv' env' where run: "lldp_repository_run example_events
      (LldpRepository_new example_repository, example_nl_env, example_link_env) = (repo', nenv', env')"
    by (cases "lldp_repository_run example_events
      (LldpRepository_new example_repository, example_nl_env, example_link_env)")
  have "om_contains (current_state (fst (lldp_repository_run example_events
      (LldpRepository_new example_repository, example_nl_env, example_link_env)))) 7"
    by code_simp
  then obtain s where s: "om_find (current_state repo') 7 = Some s"
    by (auto simp: run om_contains_find)
  have "devices_inv (devices example_repository)"
    by (simp add: example_repository_def DeviceRepository_new_def)
  from running_senders_well_formed [OF this run s] run s show ?thesis by blast
qed

end
