(* ===== verification/Announcement.thy ===== *)
theory Announcement
  imports Lldp_Monitor Lldp_Repository
begin

section \<open>From a sender to a neighbour list\<close>

text \<open>
  The two ends of the protocol put together: the frame \<open>LldpSender::SendLldp\<close> hands to the socket,
  its Ethernet header taken off by the receiver's \<open>SOCK_DGRAM\<close> socket, parsed by
  \<open>lldpFrameParser\<close>, and the entry it leaves aged by the receiver's clock.
\<close>

subsection \<open>The management address TLVs\<close>

lemma management_string_of_value:
  "length a = 4 \<Longrightarrow> managementTlvGetManagementString
     (management_address_value a sizeof_in_addr MANAGEMENT_TLV_ADDRESS_SUBTYPE_IPV4 i) = Some (Span_in_addr a)"
  "length a = 16 \<Longrightarrow> managementTlvGetManagementString
     (management_address_value a sizeof_in6_addr MANAGEMENT_TLV_ADDRESS_SUBTYPE_IPV6 i) = Some (Span_in6_addr a)"
  "length a = 6 \<Longrightarrow> managementTlvGetManagementString
     (management_address_value a ETH_ALEN MANAGEMENT_TLV_ADDRESS_SUBTYPE_MAC i) = Some (Span_mac a)"
  by (simp_all add: management_address_value_eq managementTlvGetManagementString_def Let_def platform_defs
      MANAGEMENT_TLV_ADDRESS_SUBTYPE_IPV4_def MANAGEMENT_TLV_ADDRESS_SUBTYPE_IPV6_def
      MANAGEMENT_TLV_ADDRESS_SUBTYPE_MAC_def)

lemma collect_optional_tlvs:
  assumes "device_wf dev"
  shows "fold collect_address (createLldpduOptionalTlvs dev) (None, None) = (ipv4_address dev, ipv6_address dev)"
  using assms
  by (auto simp: createLldpduOptionalTlvs_def collect_address_def device_wf_def management_string_of_value
      sizeof_in_addr_def sizeof_in6_addr_def ETH_ALEN_def
      simp flip: sizeof_in_addr_def sizeof_in6_addr_def ETH_ALEN_def split: option.split)

lemma management_value_length:
  "length (management_address_value a n st i) \<le> 8 + n + length a"
  by (simp add: management_address_value_def template_eq overwrite_def as_bytes32_def)

lemma optional_tlvs_fit:
  assumes "device_wf dev"
  shows "list_all (\<lambda>t. tlv_fits t \<and> tlv_type t \<noteq> END_OF_LLDPDU) (createLldpduOptionalTlvs dev)"
proof -
  have "length (management_address_value a n st i) < 512" if "length a \<le> 16" "n \<le> 16" for a n st i
    using management_value_length [of a n st i] that by simp
  then show ?thesis
    using assms
    by (auto simp: createLldpduOptionalTlvs_def tlv_fits_def device_wf_def platform_defs tlv_type_defs
        split: option.split)
qed

subsection \<open>The frame and the entry it leaves\<close>

text \<open>An address the receiver accepts: an LLDP frame of an Ethernet interface.\<close>

definition lldp_address :: "sockaddr_ll \<Rightarrow> bool" where
  "lldp_address a \<longleftrightarrow> sll_family a = AF_PACKET \<and> ntohs (sll_protocol a) = ETH_P_LLDP \<and>
     sll_hatype a = ARPHRD_ETHER \<and> unat (sll_halen a) = ETH_ALEN"

text \<open>The payload of an Ethernet frame.\<close>

definition ethernet_payload :: "bytes \<Rightarrow> bytes" where
  "ethernet_payload = drop 14"

text \<open>What a neighbour is to know of a device.\<close>

definition announced_entry :: "bytes \<Rightarrow> DeviceData \<Rightarrow> bytes \<Rightarrow> u16 \<Rightarrow> u16 \<Rightarrow> NeighbourEntry" where
  "announced_entry chassis dev port i ttl =
     \<lparr>ne_chassis_id = chassis, ne_port_id = port, ne_interface_index = i, ne_time_to_live = ttl,
      ne_ipv4_address = ipv4_address dev, ne_ipv6_address = ipv6_address dev\<rparr>"

lemma DataUnit_FromSpan_encode:
  "data_unit_wf du \<Longrightarrow> DataUnit_FromSpan (encode_data_unit du) = Inr du"
  using read_optional_tlvs_end [of "[]"]
  by (simp add: DataUnit_FromSpan_def encode_data_unit_def data_unit_wf_def TLV_FromSpan_encode_fits
      read_optional_tlvs_encode)

lemma payload_of_frame:
  "length (ether_header_bytes (header f)) = 14 \<Longrightarrow>
   ethernet_payload (encode_frame f) = encode_data_unit (data_unit f)"
  by (simp add: ethernet_payload_def encode_frame_def)

lemma ttl_bytes: "as_bytes16 (htons ttl) = [a, b] \<Longrightarrow> ntohs (of_bytes16 a b) = ttl"
  using ntohs_of_bytes16_network [of ttl] by simp

text \<open>
  What goes out as port and as time to live when the next frame is sent in \<open>env\<close>: what is found where
  the local variables of \<open>constructFrame\<close> were.  It is the MAC address with its subtype, and the time to
  live asked for, if that storage is still intact.
\<close>

definition announced_port :: "link_env \<Rightarrow> bytes \<Rightarrow> bytes" where
  "announced_port env mac = dead_read env (PORT_TLV_SUBTYPE_MAC # mac)"

definition announced_ttl :: "link_env \<Rightarrow> u16 \<Rightarrow> u16" where
  "announced_ttl env ttl = (let bs = dead_read env (as_bytes16 (htons ttl)) in ntohs (of_bytes16 (bs ! 0) (bs ! 1)))"

lemma announced_intact:
  assumes "dead_storage env = (\<lambda>_. nth)"
  shows "announced_port env mac = PORT_TLV_SUBTYPE_MAC # mac" "announced_ttl env ttl = ttl"
  using assms ntohs_of_bytes16_network [of ttl] by (simp_all add: announced_port_def announced_ttl_def dead_read_def)

lemma length_announced_port [simp]: "length (announced_port env mac) = Suc (length mac)"
  by (simp add: announced_port_def)

lemma announced_ttl_bytes:
  obtains a b where "dead_read env (as_bytes16 (htons ttl)) = [a, b]" "announced_ttl env ttl = ntohs (of_bytes16 a b)"
proof -
  have "length xs = 2 \<Longrightarrow> \<exists>a b. xs = [a, b]" for xs :: bytes by (auto simp: length_Suc_conv eval_nat_numeral)
  then obtain a b where ab: "dead_read env (as_bytes16 (htons ttl)) = [a, b]" using length_dead_read by fastforce
  show thesis by (rule that [OF ab]) (simp add: announced_ttl_def ab)
qed

text \<open>What a receiver makes of the frame of a device with a known MAC address.\<close>

lemma constructed_frame_parsed:
  assumes "constructFrame ttl dev env = (Some f, env')" and "device_wf dev" and "mac_address dev = Some mac"
    and "length (fst (getMachineIdTlvValue env)) < 512"
  shows "ethernet_payload (encode_frame f) = encode_data_unit (data_unit f)"
    and "DataUnit_FromSpan (ethernet_payload (encode_frame f)) = Inr (data_unit f)"
    and "data_unit f =
      \<lparr>chassis_id = \<lparr>tlv_type = CHASSIS_ID, tlv_value = fst (getMachineIdTlvValue env)\<rparr>,
       port_id = \<lparr>tlv_type = PORT_ID, tlv_value = announced_port env mac\<rparr>,
       time_to_live = \<lparr>tlv_type = TIME_TO_LIVE, tlv_value = dead_read env (as_bytes16 (htons ttl))\<rparr>,
       optional_tlv = createLldpduOptionalTlvs dev\<rparr>"
proof -
  show du: "data_unit f =
      \<lparr>chassis_id = \<lparr>tlv_type = CHASSIS_ID, tlv_value = fst (getMachineIdTlvValue env)\<rparr>,
       port_id = \<lparr>tlv_type = PORT_ID, tlv_value = announced_port env mac\<rparr>,
       time_to_live = \<lparr>tlv_type = TIME_TO_LIVE, tlv_value = dead_read env (as_bytes16 (htons ttl))\<rparr>,
       optional_tlv = createLldpduOptionalTlvs dev\<rparr>"
    using assms(1,3) by (auto simp: constructFrame_def announced_port_def split: prod.splits)
  show payload: "ethernet_payload (encode_frame f) = encode_data_unit (data_unit f)"
    using constructFrame_header [OF assms(2,1)] by (rule payload_of_frame)
  have "length mac = 6" using assms(2,3) by (simp add: device_wf_def ETH_ALEN_def)
  then have "data_unit_wf (data_unit f)"
    using optional_tlvs_fit [OF assms(2)] assms(4)
    by (simp add: du data_unit_wf_def tlv_fits_def tlv_type_defs)
  then show "DataUnit_FromSpan (ethernet_payload (encode_frame f)) = Inr (data_unit f)"
    unfolding payload by (rule DataUnit_FromSpan_encode)
qed

lemma announcement_parsed:
  assumes "device_wf (device_data s)" and "mac_address (device_data s) = Some mac"
    and "if_index (device_data s) \<le> INT_MAX"
    and "length (fst (getMachineIdTlvValue env)) < 512"
    and "lldp_address address"
  shows "\<exists>frame. send_log (snd (SendLldp ttl s env)) =
      send_log env @ [\<lparr>tx_ifindex = if_index (device_data s), tx_bytes = Inr frame\<rparr>] \<and>
    lldpFrameParser nl address (ethernet_payload frame) =
      Inr (store_entry (announced_entry (fst (getMachineIdTlvValue env)) (device_data s) (announced_port env mac)
             (ucast (sll_ifindex address)) (announced_ttl env ttl)) nl)"
proof -
  have "sendable s" using assms(2,3) by (simp add: sendable_def)
  from SendLldp_transmits [OF this assms(1), of ttl env] obtain f env' where
    f: "constructFrame ttl (device_data s) env = (Some f, env')"
    and log: "send_log (snd (SendLldp ttl s env)) =
       send_log env @ [\<lparr>tx_ifindex = if_index (device_data s), tx_bytes = Inr (encode_frame f)\<rparr>]" by blast
  note parsed = constructed_frame_parsed [OF f assms(1,2,4)]
  obtain a b where "dead_read env (as_bytes16 (htons ttl)) = [a, b]" "announced_ttl env ttl = ntohs (of_bytes16 a b)"
    by (rule announced_ttl_bytes)
  then have "lldpduToNeighbourEntry (data_unit f) i = Inr (announced_entry
      (fst (getMachineIdTlvValue env)) (device_data s) (announced_port env mac) i (announced_ttl env ttl))" for i
    using collect_optional_tlvs [OF assms(1)]
    by (simp add: lldpduToNeighbourEntry_cases parsed(3) announced_entry_def)
  then show ?thesis
    using log parsed(2) assms(5) by (auto simp: lldpFrameParser_def lldp_address_def)
qed

lemma getMachineIdTlvValue_fresh:
  "machine_id_vector env = [] \<Longrightarrow>
   fst (getMachineIdTlvValue env) = PORT_TLV_SUBTYPE_LOCAL # getMachineId (machine_id_file env) (machine_id env)"
  by (simp add: getMachineIdTlvValue_def Let_def)

subsection \<open>Announcements\<close>

text \<open>The payload of a frame that is taken for the neighbour \<open>cp\<close>, with the time to live \<open>ttl\<close>.\<close>

definition frame_identity :: "LLDPDataUnit \<Rightarrow> bytes \<times> bytes" where
  "frame_identity du = (tlv_value (chassis_id du), tlv_value (port_id du))"

definition frame_ttl :: "LLDPDataUnit \<Rightarrow> u16 option" where
  "frame_ttl du = (case tlv_value (time_to_live du) of a # b # _ \<Rightarrow> Some (ntohs (of_bytes16 a b)) | _ \<Rightarrow> None)"

definition announcement_of :: "bytes \<times> bytes \<Rightarrow> u16 \<Rightarrow> bytes \<Rightarrow> bool" where
  "announcement_of cp ttl payload =
     (case DataUnit_FromSpan payload of Inl _ \<Rightarrow> False
      | Inr du \<Rightarrow> frame_identity du = cp \<and> frame_ttl du = Some ttl)"

lemma entry_of_frame:
  "lldpduToNeighbourEntry du i = Inr e \<Longrightarrow>
   (ne_chassis_id e, ne_port_id e) = frame_identity du \<and> frame_ttl du = Some (ne_time_to_live e)"
  by (auto simp: lldpduToNeighbourEntry_cases frame_identity_def frame_ttl_def split: list.splits)

text \<open>The frame of a device is such an announcement, and short enough to be received.\<close>

lemma length_concat_le: "list_all (\<lambda>x. length x \<le> n) xs \<Longrightarrow> length (concat xs) \<le> n * length xs"
  by (induction xs) auto

lemma optional_tlvs_short:
  assumes "device_wf dev"
  shows "length (concat (map encode_tlv (createLldpduOptionalTlvs dev))) \<le> 126"
proof -
  let ?ts = "createLldpduOptionalTlvs dev"
  have "length (encode_tlv \<lparr>tlv_type = t, tlv_value = management_address_value a n st i\<rparr>) \<le> 42"
    if "length a \<le> 16" "n \<le> 16" for t a n st i
    using management_value_length [of a n st i] that by (simp add: length_encode_tlv TLV_GetFrameBufferSize_def)
  then have "list_all (\<lambda>x. length x \<le> 42) (map encode_tlv ?ts)"
    using assms by (auto simp: createLldpduOptionalTlvs_def device_wf_def platform_defs split: option.split)
  then have "length (concat (map encode_tlv ?ts)) \<le> 42 * length (map encode_tlv ?ts)" by (rule length_concat_le)
  moreover have "length ?ts \<le> 3" by (simp add: createLldpduOptionalTlvs_def split: option.split)
  ultimately show ?thesis by simp
qed

lemma constructed_frame_announces:
  assumes "constructFrame ttl dev env = (Some f, env')" and "device_wf dev" and "mac_address dev = Some mac"
    and "length (fst (getMachineIdTlvValue env)) < 512"
  shows "announcement_of (fst (getMachineIdTlvValue env), announced_port env mac) (announced_ttl env ttl)
      (ethernet_payload (encode_frame f))"
    and "length (ethernet_payload (encode_frame f)) \<le> MAX_FRAME_BUFFER_SIZE"
proof -
  have mac: "length mac = 6" using assms(2,3) by (simp add: device_wf_def ETH_ALEN_def)
  note parsed = constructed_frame_parsed [OF assms]
  obtain a b where ttl: "dead_read env (as_bytes16 (htons ttl)) = [a, b]" "announced_ttl env ttl = ntohs (of_bytes16 a b)"
    by (rule announced_ttl_bytes)
  show "announcement_of (fst (getMachineIdTlvValue env), announced_port env mac) (announced_ttl env ttl)
      (ethernet_payload (encode_frame f))"
    by (simp add: announcement_of_def parsed(2)) (simp add: parsed(3) frame_identity_def frame_ttl_def ttl)
  show "length (ethernet_payload (encode_frame f)) \<le> MAX_FRAME_BUFFER_SIZE"
    using optional_tlvs_short [OF assms(2)] assms(4) mac
    by (simp add: parsed(1) parsed(3) encode_data_unit_def length_encode_tlv TLV_GetFrameBufferSize_def
        END_OF_DATA_UNIT_TLV_def MAX_FRAME_BUFFER_SIZE_def)
qed

subsection \<open>Ageing over several ticks\<close>

lemma nl_lookup_ticks:
  assumes "nl_inv nl" "nl_lookup nl cp = Some e" "sum_list (map unat ds) < unat (ne_time_to_live e)"
  shows "nl_lookup (fold NeighbourList_Tick ds nl) cp =
     Some (e\<lparr>ne_time_to_live := of_nat (unat (ne_time_to_live e) - sum_list (map unat ds))\<rparr>)"
  using assms
proof (induction ds arbitrary: nl e)
  case (Cons d ds)
  let ?e = "age_entry d e"
  have fresh: "\<not> expires d e" using Cons.prems(3) by (simp add: expires_iff)
  then have e: "?e = e\<lparr>ne_time_to_live := ne_time_to_live e - ucast d\<rparr>" by (simp add: age_entry_def)
  have t: "unat (ne_time_to_live ?e) = unat (ne_time_to_live e) - unat d"
    using Cons.prems(3) by (simp add: e unat_ttl_minus)
  have "nl_lookup (NeighbourList_Tick d nl) cp = Some ?e"
    using Cons.prems fresh by (simp add: nl_lookup_Tick age_entry_simps)
  from Cons.IH [OF _ this] Cons.prems t show ?case
    by (simp add: nl_inv_Tick e diff_diff_left)
qed simp

lemma nl_inv_store [intro]: "nl_inv nl \<Longrightarrow> nl_inv (store_entry e nl)"
  by (simp add: store_entry_nl_put nl_inv_put)

lemma nl_lookup_store:
  "nl_inv nl \<Longrightarrow> nl_lookup (store_entry e nl) cp =
     (if cp = (ne_chassis_id e, ne_port_id e) then Some e else nl_lookup nl cp)"
  by (simp add: store_entry_nl_put nl_lookup_put)

text \<open>Once gone an entry stays gone while no frame brings it back.\<close>

lemma nl_lookup_ticks_None:
  "nl_inv nl \<Longrightarrow> nl_lookup nl cp = None \<Longrightarrow> nl_lookup (fold NeighbourList_Tick ds nl) cp = None"
  by (induction ds arbitrary: nl) (simp_all add: nl_lookup_Tick nl_inv_Tick)

subsection \<open>Properties\<close>

text \<open>C5: End to end: the frame that is sent for a device with a known MAC address, received on any Ethernet
  interface, makes the neighbour know the sending machine under its machine identifier, and the
  device with exactly its IPv4 and IPv6 addresses; nothing else in the neighbour's list changes.  The
  port and the time to live it stores are what the storage of two local variables of \<open>constructFrame\<close>
  holds when the frame is written, after that function has returned: seven and two bytes that are the
  MAC address and the time to live asked for as long as the storage is intact, and any otherwise.
  The machine identifier is taken as not read before and shorter than 511 bytes.\<close>
theorem announcement_is_received:
  assumes "device_wf (device_data s)" and "mac_address (device_data s) = Some mac"
    and "if_index (device_data s) \<le> INT_MAX" and "machine_id_vector env = []"
    and "length (getMachineId (machine_id_file env) (machine_id env)) < 511"
    and "lldp_address address" and "nl_inv nl"
  shows "\<exists>frame nl' e. send_log (snd (SendLldp ttl s env)) =
      send_log env @ [\<lparr>tx_ifindex = if_index (device_data s), tx_bytes = Inr frame\<rparr>] \<and>
    lldpFrameParser nl address (ethernet_payload frame) = Inr nl' \<and>
    nl_lookup nl' = (nl_lookup nl)((7 # getMachineId (machine_id_file env) (machine_id env), announced_port env mac) \<mapsto> e) \<and>
    ne_time_to_live e = announced_ttl env ttl \<and> ne_ipv4_address e = ipv4_address (device_data s) \<and>
    ne_ipv6_address e = ipv6_address (device_data s) \<and>
    (dead_storage env = (\<lambda>_. nth) \<longrightarrow> announced_port env mac = 3 # mac \<and> ne_time_to_live e = ttl)"
proof -
  have id: "fst (getMachineIdTlvValue env) = 7 # getMachineId (machine_id_file env) (machine_id env)"
    using getMachineIdTlvValue_fresh [OF assms(4)] by (simp add: PORT_TLV_SUBTYPE_LOCAL_def)
  let ?p = "announced_port env mac"
  let ?e = "announced_entry (fst (getMachineIdTlvValue env)) (device_data s) ?p
             (ucast (sll_ifindex address)) (announced_ttl env ttl)"
  obtain frame where "send_log (snd (SendLldp ttl s env)) =
      send_log env @ [\<lparr>tx_ifindex = if_index (device_data s), tx_bytes = Inr frame\<rparr>]"
    "lldpFrameParser nl address (ethernet_payload frame) = Inr (store_entry ?e nl)"
    using announcement_parsed [OF assms(1,2,3) _ assms(6), of env ttl nl] assms(5) id by auto
  moreover have "nl_lookup (store_entry ?e nl) = (nl_lookup nl)((fst (getMachineIdTlvValue env), ?p) \<mapsto> ?e)"
    using assms(7) by (auto simp: nl_lookup_store fun_eq_iff announced_entry_def)
  ultimately show ?thesis
    using announced_intact [of env]
    by (intro exI [of _ frame] exI [of _ "store_entry ?e nl"] exI [of _ ?e])
      (simp add: id announced_entry_def PORT_TLV_SUBTYPE_MAC_def)
qed

definition example_address :: sockaddr_ll where
  "example_address = \<lparr>sll_family = 17, sll_protocol = 0xCC88, sll_ifindex = 2, sll_hatype = 1, sll_halen = 6\<rparr>"

lemma example_address_ok [simp]: "lldp_address example_address"
  by (simp add: lldp_address_def example_address_def platform_defs ntohs_def)

theorem announcement_is_received_witness:
  "\<exists>frame nl' e. send_log (snd (SendLldp 30 (example_sender 3) example_link_env)) =
      [\<lparr>tx_ifindex = 3, tx_bytes = Inr frame\<rparr>] \<and>
    lldpFrameParser [] example_address (ethernet_payload frame) = Inr nl' \<and>
    nl_lookup nl' ([7, 97, 98], [3, 2, 0, 0, 0, 0, 1]) = Some e \<and> ne_time_to_live e = 30"
proof -
  have id: "getMachineId (machine_id_file example_link_env) (machine_id example_link_env) = [97, 98]"
    by (simp add: getMachineId_def example_link_env_def first_word_def is_space_def)
  have "\<exists>frame nl' e. send_log (snd (SendLldp 30 (example_sender 3) example_link_env)) =
      send_log example_link_env @ [\<lparr>tx_ifindex = if_index (device_data (example_sender 3)), tx_bytes = Inr frame\<rparr>] \<and>
    lldpFrameParser [] example_address (ethernet_payload frame) = Inr nl' \<and>
    nl_lookup nl' = (nl_lookup [])((7 # getMachineId (machine_id_file example_link_env)
       (machine_id example_link_env), announced_port example_link_env [2, 0, 0, 0, 0, 1]) \<mapsto> e) \<and>
    ne_time_to_live e = announced_ttl example_link_env 30 \<and>
    ne_ipv4_address e = ipv4_address (device_data (example_sender 3)) \<and>
    ne_ipv6_address e = ipv6_address (device_data (example_sender 3)) \<and>
    (dead_storage example_link_env = (\<lambda>_. nth) \<longrightarrow>
       announced_port example_link_env [2, 0, 0, 0, 0, 1] = 3 # [2, 0, 0, 0, 0, 1] \<and> ne_time_to_live e = 30)"
    by (rule announcement_is_received)
      (simp_all add: id, simp_all add: example_sender_def example_device_def
        device_wf_def DeviceData_default_def ETH_ALEN_def INT_MAX_def example_link_env_def)
  moreover have "dead_storage example_link_env = (\<lambda>_. nth)" by (simp add: example_link_env_def)
  ultimately show ?thesis
    unfolding id by (auto simp: example_link_env_def example_sender_def example_device_def)
qed

text \<open>C27: What goes out as port and time to live is not determined by the code: the spans of both TLVs
  refer to local variables of a function that has returned.  For every seven bytes and every time
  to live there is a behaviour of the dead storage under which the neighbour records exactly
  those, for the same device and the same call.\<close>
theorem announced_port_and_ttl_undetermined:
  assumes "device_wf (device_data s)" and "mac_address (device_data s) = Some mac"
    and "if_index (device_data s) \<le> INT_MAX" and "machine_id_vector env = []"
    and "length (getMachineId (machine_id_file env) (machine_id env)) < 511"
    and "lldp_address address" and "nl_inv nl" and "length port = 7"
  shows "\<exists>dead frame nl' e. send_log (snd (SendLldp TARGET_TTL s (env\<lparr>dead_storage := dead\<rparr>))) =
      send_log env @ [\<lparr>tx_ifindex = if_index (device_data s), tx_bytes = Inr frame\<rparr>] \<and>
    lldpFrameParser nl address (ethernet_payload frame) = Inr nl' \<and>
    nl_lookup nl' (7 # getMachineId (machine_id_file env) (machine_id env), port) = Some e \<and>
    ne_time_to_live e = ttl'"
proof -
  define dead where "dead = (\<lambda>(n :: nat) (bs :: bytes) i. if length bs = 7 then port ! i else as_bytes16 (htons ttl') ! i)"
  let ?env = "env\<lparr>dead_storage := dead\<rparr>"
  have mac: "length mac = 6" using assms(1,2) by (simp add: device_wf_def ETH_ALEN_def)
  have id: "fst (getMachineIdTlvValue ?env) = 7 # getMachineId (machine_id_file env) (machine_id env)"
    using getMachineIdTlvValue_fresh [of ?env] assms(4) by (simp add: PORT_TLV_SUBTYPE_LOCAL_def)
  have port: "announced_port ?env mac = port"
    using mac assms(8) by (intro nth_equalityI) (simp_all add: announced_port_def dead_read_def dead_at_def dead_def)
  have ttl: "announced_ttl ?env TARGET_TTL = ttl'"
    using ntohs_of_bytes16_network [of ttl'] by (simp add: announced_ttl_def dead_read_def dead_at_def dead_def)
  let ?e = "announced_entry (fst (getMachineIdTlvValue ?env)) (device_data s) port
             (ucast (sll_ifindex address)) ttl'"
  obtain frame where "send_log (snd (SendLldp TARGET_TTL s ?env)) =
      send_log ?env @ [\<lparr>tx_ifindex = if_index (device_data s), tx_bytes = Inr frame\<rparr>]"
    "lldpFrameParser nl address (ethernet_payload frame) = Inr (store_entry ?e nl)"
    using announcement_parsed [OF assms(1,2,3) _ assms(6), of ?env TARGET_TTL nl] assms(5) id
    by (auto simp: port ttl)
  then show ?thesis
    using assms(7) id
    by (intro exI [of _ dead] exI [of _ frame] exI [of _ "store_entry ?e nl"] exI [of _ ?e])
      (simp add: nl_lookup_store announced_entry_def)
qed

theorem announced_port_and_ttl_undetermined_witness:
  "\<exists>dead frame nl' e. send_log (snd (SendLldp TARGET_TTL (example_sender 3)
       (example_link_env\<lparr>dead_storage := dead\<rparr>))) = [\<lparr>tx_ifindex = 3, tx_bytes = Inr frame\<rparr>] \<and>
    lldpFrameParser [] example_address (ethernet_payload frame) = Inr nl' \<and>
    nl_lookup nl' ([7, 97, 98], [9, 9, 9, 9, 9, 9, 9]) = Some e \<and> ne_time_to_live e = 0"
proof -
  have id: "getMachineId (machine_id_file example_link_env) (machine_id example_link_env) = [97, 98]"
    by (simp add: getMachineId_def example_link_env_def first_word_def is_space_def)
  have s: "device_wf (device_data (example_sender 3))"
    "mac_address (device_data (example_sender 3)) = Some [2, 0, 0, 0, 0, 1]"
    "if_index (device_data (example_sender 3)) \<le> INT_MAX" "machine_id_vector example_link_env = []"
    by (simp_all add: example_sender_def example_device_def
        device_wf_def DeviceData_default_def ETH_ALEN_def INT_MAX_def example_link_env_def)
  show ?thesis
    using announced_port_and_ttl_undetermined [OF s _ example_address_ok nl_inv_Nil,
        of "[9, 9, 9, 9, 9, 9, 9]" 0] id
    by (simp add: example_link_env_def example_sender_def example_device_def)
qed

text \<open>A neighbour that was announced with the full time to live stays known, with its addresses,
  through any ticks of less than thirty seconds in all, whatever their sizes: five announcements at
  the sender's six-second interval can be lost.\<close>
theorem announced_neighbour_survives:
  assumes "lldpFrameParser nl address frame = Inr nl'" and "nl_inv nl"
    and "DataUnit_FromSpan frame = Inr du" and "tlv_value (time_to_live du) = as_bytes16 (htons TARGET_TTL)"
    and "sum_list (map unat ds) < 30"
  shows "\<exists>e. nl_lookup (fold NeighbourList_Tick ds nl') (tlv_value (chassis_id du), tlv_value (port_id du)) =
      Some (e\<lparr>ne_time_to_live := of_nat (30 - sum_list (map unat ds))\<rparr>) \<and>
    lldpduToNeighbourEntry du (ucast (sll_ifindex address)) = Inr e"
  using assms(1)
proof (rule lldpFrameParser_Inr)
  fix du' e
  assume du': "DataUnit_FromSpan frame = Inr du'"
    and e: "lldpduToNeighbourEntry du' (ucast (sll_ifindex address)) = Inr e"
    and nl': "nl' = nl_put (ne_chassis_id e, ne_port_id e) e nl"
  have [simp]: "du' = du" using du' assms(3) by simp
  have fields: "ne_chassis_id e = tlv_value (chassis_id du)" "ne_port_id e = tlv_value (port_id du)"
    "ne_time_to_live e = 30"
    using e assms(4) ttl_bytes [of 30]
    by (auto simp: lldpduToNeighbourEntry_cases as_bytes16_def TARGET_TTL_def split: list.splits)
  have "nl_inv nl'" "nl_lookup nl' (ne_chassis_id e, ne_port_id e) = Some e"
    using assms(2) by (simp_all add: nl' nl_inv_put nl_lookup_put)
  from nl_lookup_ticks [OF this, of ds] assms(5) fields e show ?thesis by simp
qed

theorem announced_neighbour_survives_witness:
  "\<exists>nl' e. lldpFrameParser [] example_address [2, 1, 7, 4, 1, 9, 6, 2, 0, 30, 0, 0] = Inr nl' \<and>
     nl_lookup (fold NeighbourList_Tick [10, 19] nl') ([7], [9]) = Some (e\<lparr>ne_time_to_live := 1\<rparr>)"
proof -
  let ?f = "[2, 1, 7, 4, 1, 9, 6, 2, 0, 30, 0, 0]"
  let ?e = "\<lparr>ne_chassis_id = [7], ne_port_id = [9], ne_interface_index = 2, ne_time_to_live = 30,
     ne_ipv4_address = None, ne_ipv6_address = None\<rparr>"
  let ?du = "\<lparr>chassis_id = \<lparr>tlv_type = 1, tlv_value = [7]\<rparr>, port_id = \<lparr>tlv_type = 2, tlv_value = [9]\<rparr>,
      time_to_live = \<lparr>tlv_type = 3, tlv_value = [0, 30]\<rparr>, optional_tlv = []\<rparr>"
  have p: "lldpFrameParser [] example_address ?f = Inr [([7], [([9], ?e)])]" by code_simp
  have du: "DataUnit_FromSpan ?f = Inr ?du" by code_simp
  have ttl: "tlv_value (time_to_live ?du) = as_bytes16 (htons TARGET_TTL)" by code_simp
  from announced_neighbour_survives [OF p nl_inv_Nil du ttl, of "[10, 19]"] p show ?thesis by auto
qed

text \<open>A shutdown announcement withdraws the neighbour: an accepted frame whose time to live is 0
  leaves an entry that the next tick removes, however short it is, and further ticks do not bring
  it back, while every other neighbour is only aged.\<close>
theorem shutdown_removes_neighbour:
  assumes "lldpFrameParser nl address frame = Inr nl'" and "nl_inv nl"
    and "DataUnit_FromSpan frame = Inr du" and "tlv_value (time_to_live du) = as_bytes16 (htons 0)"
  shows "nl_lookup (fold NeighbourList_Tick (d # ds) nl') (tlv_value (chassis_id du), tlv_value (port_id du)) = None \<and>
    (\<forall>cp. cp \<noteq> (tlv_value (chassis_id du), tlv_value (port_id du)) \<longrightarrow>
      nl_lookup (NeighbourList_Tick d nl') cp = nl_lookup (NeighbourList_Tick d nl) cp)"
  using assms(1)
proof (rule lldpFrameParser_Inr)
  fix du' e
  assume du': "DataUnit_FromSpan frame = Inr du'"
    and e: "lldpduToNeighbourEntry du' (ucast (sll_ifindex address)) = Inr e"
    and nl': "nl' = nl_put (ne_chassis_id e, ne_port_id e) e nl"
  have [simp]: "du' = du" using du' assms(3) by simp
  have fields: "ne_chassis_id e = tlv_value (chassis_id du)" "ne_port_id e = tlv_value (port_id du)"
    "ne_time_to_live e = 0"
    using e assms(4) ttl_bytes [of 0]
    by (auto simp: lldpduToNeighbourEntry_cases as_bytes16_def split: list.splits)
  have inv: "nl_inv nl'" and find: "\<And>cp. nl_lookup nl' cp =
      (if cp = (ne_chassis_id e, ne_port_id e) then Some e else nl_lookup nl cp)"
    using assms(2) by (simp_all add: nl' nl_inv_put nl_lookup_put)
  have "expires d e" using fields(3) by (simp add: expires_iff)
  then have "nl_lookup (NeighbourList_Tick d nl') (ne_chassis_id e, ne_port_id e) = None"
    using inv find by (simp add: nl_lookup_Tick)
  then show ?thesis
    using nl_lookup_ticks_None [of "NeighbourList_Tick d nl'"] inv find assms(2) fields
    by (simp add: nl_lookup_Tick nl_inv_Tick)
qed

theorem shutdown_removes_neighbour_witness:
  "\<exists>nl'. lldpFrameParser [] example_address [2, 1, 7, 4, 1, 9, 6, 2, 0, 0, 0, 0] = Inr nl' \<and> nl' \<noteq> [] \<and>
     nl_lookup (NeighbourList_Tick 1 nl') ([7], [9]) = None"
proof -
  let ?f = "[2, 1, 7, 4, 1, 9, 6, 2, 0, 0, 0, 0]"
  let ?e = "\<lparr>ne_chassis_id = [7], ne_port_id = [9], ne_interface_index = 2, ne_time_to_live = 0,
     ne_ipv4_address = None, ne_ipv6_address = None\<rparr>"
  let ?du = "\<lparr>chassis_id = \<lparr>tlv_type = 1, tlv_value = [7]\<rparr>, port_id = \<lparr>tlv_type = 2, tlv_value = [9]\<rparr>,
      time_to_live = \<lparr>tlv_type = 3, tlv_value = [0, 0]\<rparr>, optional_tlv = []\<rparr>"
  have p: "lldpFrameParser [] example_address ?f = Inr [([7], [([9], ?e)])]" by code_simp
  have du: "DataUnit_FromSpan ?f = Inr ?du" by code_simp
  have ttl: "tlv_value (time_to_live ?du) = as_bytes16 (htons 0)" by code_simp
  from shutdown_removes_neighbour [OF p nl_inv_Nil du ttl, of 1 "[]"] p show ?thesis by auto
qed

end
