(* ===== verification/Clock_Handler.thy ===== *)
theory Clock_Handler
  imports Announcement
begin

section \<open>The clock\<close>

text \<open>
  \<open>clock_handler.cc\<close>: every second the timer descriptor becomes readable and \<open>ClockHandler::Call\<close>
  reads how often it has expired, ages the neighbour list and then ticks the repository by that
  many seconds, and prints a dump of both when it is enabled and due.  An operation says
  whether it was printed; its text is \<open>DumpInfo\<close> of \<open>Text_Output\<close>.
\<close>

definition DUMP_INFO_TIMEOUT :: u16 where "DUMP_INFO_TIMEOUT = 5"

record ClockHandler =
  neighbour_list :: NeighbourList
  lldp_repository :: LldpRepository
  dumping_enabled :: bool
  dump_timer :: u16

text \<open>The first argument is what \<open>read\<close> delivers: \<open>None\<close> for an error, else the expirations.\<close>

definition ClockHandler_Call ::
  "u64 option \<Rightarrow> ClockHandler \<times> nl_env \<times> link_env \<Rightarrow> bool \<times> ClockHandler \<times> nl_env \<times> link_env" where
  "ClockHandler_Call read_result = (\<lambda>(clock, nenv, env).
     (case read_result of None \<Rightarrow> (False, clock, nenv, env)
      | Some times_triggered \<Rightarrow>
        if times_triggered = 0 then (False, clock, nenv, env)
        else
          let clock = clock\<lparr>neighbour_list := NeighbourList_Tick times_triggered (neighbour_list clock)\<rparr>;
              (repo, nenv, env) = LldpRepository_Tick times_triggered (lldp_repository clock) nenv env;
              clock = clock\<lparr>lldp_repository := repo\<rparr>
          in if dumping_enabled clock then
               if times_triggered < ucast (dump_timer clock)
               then (False, clock\<lparr>dump_timer := dump_timer clock - ucast times_triggered\<rparr>, nenv, env)
               else (True, clock\<lparr>dump_timer := DUMP_INFO_TIMEOUT\<rparr>, nenv, env)
             else (False, clock, nenv, env)))"

text \<open>A sequence of calls: how often the dump was printed, and the state at the end.\<close>

fun clock_run ::
  "u64 option list \<Rightarrow> ClockHandler \<times> nl_env \<times> link_env \<Rightarrow> nat \<times> ClockHandler \<times> nl_env \<times> link_env" where
  "clock_run [] p = (0, p)"
| "clock_run (r # rs) p =
     (case ClockHandler_Call r p of (dumped, p) \<Rightarrow> case clock_run rs p of (n, p) \<Rightarrow>
        ((if dumped then Suc n else n), p))"

text \<open>The seconds that successful reads report.\<close>

definition seconds_read :: "u64 option \<Rightarrow> nat" where
  "seconds_read r = (case r of None \<Rightarrow> 0 | Some t \<Rightarrow> unat t)"

lemma seconds_read_simps [simp]: "seconds_read None = 0" "seconds_read (Some t) = unat t"
  by (simp_all add: seconds_read_def)

primrec total_read :: "u64 option list \<Rightarrow> nat" where
  "total_read [] = 0"
| "total_read (r # rs) = seconds_read r + total_read rs"

lemma ClockHandler_Call_neighbours:
  "neighbour_list (fst (snd (ClockHandler_Call r p))) =
     (if seconds_read r = 0 then neighbour_list (fst p)
      else NeighbourList_Tick (case r of None \<Rightarrow> 0 | Some t \<Rightarrow> t) (neighbour_list (fst p)))"
  by (cases p; cases r)
    (simp_all add: ClockHandler_Call_def Let_def case_prod_beta unat_eq_zero)

lemma clock_run_neighbours:
  assumes "nl_inv (neighbour_list (fst p))"
  shows "nl_inv (neighbour_list (fst (snd (clock_run rs p)))) \<and>
    nl_lookup (neighbour_list (fst (snd (clock_run rs p)))) cp =
      (case nl_lookup (neighbour_list (fst p)) cp of None \<Rightarrow> None
       | Some e \<Rightarrow>
           if total_read rs = 0 then Some e
           else if total_read rs < unat (ne_time_to_live e)
           then Some (e\<lparr>ne_time_to_live := of_nat (unat (ne_time_to_live e) - total_read rs)\<rparr>)
           else None)"
  using assms
proof (induction rs arbitrary: p)
  case Nil
  then show ?case by (auto split: option.split)
next
  case (Cons r rs)
  let ?p = "snd (ClockHandler_Call r p)"
  show ?case
  proof (cases "seconds_read r = 0")
    case True
    then show ?thesis
      using Cons
      by (cases "nl_lookup (neighbour_list (fst p)) cp")
        (simp_all add: case_prod_beta ClockHandler_Call_neighbours)
  next
    case False
    then obtain t where r: "r = Some t" "0 < unat t" by (cases r) auto
    then have nl: "neighbour_list (fst ?p) = NeighbourList_Tick t (neighbour_list (fst p))"
      by (simp add: ClockHandler_Call_neighbours)
    have inv: "nl_inv (neighbour_list (fst ?p))" unfolding nl using Cons.prems by (rule nl_inv_Tick)
    have find: "nl_lookup (neighbour_list (fst ?p)) cp =
        (case nl_lookup (neighbour_list (fst p)) cp of None \<Rightarrow> None
         | Some e \<Rightarrow> if unat t < unat (ne_time_to_live e)
             then Some (e\<lparr>ne_time_to_live := of_nat (unat (ne_time_to_live e) - unat t)\<rparr>) else None)"
    proof -
      have "w - ucast t = of_nat (unat w - unat t)" if "unat t < unat w" for w :: u16
        using that by (simp flip: unat_ttl_minus)
      then show ?thesis
        unfolding nl using Cons.prems by (simp add: nl_lookup_Tick expires_iff age_entry_simps split: option.split)
    qed
    have small: "unat (of_nat (unat w - n) :: u16) = unat w - n" for w :: u16 and n
      using unsigned_less [of w, where 'a = nat] by (simp add: unsigned_of_nat take_bit_nat_eq_self)
    show ?thesis
      using Cons.IH [OF inv] r(2)
      by (cases "nl_lookup (neighbour_list (fst p)) cp")
        (auto simp: case_prod_beta find [unfolded r(1)] r(1) small unat_ttl_minus diff_diff_left)
  qed
qed

lemma ClockHandler_Call_timer:
  assumes "dumping_enabled (fst p)"
  shows "dumping_enabled (fst (snd (ClockHandler_Call r p))) \<and>
    (if seconds_read r = 0 then \<not> fst (ClockHandler_Call r p) \<and> fst (snd (ClockHandler_Call r p)) = fst p
     else if seconds_read r < unat (dump_timer (fst p))
     then unat (dump_timer (fst (snd (ClockHandler_Call r p)))) = unat (dump_timer (fst p)) - seconds_read r
     else fst (ClockHandler_Call r p))"
  using assms
  by (cases p; cases r)
    (auto simp: ClockHandler_Call_def Let_def case_prod_beta unat_eq_zero unat_ttl_minus word_less_nat_alt
      unsigned_ucast_eq take_bit_nat_eq_self less_u16_bound)

lemma clock_run_dumps:
  "dumping_enabled (fst p) \<Longrightarrow> unat (dump_timer (fst p)) \<le> total_read rs \<Longrightarrow> 0 < total_read rs \<Longrightarrow>
   0 < fst (clock_run rs p)"
proof (induction rs arbitrary: p)
  case (Cons r rs)
  then show ?case
    using ClockHandler_Call_timer [OF Cons.prems(1), of r] Cons.IH [of "snd (ClockHandler_Call r p)"]
    by (auto simp: case_prod_beta split: if_splits)
qed simp

subsection \<open>Properties\<close>

text \<open>C22: However the kernel batches the expirations of the timer, and however many reads fail, a
  neighbour's remaining time to live is what it was less the seconds that were read in all, and
  the neighbour is gone exactly when none is left.\<close>
theorem clock_ages_by_elapsed_seconds:
  assumes "nl_inv (neighbour_list clock)" and "nl_lookup (neighbour_list clock) cp = Some e"
    and "0 < total_read rs"
  shows "case clock_run rs (clock, nenv, env) of (n, clock', _) \<Rightarrow>
    nl_lookup (neighbour_list clock') cp =
      (if total_read rs < unat (ne_time_to_live e)
       then Some (e\<lparr>ne_time_to_live := of_nat (unat (ne_time_to_live e) - total_read rs)\<rparr>)
       else None)"
  using clock_run_neighbours [of "(clock, nenv, env)" rs cp] assms by (simp add: case_prod_beta)

definition example_clock :: ClockHandler where
  "example_clock = \<lparr>neighbour_list = [([1], [([2], \<lparr>ne_chassis_id = [1], ne_port_id = [2],
      ne_interface_index = 3, ne_time_to_live = 30, ne_ipv4_address = None, ne_ipv6_address = None\<rparr>)])],
    lldp_repository = \<lparr>current_state = [], device_repository = None\<rparr>, dumping_enabled = True, dump_timer = 0\<rparr>"

theorem clock_ages_by_elapsed_seconds_witness:
  "case clock_run [Some 1, None, Some 28] (example_clock, example_nl_env, example_link_env) of (n, clock', _) \<Rightarrow>
     \<exists>e. nl_lookup (neighbour_list clock') ([1], [2]) = Some e \<and> ne_time_to_live e = 1"
proof -
  have "nl_inv (neighbour_list example_clock)"
    by (auto simp: example_clock_def nl_inv_def om_inv_Cons om_find_Cons split: if_splits)
  moreover have "nl_lookup (neighbour_list example_clock) ([1], [2]) =
      Some \<lparr>ne_chassis_id = [1], ne_port_id = [2],
      ne_interface_index = 3, ne_time_to_live = 30, ne_ipv4_address = None, ne_ipv6_address = None\<rparr>"
    by (simp add: example_clock_def nl_lookup_def om_find_Cons)
  ultimately show ?thesis
    using clock_ages_by_elapsed_seconds [of example_clock "([1], [2])" _ "[Some 1, None, Some 28]" example_nl_env example_link_env]
    by (simp add: case_prod_beta)
qed

text \<open>With dumps enabled, the tables are printed at least once in every run of calls that reads five
  seconds or more in all, however they are split.\<close>
theorem info_dumped_every_five_seconds:
  assumes "dumping_enabled clock" and "dump_timer clock \<le> 5" and "5 \<le> total_read rs"
  shows "0 < fst (clock_run rs (clock, nenv, env))"
  using clock_run_dumps [of "(clock, nenv, env)" rs] assms by (simp add: word_le_nat_alt)

theorem info_dumped_every_five_seconds_witness:
  "0 < fst (clock_run [Some 2, None, Some 3] (example_clock, example_nl_env, example_link_env))"
  by (rule info_dumped_every_five_seconds) (simp_all add: example_clock_def)

end
