(* ===== verification/Client.thy ===== *)
theory Client
  imports Lldp_Monitor Lldp_Repository
begin

section \<open>The client protocol\<close>

text \<open>
  \<open>client.cc\<close>: a client asks for the neighbour list over a sequential-packet socket by sending a
  request identifier; \<open>ClientSenderSocket::DumpData\<close> answers with one packet per chassis, neighbour,
  local interface and address and a final one that marks the end; \<open>ClientReceiverSocket::GetData\<close>
  puts the table together again.  A datagram is the bytes of a \<open>ClientPacket\<close> object, whose data
  are the bytes of one entry.  What the operating system does is a parameter: the results of
  \<open>recvmsg\<close> with the value of \<open>errno\<close> after the call, and the list of datagrams handed to
  \<open>sendmsg\<close>, whose result the code ignores.
\<close>

definition DATA_MAX_SIZE :: nat where "DATA_MAX_SIZE = 512"
definition IF_NAMESIZE :: nat where "IF_NAMESIZE = 16"

definition END_OF_DATA :: byte where "END_OF_DATA = 0"
definition CHASSIS_ENTRY :: byte where "CHASSIS_ENTRY = 1"
definition NEIGHBOUR_ENTRY :: byte where "NEIGHBOUR_ENTRY = 2"
definition IP_ENTRY :: byte where "IP_ENTRY = 3"
definition IPV6_ENTRY :: byte where "IPV6_ENTRY = 4"
definition LOCAL_INTERFACE_ENTRY :: byte where "LOCAL_INTERFACE_ENTRY = 5"

lemmas entry_type_defs =
  END_OF_DATA_def CHASSIS_ENTRY_def NEIGHBOUR_ENTRY_def IP_ENTRY_def IPV6_ENTRY_def
  LOCAL_INTERFACE_ENTRY_def

subsection \<open>Entries and packets\<close>

text \<open>The packed structures; an array is a list of the length its type gives.\<close>

record ChassisEntry =
  ce_chassis_id :: u16
  ce_name_length :: u16
  ce_name :: bytes

record ClientNeighbourEntry =
  cn_chassis_id :: u16
  cn_neighbour_id :: u16
  cn_port_size :: u16
  cn_neighbour_port :: bytes

record IpEntry =
  ip_neighbour_id :: u16
  ip_address :: bytes
  ip_padding :: bytes

record Ipv6Entry =
  ip6_neighbour_id :: u16
  ip6_address :: bytes
  ip6_padding :: bytes

record LocalInterfaceEntry =
  li_neighbour_id :: u16
  li_if_index :: u32
  li_name :: bytes
  li_padding :: bytes

record ClientPacket =
  cp_request_id :: u16
  cp_type :: byte
  cp_padding :: byte
  cp_data :: bytes

text \<open>The bytes of an object of each structure, which the constructors copy into \<open>data\<close>.\<close>

definition ChassisEntry_bytes :: "ChassisEntry \<Rightarrow> bytes" where
  "ChassisEntry_bytes e = as_bytes16 (ce_chassis_id e) @ as_bytes16 (ce_name_length e) @ ce_name e"

definition ClientNeighbourEntry_bytes :: "ClientNeighbourEntry \<Rightarrow> bytes" where
  "ClientNeighbourEntry_bytes e =
     as_bytes16 (cn_chassis_id e) @ as_bytes16 (cn_neighbour_id e) @ as_bytes16 (cn_port_size e) @
     cn_neighbour_port e"

definition IpEntry_bytes :: "IpEntry \<Rightarrow> bytes" where
  "IpEntry_bytes e = as_bytes16 (ip_neighbour_id e) @ ip_address e @ ip_padding e"

definition Ipv6Entry_bytes :: "Ipv6Entry \<Rightarrow> bytes" where
  "Ipv6Entry_bytes e = as_bytes16 (ip6_neighbour_id e) @ ip6_address e @ ip6_padding e"

definition LocalInterfaceEntry_bytes :: "LocalInterfaceEntry \<Rightarrow> bytes" where
  "LocalInterfaceEntry_bytes e =
     as_bytes16 (li_neighbour_id e) @ as_bytes32 (li_if_index e) @ li_name e @ li_padding e"

definition ClientPacket_default :: ClientPacket where
  "ClientPacket_default = \<lparr>cp_request_id = 0, cp_type = END_OF_DATA, cp_padding = 0,
     cp_data = replicate DATA_MAX_SIZE 0\<rparr>"

text \<open>The constructors from an entry: \<open>data\<close> starts as zeros and is overwritten.\<close>

definition ClientPacket_of :: "u16 \<Rightarrow> byte \<Rightarrow> bytes \<Rightarrow> ClientPacket" where
  "ClientPacket_of rid type entry_data_span = \<lparr>cp_request_id = rid, cp_type = type, cp_padding = 0,
     cp_data = overwrite (replicate DATA_MAX_SIZE 0) 0 entry_data_span\<rparr>"

definition ClientPacket_bytes :: "ClientPacket \<Rightarrow> bytes" where
  "ClientPacket_bytes p = as_bytes16 (cp_request_id p) @ [cp_type p, cp_padding p] @ cp_data p"

definition sizeof_ClientPacket :: nat where
  "sizeof_ClientPacket = 4 + DATA_MAX_SIZE"

subsection \<open>The service\<close>

text \<open>The address arrays of an entry have the size of their type: \<open>DATA_MAX_SIZE\<close> less the rest.\<close>

definition sendChassisEntryPacket :: "u16 \<Rightarrow> u16 \<Rightarrow> bytes \<Rightarrow> ClientPacket list cpp" where
  "sendChassisEntryPacket request_id chassis_id_counter chassis =
     (let name = replicate (DATA_MAX_SIZE - 4) 0
      in if length name < length chassis then Inr []
         else bind_cpp (copy_out chassis (name, 0)) (\<lambda>(name, _).
           Inr [ClientPacket_of request_id CHASSIS_ENTRY
             (ChassisEntry_bytes \<lparr>ce_chassis_id = chassis_id_counter,
                ce_name_length = of_nat (length chassis), ce_name = name\<rparr>)]))"

definition sendNeighbourEntry :: "u16 \<Rightarrow> u16 \<Rightarrow> u16 \<Rightarrow> bytes \<Rightarrow> ClientPacket list cpp" where
  "sendNeighbourEntry request_id chassis_id_counter neighbour_id_counter port =
     bind_cpp (copy_out port (replicate (DATA_MAX_SIZE - 6) 0, 0)) (\<lambda>(neighbour_port, _).
       Inr [ClientPacket_of request_id NEIGHBOUR_ENTRY
         (ClientNeighbourEntry_bytes \<lparr>cn_chassis_id = chassis_id_counter,
            cn_neighbour_id = neighbour_id_counter, cn_port_size = of_nat (length port),
            cn_neighbour_port = neighbour_port\<rparr>)])"

definition sendLocalInterfaceEntry ::
  "u16 \<Rightarrow> u16 \<Rightarrow> senders \<Rightarrow> NeighbourEntry \<Rightarrow> ClientPacket list cpp" where
  "sendLocalInterfaceEntry request_id neighbour_id device_info neighbour =
     (case om_find device_info (ucast (ne_interface_index neighbour)) of None \<Rightarrow> Inr []
      | Some sender \<Rightarrow>
        (case interface_name (device_data sender) of None \<Rightarrow> Inr []
         | Some if_name \<Rightarrow>
           bind_cpp (copy_out if_name (replicate IF_NAMESIZE 0, 0)) (\<lambda>(name, _).
             Inr [ClientPacket_of request_id LOCAL_INTERFACE_ENTRY
               (LocalInterfaceEntry_bytes \<lparr>li_neighbour_id = neighbour_id,
                  li_if_index = ucast (ne_interface_index neighbour), li_name = name,
                  li_padding = replicate (DATA_MAX_SIZE - 6 - IF_NAMESIZE) 0\<rparr>)])))"

text \<open>The two conditional blocks of \<open>DumpData\<close> that send the addresses.\<close>

definition send_addresses :: "u16 \<Rightarrow> u16 \<Rightarrow> NeighbourEntry \<Rightarrow> ClientPacket list" where
  "send_addresses request_id neighbour_id_counter neighbour =
     (case ne_ipv4_address neighbour of None \<Rightarrow> []
      | Some address \<Rightarrow> [ClientPacket_of request_id IP_ENTRY
          (IpEntry_bytes \<lparr>ip_neighbour_id = neighbour_id_counter, ip_address = address,
             ip_padding = replicate (DATA_MAX_SIZE - 2 - sizeof_in_addr) 0\<rparr>)]) @
     (case ne_ipv6_address neighbour of None \<Rightarrow> []
      | Some address \<Rightarrow> [ClientPacket_of request_id IPV6_ENTRY
          (Ipv6Entry_bytes \<lparr>ip6_neighbour_id = neighbour_id_counter, ip6_address = address,
             ip6_padding = replicate (DATA_MAX_SIZE - 2 - sizeof_in6_addr) 0\<rparr>)])"

text \<open>The inner loop, over the ports of a chassis: the packets sent and the next neighbour identifier.\<close>

fun dump_ports ::
  "u16 \<Rightarrow> senders \<Rightarrow> u16 \<Rightarrow> u16 \<Rightarrow> port_map \<Rightarrow> (ClientPacket list \<times> u16) cpp" where
  "dump_ports request_id device_info chassis_id_counter neighbour_id_counter [] =
     Inr ([], neighbour_id_counter)"
| "dump_ports request_id device_info chassis_id_counter neighbour_id_counter ((port, neighbour) # port_map) =
     bind_cpp (sendNeighbourEntry request_id chassis_id_counter neighbour_id_counter port) (\<lambda>ps.
     bind_cpp (sendLocalInterfaceEntry request_id neighbour_id_counter device_info neighbour) (\<lambda>qs.
     bind_cpp (dump_ports request_id device_info chassis_id_counter (neighbour_id_counter + 1) port_map) (\<lambda>(rs, n).
       Inr (ps @ qs @ send_addresses request_id neighbour_id_counter neighbour @ rs, n))))"

text \<open>The outer loop.\<close>

fun dump_chassis ::
  "u16 \<Rightarrow> senders \<Rightarrow> u16 \<Rightarrow> u16 \<Rightarrow> NeighbourList \<Rightarrow> ClientPacket list cpp" where
  "dump_chassis request_id device_info chassis_id_counter neighbour_id_counter [] = Inr []"
| "dump_chassis request_id device_info chassis_id_counter neighbour_id_counter ((chassis, port_map) # chassis_map) =
     bind_cpp (sendChassisEntryPacket request_id chassis_id_counter chassis) (\<lambda>ps.
     bind_cpp (dump_ports request_id device_info chassis_id_counter neighbour_id_counter port_map) (\<lambda>(qs, n).
     bind_cpp (dump_chassis request_id device_info (chassis_id_counter + 1) n chassis_map) (\<lambda>rs.
       Inr (ps @ qs @ rs))))"

definition DumpData :: "u16 \<Rightarrow> senders \<Rightarrow> NeighbourList \<Rightarrow> bytes list cpp" where
  "DumpData request_id device_info neighbour_list =
     bind_cpp (dump_chassis request_id device_info 0 0 neighbour_list) (\<lambda>ps.
       Inr (map ClientPacket_bytes (ps @ [ClientPacket_default])))"

text \<open>
  \<open>ClientSenderSocket\<close>: one connected client.  A call receives a datagram (\<open>MSG_TRUNC\<close>: its real
  length counts); \<open>None\<close> stands for an error, an empty one for the end of the connection.  The
  result says whether the notification descriptor of the repository was written.
\<close>

record ClientSenderSocket =
  client_socket :: nat
  eof_received :: bool

definition ClientSenderSocket_Call ::
  "bytes option \<Rightarrow> senders \<Rightarrow> NeighbourList \<Rightarrow> ClientSenderSocket \<Rightarrow>
   (ClientSenderSocket \<times> bytes list \<times> bool) cpp" where
  "ClientSenderSocket_Call received device_info neighbour_list s =
     (case received of None \<Rightarrow> Inr (s, [], False)
      | Some datagram \<Rightarrow>
        if length datagram = 0 then Inr (s\<lparr>eof_received := True\<rparr>, [], True)
        else if length datagram \<noteq> 2 then Inr (s, [], False)
        else bind_cpp (DumpData (of_bytes16 (datagram ! 0) (datagram ! 1)) device_info neighbour_list)
          (\<lambda>packets. Inr (s, packets, False)))"

subsection \<open>The client\<close>

record NeighbourDeviceData =
  nd_chassis :: bytes
  nd_port :: bytes
  nd_local_interface_name :: "bytes option"
  nd_ipv4_address :: "bytes option"
  nd_ipv6_address :: "bytes option"

definition NeighbourDeviceData_default :: NeighbourDeviceData where
  "NeighbourDeviceData_default = \<lparr>nd_chassis = [], nd_port = [], nd_local_interface_name = None,
     nd_ipv4_address = None, nd_ipv6_address = None\<rparr>"

type_synonym chassis_names = "(u16, bytes) omap"
type_synonym neighbour_devices = "(u16, NeighbourDeviceData) omap"

datatype data_packet =
  Chassis ChassisEntry | Neighbour ClientNeighbourEntry | Ip IpEntry | Ipv6 Ipv6Entry
| Local_interface LocalInterfaceEntry | Monostate

text \<open>A call of \<open>recvmsg\<close>: the datagram, or \<open>None\<close> for an error, and \<open>errno\<close> after the call.\<close>

type_synonym recv_result = "bytes option \<times> int"

definition readData :: "recv_result \<Rightarrow> int + ClientPacket" where
  "readData r =
     (case fst r of None \<Rightarrow> Inl (snd r)
      | Some datagram \<Rightarrow>
        let received = take sizeof_ClientPacket datagram
        in if length received < sizeof_ClientPacket then Inl (int (length received))
           else Inr \<lparr>cp_request_id = of_bytes16 (received ! 0) (received ! 1), cp_type = received ! 2,
                  cp_padding = received ! 3, cp_data = drop 4 received\<rparr>)"

text \<open>\<open>std::bit_cast\<close> of the 512 bytes of data to each structure.\<close>

definition of_bytes32 :: "bytes \<Rightarrow> u32" where
  "of_bytes32 bs = ucast (of_bytes16 (bs ! 0) (bs ! 1)) OR push_bit 16 (ucast (of_bytes16 (bs ! 2) (bs ! 3)))"

definition ChassisEntry_cast :: "bytes \<Rightarrow> ChassisEntry" where
  "ChassisEntry_cast d = \<lparr>ce_chassis_id = of_bytes16 (d ! 0) (d ! 1),
     ce_name_length = of_bytes16 (d ! 2) (d ! 3), ce_name = drop 4 d\<rparr>"

definition ClientNeighbourEntry_cast :: "bytes \<Rightarrow> ClientNeighbourEntry" where
  "ClientNeighbourEntry_cast d = \<lparr>cn_chassis_id = of_bytes16 (d ! 0) (d ! 1),
     cn_neighbour_id = of_bytes16 (d ! 2) (d ! 3), cn_port_size = of_bytes16 (d ! 4) (d ! 5),
     cn_neighbour_port = drop 6 d\<rparr>"

definition IpEntry_cast :: "bytes \<Rightarrow> IpEntry" where
  "IpEntry_cast d = \<lparr>ip_neighbour_id = of_bytes16 (d ! 0) (d ! 1),
     ip_address = take sizeof_in_addr (drop 2 d), ip_padding = drop (2 + sizeof_in_addr) d\<rparr>"

definition Ipv6Entry_cast :: "bytes \<Rightarrow> Ipv6Entry" where
  "Ipv6Entry_cast d = \<lparr>ip6_neighbour_id = of_bytes16 (d ! 0) (d ! 1),
     ip6_address = take sizeof_in6_addr (drop 2 d), ip6_padding = drop (2 + sizeof_in6_addr) d\<rparr>"

definition LocalInterfaceEntry_cast :: "bytes \<Rightarrow> LocalInterfaceEntry" where
  "LocalInterfaceEntry_cast d = \<lparr>li_neighbour_id = of_bytes16 (d ! 0) (d ! 1),
     li_if_index = of_bytes32 (take 4 (drop 2 d)), li_name = take IF_NAMESIZE (drop 6 d),
     li_padding = drop (6 + IF_NAMESIZE) d\<rparr>"

text \<open>The error is \<open>errno\<close> whatever \<open>readData\<close> reported, as the code has it.\<close>

definition readDataPacket :: "recv_result \<Rightarrow> int + data_packet" where
  "readDataPacket r =
     (case readData r of Inl _ \<Rightarrow> Inl (snd r)
      | Inr packet \<Rightarrow>
        if cp_type packet = END_OF_DATA then Inr Monostate
        else if cp_type packet = CHASSIS_ENTRY then Inr (Chassis (ChassisEntry_cast (cp_data packet)))
        else if cp_type packet = NEIGHBOUR_ENTRY then Inr (Neighbour (ClientNeighbourEntry_cast (cp_data packet)))
        else if cp_type packet = IP_ENTRY then Inr (Ip (IpEntry_cast (cp_data packet)))
        else if cp_type packet = IPV6_ENTRY then Inr (Ipv6 (Ipv6Entry_cast (cp_data packet)))
        else if cp_type packet = LOCAL_INTERFACE_ENTRY
          then Inr (Local_interface (LocalInterfaceEntry_cast (cp_data packet)))
        else Inl 0)"

text \<open>A vector of the first bytes of an array, and the string at its start: both must lie inside.\<close>

definition prefix_bytes :: "bytes \<Rightarrow> nat \<Rightarrow> bytes cpp" where
  "prefix_bytes arr n = (if n \<le> length arr then Inr (take n arr) else Inl Read_out_of_bounds)"

definition c_string :: "bytes \<Rightarrow> bytes cpp" where
  "c_string arr = (if 0 \<in> set arr then Inr (takeWhile (\<lambda>b. b \<noteq> 0) arr) else Inl Read_out_of_bounds)"

text \<open>The result says whether to go on reading.\<close>

fun processDataPacket ::
  "data_packet \<Rightarrow> chassis_names \<times> neighbour_devices \<Rightarrow> (bool \<times> chassis_names \<times> neighbour_devices) cpp" where
  "processDataPacket (Chassis e) (chassis_map, device_map) =
     bind_cpp (prefix_bytes (ce_name e) (unat (ce_name_length e))) (\<lambda>name.
       Inr (True, om_put (ce_chassis_id e) name chassis_map, device_map))"
| "processDataPacket (Neighbour e) (chassis_map, device_map) =
     (let chassis = om_at [] chassis_map (cn_chassis_id e);
          chassis_map = om_put (cn_chassis_id e) chassis chassis_map
      in bind_cpp (prefix_bytes (cn_neighbour_port e) (unat (cn_port_size e))) (\<lambda>port.
        Inr (True, chassis_map, om_put (cn_neighbour_id e)
          \<lparr>nd_chassis = chassis, nd_port = port, nd_local_interface_name = None,
           nd_ipv4_address = None, nd_ipv6_address = None\<rparr> device_map)))"
| "processDataPacket (Ip e) (chassis_map, device_map) =
     Inr (True, chassis_map, om_put (ip_neighbour_id e)
       ((om_at NeighbourDeviceData_default device_map (ip_neighbour_id e))\<lparr>nd_ipv4_address := Some (ip_address e)\<rparr>)
       device_map)"
| "processDataPacket (Ipv6 e) (chassis_map, device_map) =
     Inr (True, chassis_map, om_put (ip6_neighbour_id e)
       ((om_at NeighbourDeviceData_default device_map (ip6_neighbour_id e))\<lparr>nd_ipv6_address := Some (ip6_address e)\<rparr>)
       device_map)"
| "processDataPacket (Local_interface e) (chassis_map, device_map) =
     bind_cpp (c_string (li_name e)) (\<lambda>name.
       Inr (True, chassis_map, om_put (li_neighbour_id e)
         ((om_at NeighbourDeviceData_default device_map (li_neighbour_id e))\<lparr>nd_local_interface_name := Some name\<rparr>)
         device_map))"
| "processDataPacket Monostate p = Inr (False, p)"

definition MAX_DATA_TRANSPORT_PACKET_AMOUNT :: nat where
  "MAX_DATA_TRANSPORT_PACKET_AMOUNT = 100000"

text \<open>
  The loop of \<open>GetData\<close>, with the iterations left and the results of the coming calls of
  \<open>recvmsg\<close>; \<open>None\<close> means that a call blocks for ever because the list is exhausted, otherwise
  the results not yet consumed are returned with the tables.
\<close>

fun read_packets ::
  "nat \<Rightarrow> recv_result list \<Rightarrow> chassis_names \<times> neighbour_devices \<Rightarrow>
   ((chassis_names \<times> neighbour_devices) \<times> recv_result list) option cpp" where
  "read_packets 0 rs st = Inr (Some (st, rs))"
| "read_packets (Suc n) [] st = Inr None"
| "read_packets (Suc n) (r # rs) st =
     (case readDataPacket r of
        Inl err \<Rightarrow> if err = EAGAIN then read_packets n rs st else Inr (Some (st, rs))
      | Inr packet \<Rightarrow> bind_cpp (processDataPacket packet st) (\<lambda>(go_on, st).
          if go_on then read_packets n rs st else Inr (Some (st, rs))))"

record ClientReceiverSocket =
  cr_request_id :: u16

definition sendRequest :: "u16 \<Rightarrow> bytes" where
  "sendRequest request_id = as_bytes16 request_id"

declare sendRequest_def [simp]

text \<open>\<open>GetData\<close>: the request it sends, and then the table, the client and the unread datagrams.\<close>

definition GetData ::
  "recv_result list \<Rightarrow> ClientReceiverSocket \<Rightarrow>
   bytes \<times> (neighbour_devices \<times> ClientReceiverSocket \<times> recv_result list) option cpp" where
  "GetData rs c =
     (sendRequest (cr_request_id c),
      bind_cpp (read_packets MAX_DATA_TRANSPORT_PACKET_AMOUNT rs ([], [])) (\<lambda>res.
        Inr (map_option (\<lambda>((_, device_map), rest). (device_map, c\<lparr>cr_request_id := cr_request_id c + 1\<rparr>, rest)) res)))"

subsection \<open>What a packet carries\<close>

lemma of_as_bytes16_pair [simp]: "of_bytes16 (ucast w) (ucast (drop_bit 8 w)) = w"
  using of_as_bytes16 [of w] by (simp add: as_bytes16_def)

lemma of_as_bytes32 [simp]: "of_bytes32 (as_bytes32 w) = w"
proof (rule bit_word_eqI)
  fix n :: nat
  assume "n < LENGTH(32)"
  then show "bit (of_bytes32 (as_bytes32 w)) n = bit w n"
    by (cases "16 \<le> n") (auto simp: of_bytes32_def of_bytes16_def as_bytes32_def bit_simps)
qed

text \<open>Whatever \<open>errno\<close> is, the datagram of the packet \<open>p\<close> is read as \<open>d\<close>.\<close>

definition carries :: "ClientPacket \<Rightarrow> data_packet \<Rightarrow> bool" where
  "carries p d \<longleftrightarrow> (\<forall>err. readDataPacket (Some (ClientPacket_bytes p), err) = Inr d)"

lemma readData_packet:
  "length (cp_data p) = DATA_MAX_SIZE \<Longrightarrow> readData (Some (ClientPacket_bytes p), err) = Inr p"
  by (simp add: readData_def ClientPacket_bytes_def sizeof_ClientPacket_def as_bytes16_def)

lemma data_of_packet:
  "length bs = DATA_MAX_SIZE \<Longrightarrow> cp_data (ClientPacket_of rid t bs) = bs"
  by (simp add: ClientPacket_of_def overwrite_all)

lemma carries_packet_of:
  "length bs = DATA_MAX_SIZE \<Longrightarrow>
   carries (ClientPacket_of rid t bs) d \<longleftrightarrow> (\<forall>err.
     (if t = END_OF_DATA then Inr Monostate
      else if t = CHASSIS_ENTRY then Inr (Chassis (ChassisEntry_cast bs))
      else if t = NEIGHBOUR_ENTRY then Inr (Neighbour (ClientNeighbourEntry_cast bs))
      else if t = IP_ENTRY then Inr (Ip (IpEntry_cast bs))
      else if t = IPV6_ENTRY then Inr (Ipv6 (Ipv6Entry_cast bs))
      else if t = LOCAL_INTERFACE_ENTRY then Inr (Local_interface (LocalInterfaceEntry_cast bs))
      else Inl (0 :: int)) = Inr d)"
proof -
  assume "length bs = DATA_MAX_SIZE"
  moreover have "cp_type (ClientPacket_of rid t bs) = t" by (simp add: ClientPacket_of_def)
  ultimately show ?thesis
    by (simp add: carries_def readDataPacket_def readData_packet data_of_packet)
qed

lemmas carries_simps = entry_type_defs DATA_MAX_SIZE_def IF_NAMESIZE_def

lemma carries_chassis:
  "length (ce_name e) = 508 \<Longrightarrow>
   carries (ClientPacket_of rid CHASSIS_ENTRY (ChassisEntry_bytes e)) (Chassis e)"
  by (subst carries_packet_of) (simp_all add: carries_simps ChassisEntry_bytes_def ChassisEntry_cast_def as_bytes16_def)

lemma carries_neighbour:
  "length (cn_neighbour_port e) = 506 \<Longrightarrow>
   carries (ClientPacket_of rid NEIGHBOUR_ENTRY (ClientNeighbourEntry_bytes e)) (Neighbour e)"
  by (subst carries_packet_of) (simp_all add: carries_simps ClientNeighbourEntry_bytes_def ClientNeighbourEntry_cast_def as_bytes16_def)

lemma carries_ip:
  "length (ip_address e) = 4 \<Longrightarrow> length (ip_padding e) = 506 \<Longrightarrow>
   carries (ClientPacket_of rid IP_ENTRY (IpEntry_bytes e)) (Ip e)"
  by (subst carries_packet_of) (simp_all add: carries_simps IpEntry_bytes_def IpEntry_cast_def as_bytes16_def sizeof_in_addr_def)

lemma carries_ipv6:
  "length (ip6_address e) = 16 \<Longrightarrow> length (ip6_padding e) = 494 \<Longrightarrow>
   carries (ClientPacket_of rid IPV6_ENTRY (Ipv6Entry_bytes e)) (Ipv6 e)"
  by (subst carries_packet_of) (simp_all add: carries_simps Ipv6Entry_bytes_def Ipv6Entry_cast_def as_bytes16_def sizeof_in6_addr_def)

lemma carries_local_interface:
  "length (li_name e) = 16 \<Longrightarrow> length (li_padding e) = 490 \<Longrightarrow>
   carries (ClientPacket_of rid LOCAL_INTERFACE_ENTRY (LocalInterfaceEntry_bytes e)) (Local_interface e)"
  by (subst carries_packet_of) (simp_all add: carries_simps LocalInterfaceEntry_bytes_def LocalInterfaceEntry_cast_def as_bytes16_def)

lemma carries_end: "carries ClientPacket_default Monostate"
  by (simp add: carries_def readDataPacket_def readData_packet ClientPacket_default_def)

subsection \<open>Groups of packets\<close>

primrec process_all ::
  "data_packet list \<Rightarrow> chassis_names \<times> neighbour_devices \<Rightarrow> (chassis_names \<times> neighbour_devices) cpp" where
  "process_all [] st = Inr st"
| "process_all (d # ds) st = bind_cpp (processDataPacket d st) (\<lambda>(_, st). process_all ds st)"

text \<open>The client that reads the packets \<open>ps\<close> goes from the tables \<open>st\<close> to \<open>st'\<close> and reads on.\<close>

definition transfers ::
  "ClientPacket list \<Rightarrow> chassis_names \<times> neighbour_devices \<Rightarrow> chassis_names \<times> neighbour_devices \<Rightarrow> bool" where
  "transfers ps st st' \<longleftrightarrow>
     (\<exists>ds. list_all2 carries ps ds \<and> Monostate \<notin> set ds \<and> process_all ds st = Inr st')"

lemma transfers_Nil: "transfers [] st st"
  by (simp add: transfers_def)

lemma process_all_append:
  "process_all (ds @ es) st = bind_cpp (process_all ds st) (process_all es)"
  by (induction ds arbitrary: st) (simp_all add: bind_cpp_assoc split_beta')

lemma transfers_append: "transfers ps st st' \<Longrightarrow> transfers qs st' st'' \<Longrightarrow> transfers (ps @ qs) st st''"
  unfolding transfers_def
  by (metis (no_types, lifting) Un_iff bind_cpp.simps(2) list_all2_appendI process_all_append set_append)

lemma transfers_single:
  "carries p d \<Longrightarrow> d \<noteq> Monostate \<Longrightarrow> processDataPacket d st = Inr (b, st') \<Longrightarrow> transfers [p] st st'"
  unfolding transfers_def by (intro exI [of _ "[d]"]) simp

lemma processDataPacket_goes_on:
  "d \<noteq> Monostate \<Longrightarrow> processDataPacket d st = Inr (b, st') \<Longrightarrow> b"
  by (cases d; cases st) (auto simp: Let_def)

lemma read_packets_process:
  "list_all2 carries ps ds \<Longrightarrow> Monostate \<notin> set ds \<Longrightarrow> process_all ds st = Inr st' \<Longrightarrow>
   map fst rs = map (Some \<circ> ClientPacket_bytes) ps \<Longrightarrow> length ps \<le> n \<Longrightarrow>
   read_packets n (rs @ rest) st = read_packets (n - length ps) rest st'"
proof (induction ps ds arbitrary: rs n st rule: list_all2_induct)
  case (Cons p ps d ds)
  obtain err rs' where rs: "rs = (Some (ClientPacket_bytes p), err) # rs'"
      "map fst rs' = map (Some \<circ> ClientPacket_bytes) ps"
    using Cons.prems(3) by (cases rs) (auto simp: prod_eq_iff)
  obtain b st1 where d: "processDataPacket d st = Inr (b, st1)" "process_all ds st1 = Inr st'"
    using Cons.prems(2) by auto
  have "b" by (rule processDataPacket_goes_on [OF _ d(1)]) (use Cons.prems(1) in auto)
  moreover obtain m where "n = Suc m" "length ps \<le> m"
    using Cons.prems(4) by (cases n) auto
  moreover have "readDataPacket (Some (ClientPacket_bytes p), err) = Inr d"
    using Cons.hyps(1) by (simp add: carries_def)
  ultimately show ?case
    using Cons.IH [OF _ d(2) rs(2)] Cons.prems(1) d(1) rs(1) by simp
qed simp

lemma read_packets_transfers:
  assumes "transfers ps st st'" "length ps \<le> n" "map fst rs = map (Some \<circ> ClientPacket_bytes) ps"
  shows "read_packets n (rs @ rest) st = read_packets (n - length ps) rest st'"
  using assms read_packets_process unfolding transfers_def by blast

subsection \<open>The table the client should see\<close>

text \<open>The neighbours in the order the service visits them, and what a client is shown of one.\<close>

definition neighbours_of :: "NeighbourList \<Rightarrow> (bytes \<times> bytes \<times> NeighbourEntry) list" where
  "neighbours_of nl = concat (map (\<lambda>(chassis, pm). map (\<lambda>(port, e). (chassis, port, e)) pm) nl)"

definition local_interface_name :: "senders \<Rightarrow> NeighbourEntry \<Rightarrow> bytes option" where
  "local_interface_name device_info e =
     Option.bind (om_find device_info (ucast (ne_interface_index e))) (\<lambda>s. interface_name (device_data s))"

definition client_view :: "senders \<Rightarrow> bytes \<times> bytes \<times> NeighbourEntry \<Rightarrow> NeighbourDeviceData" where
  "client_view device_info = (\<lambda>(chassis, port, e).
     \<lparr>nd_chassis = (if length chassis \<le> 508 then chassis else []), nd_port = port,
      nd_local_interface_name = local_interface_name device_info e,
      nd_ipv4_address = ne_ipv4_address e, nd_ipv6_address = ne_ipv6_address e\<rparr>)"

text \<open>A list as a map from its positions.\<close>

definition numbered :: "'a list \<Rightarrow> (u16, 'a) omap" where
  "numbered xs = zip (map of_nat [0..<length xs]) xs"

definition client_table :: "senders \<Rightarrow> NeighbourList \<Rightarrow> neighbour_devices" where
  "client_table device_info nl = numbered (map (client_view device_info) (neighbours_of nl))"

lemma numbered_Nil [simp]: "numbered [] = []"
  by (simp add: numbered_def)

lemma numbered_snoc: "numbered (xs @ [x]) = numbered xs @ [(of_nat (length xs), x)]"
  by (simp add: numbered_def)

lemma of_nat_less_u16: "i < n \<Longrightarrow> n < 65536 \<Longrightarrow> (of_nat i :: u16) < of_nat n"
  by (simp add: word_less_nat_alt unsigned_of_nat take_bit_nat_eq_self)

lemma numbered_keys: "a \<in> set (numbered xs) \<Longrightarrow> length xs < 65536 \<Longrightarrow> fst a < of_nat (length xs)"
  by (auto simp: numbered_def set_zip intro: of_nat_less_u16)

lemma om_put_above: "\<forall>a \<in> set m. fst a < k \<Longrightarrow> om_put k v m = m @ [(k, v)]"
  by (induction k v m rule: om_put.induct) auto

lemma om_put_last: "\<forall>a \<in> set m. fst a < k \<Longrightarrow> om_put k v (m @ [(k, w)]) = m @ [(k, v)]"
  by (induction k v m rule: om_put.induct) auto

lemma om_at_last: "\<forall>a \<in> set m. fst a < k \<Longrightarrow> om_at d (m @ [(k, w)]) k = w"
  for k :: "'k :: linorder"
  by (induction m) (auto simp: om_at_def)

text \<open>The newest element of a numbered list is added, looked up and replaced.\<close>

lemma numbered_put_new:
  "length xs < 65536 \<Longrightarrow> om_put (of_nat (length xs)) x (numbered xs) = numbered (xs @ [x])"
  using numbered_keys [of _ xs] by (simp add: om_put_above numbered_snoc)

lemma numbered_put_last:
  "length xs < 65536 \<Longrightarrow> om_put (of_nat (length xs)) y (numbered (xs @ [x])) = numbered (xs @ [y])"
  using numbered_keys [of _ xs] by (simp add: om_put_last numbered_snoc)

lemma numbered_at_last:
  "length xs < 65536 \<Longrightarrow> om_at d (numbered (xs @ [x])) (of_nat (length xs)) = x"
  using numbered_keys [of _ xs] by (simp add: om_at_last numbered_snoc)

lemmas numbered_simps = numbered_put_new numbered_put_last numbered_at_last

text \<open>Interface names as the kernel has them: shorter than \<open>IF_NAMESIZE\<close>, without a zero.\<close>

definition names_ok :: "senders \<Rightarrow> bool" where
  "names_ok device_info \<longleftrightarrow> (\<forall>idx s name. om_find device_info idx = Some s \<longrightarrow>
     interface_name (device_data s) = Some name \<longrightarrow> length name < 16 \<and> 0 \<notin> set name)"

lemma takeWhile_padded: "0 \<notin> set name \<Longrightarrow> takeWhile (\<lambda>b. b \<noteq> 0) (name @ replicate n (0 :: byte)) = name"
  by (induction name) (auto simp: takeWhile_eq_Nil_iff)

lemma c_string_padded:
  "0 \<notin> set name \<Longrightarrow> length name < 16 \<Longrightarrow>
   c_string (overwrite (replicate 16 0) 0 name) = Inr name"
  by (auto simp: c_string_def overwrite_def takeWhile_padded)

lemma prefix_bytes_padded:
  "length bs \<le> n \<Longrightarrow> prefix_bytes (overwrite (replicate n 0) 0 bs) (length bs) = Inr bs"
  by (simp add: prefix_bytes_def overwrite_def)

lemma unat_length_u16: "length bs < 65536 \<Longrightarrow> unat (of_nat (length bs) :: u16) = length bs"
  by (simp add: unsigned_of_nat take_bit_nat_eq_self)

subsection \<open>The packets of one neighbour\<close>

lemma chassis_transfers:
  assumes "om_inv cm" "om_find cm ci = None"
  shows "\<exists>ps cm'. sendChassisEntryPacket rid ci chassis = Inr ps \<and> length ps \<le> 1 \<and>
     transfers ps (cm, nm) (cm', nm) \<and> om_inv cm' \<and>
     om_at [] cm' ci = (if length chassis \<le> 508 then chassis else []) \<and>
     set (om_keys cm') \<subseteq> insert ci (set (om_keys cm))"
proof (cases "length chassis \<le> 508")
  case True
  let ?e = "\<lparr>ce_chassis_id = ci, ce_name_length = of_nat (length chassis),
     ce_name = overwrite (replicate 508 0) 0 chassis\<rparr>"
  have "transfers [ClientPacket_of rid CHASSIS_ENTRY (ChassisEntry_bytes ?e)] (cm, nm) (om_put ci chassis cm, nm)"
    using True by (intro transfers_single [OF carries_chassis])
      (auto simp: unat_length_u16 prefix_bytes_padded)
  then show ?thesis
    using True assms
    by (intro exI [of _ "[ClientPacket_of rid CHASSIS_ENTRY (ChassisEntry_bytes ?e)]"] exI [of _ "om_put ci chassis cm"])
      (auto simp: sendChassisEntryPacket_def DATA_MAX_SIZE_def copy_out_fits om_at_find Let_def
        simp del: copy_out.simps)
next
  case False
  then show ?thesis
    using assms
    by (intro exI [of _ "[]"] exI [of _ cm])
      (auto simp: sendChassisEntryPacket_def DATA_MAX_SIZE_def om_at_find transfers_Nil)
qed

lemma neighbour_transfers:
  assumes "length port \<le> 506" "length xs < 65536"
  shows "\<exists>ps. sendNeighbourEntry rid ci (of_nat (length xs)) port = Inr ps \<and> length ps = 1 \<and>
     transfers ps (cm, numbered xs) (om_put ci (om_at [] cm ci) cm, numbered (xs @
       [\<lparr>nd_chassis = om_at [] cm ci, nd_port = port, nd_local_interface_name = None,
         nd_ipv4_address = None, nd_ipv6_address = None\<rparr>]))"
proof -
  let ?e = "\<lparr>cn_chassis_id = ci, cn_neighbour_id = of_nat (length xs),
     cn_port_size = of_nat (length port), cn_neighbour_port = overwrite (replicate 506 0) 0 port\<rparr>"
  have "transfers [ClientPacket_of rid NEIGHBOUR_ENTRY (ClientNeighbourEntry_bytes ?e)] (cm, numbered xs)
      (om_put ci (om_at [] cm ci) cm, numbered (xs @
       [\<lparr>nd_chassis = om_at [] cm ci, nd_port = port, nd_local_interface_name = None,
         nd_ipv4_address = None, nd_ipv6_address = None\<rparr>]))"
    using assms by (intro transfers_single [OF carries_neighbour])
      (auto simp: unat_length_u16 prefix_bytes_padded numbered_simps Let_def)
  then show ?thesis
    using assms by (simp add: sendNeighbourEntry_def DATA_MAX_SIZE_def copy_out_fits del: copy_out.simps)
qed

lemma local_interface_transfers:
  assumes "names_ok device_info" "length xs < 65536" "nd_local_interface_name x = None"
  shows "\<exists>ps. sendLocalInterfaceEntry rid (of_nat (length xs)) device_info e = Inr ps \<and> length ps \<le> 1 \<and>
     transfers ps (cm, numbered (xs @ [x]))
       (cm, numbered (xs @ [x\<lparr>nd_local_interface_name := local_interface_name device_info e\<rparr>]))"
proof (cases "local_interface_name device_info e")
  case None
  have "x\<lparr>nd_local_interface_name := None\<rparr> = x" using assms(3) by (cases x) simp
  then show ?thesis
    using None by (intro exI [of _ "[]"])
      (auto simp: sendLocalInterfaceEntry_def local_interface_name_def transfers_Nil bind_eq_None_conv
        split: option.split)
next
  case (Some name)
  then obtain s where s: "om_find device_info (ucast (ne_interface_index e)) = Some s"
      "interface_name (device_data s) = Some name"
    by (auto simp: local_interface_name_def bind_eq_Some_conv)
  then have name: "length name < 16" "0 \<notin> set name"
    using assms(1) by (auto simp: names_ok_def)
  let ?l = "\<lparr>li_neighbour_id = of_nat (length xs), li_if_index = ucast (ne_interface_index e),
     li_name = overwrite (replicate 16 0) 0 name, li_padding = replicate 490 0\<rparr>"
  have "transfers [ClientPacket_of rid LOCAL_INTERFACE_ENTRY (LocalInterfaceEntry_bytes ?l)]
      (cm, numbered (xs @ [x])) (cm, numbered (xs @ [x\<lparr>nd_local_interface_name := Some name\<rparr>]))"
    using assms(2) name by (intro transfers_single [OF carries_local_interface])
      (auto simp: c_string_padded numbered_simps)
  then show ?thesis
    using Some s name
    by (simp add: sendLocalInterfaceEntry_def DATA_MAX_SIZE_def IF_NAMESIZE_def copy_out_fits
        del: copy_out.simps)
qed

lemma addresses_transfer:
  assumes "length xs < 65536" "pred_option (\<lambda>a. length a = 4) (ne_ipv4_address e)"
    and "pred_option (\<lambda>a. length a = 16) (ne_ipv6_address e)"
    and "nd_ipv4_address x = None" "nd_ipv6_address x = None"
  shows "transfers (send_addresses rid (of_nat (length xs)) e) (cm, numbered (xs @ [x]))
     (cm, numbered (xs @ [x\<lparr>nd_ipv4_address := ne_ipv4_address e, nd_ipv6_address := ne_ipv6_address e\<rparr>])) \<and>
   length (send_addresses rid (of_nat (length xs)) e) \<le> 2"
proof -
  let ?x = "x\<lparr>nd_ipv4_address := ne_ipv4_address e\<rparr>"
  have x: "x\<lparr>nd_ipv4_address := None\<rparr> = x" "?x\<lparr>nd_ipv6_address := None\<rparr> = ?x"
    using assms(4,5) by (cases x, simp)+
  have v4: "transfers (case ne_ipv4_address e of None \<Rightarrow> []
      | Some address \<Rightarrow> [ClientPacket_of rid IP_ENTRY
          (IpEntry_bytes \<lparr>ip_neighbour_id = of_nat (length xs), ip_address = address,
             ip_padding = replicate (DATA_MAX_SIZE - 2 - sizeof_in_addr) 0\<rparr>)])
      (cm, numbered (xs @ [x])) (cm, numbered (xs @ [?x]))"
    using assms(1,2) x(1)
    by (cases "ne_ipv4_address e")
      (auto simp: transfers_Nil numbered_simps DATA_MAX_SIZE_def sizeof_in_addr_def
        intro!: transfers_single [OF carries_ip])
  have "transfers (case ne_ipv6_address e of None \<Rightarrow> []
      | Some address \<Rightarrow> [ClientPacket_of rid IPV6_ENTRY
          (Ipv6Entry_bytes \<lparr>ip6_neighbour_id = of_nat (length xs), ip6_address = address,
             ip6_padding = replicate (DATA_MAX_SIZE - 2 - sizeof_in6_addr) 0\<rparr>)])
      (cm, numbered (xs @ [?x])) (cm, numbered (xs @ [?x\<lparr>nd_ipv6_address := ne_ipv6_address e\<rparr>]))"
    using assms(1,3) x(2)
    by (cases "ne_ipv6_address e")
      (auto simp: transfers_Nil numbered_simps DATA_MAX_SIZE_def sizeof_in6_addr_def
        intro!: transfers_single [OF carries_ipv6])
  from transfers_append [OF v4 this] show ?thesis
    by (auto simp: send_addresses_def split: option.split)
qed

text \<open>A neighbour that fits the packets.\<close>

definition presentable :: "bytes \<Rightarrow> NeighbourEntry \<Rightarrow> bool" where
  "presentable port e \<longleftrightarrow> length port \<le> 506 \<and> pred_option (\<lambda>a. length a = 4) (ne_ipv4_address e) \<and>
     pred_option (\<lambda>a. length a = 16) (ne_ipv6_address e)"

lemma om_at_put_self: "om_inv m \<Longrightarrow> om_at d (om_put k (om_at d m k) m) k = om_at d m k"
  by (simp add: om_at_find)

lemma dump_ports_transfer:
  assumes "names_ok device_info" "\<forall>(port, e) \<in> set pm. presentable port e"
    and "length xs + length pm \<le> 65536" "om_inv cm"
  shows "\<exists>ps cm'. dump_ports rid device_info ci (of_nat (length xs)) pm =
       Inr (ps, of_nat (length xs + length pm)) \<and> length ps \<le> 4 * length pm \<and>
     transfers ps (cm, numbered xs) (cm', numbered (xs @ map (\<lambda>(port, e).
       \<lparr>nd_chassis = om_at [] cm ci, nd_port = port,
        nd_local_interface_name = local_interface_name device_info e,
        nd_ipv4_address = ne_ipv4_address e, nd_ipv6_address = ne_ipv6_address e\<rparr>) pm)) \<and>
     om_inv cm' \<and> set (om_keys cm') \<subseteq> insert ci (set (om_keys cm))"
  using assms
proof (induction pm arbitrary: xs cm)
  case Nil
  then show ?case by (auto intro!: exI [of _ cm] simp: transfers_Nil)
next
  case (Cons pe pm)
  obtain port e where pe: "pe = (port, e)" by (cases pe)
  have ok: "presentable port e" and small: "length xs < 65536" using Cons.prems(2,3) pe by auto
  let ?cm = "om_put ci (om_at [] cm ci) cm"
  let ?x = "\<lparr>nd_chassis = om_at [] cm ci, nd_port = port, nd_local_interface_name = None,
      nd_ipv4_address = None, nd_ipv6_address = None\<rparr>"
  let ?y = "?x\<lparr>nd_local_interface_name := local_interface_name device_info e\<rparr>"
  let ?z = "?y\<lparr>nd_ipv4_address := ne_ipv4_address e, nd_ipv6_address := ne_ipv6_address e\<rparr>"
  obtain ps where ps: "sendNeighbourEntry rid ci (of_nat (length xs)) port = Inr ps" "length ps = 1"
      "transfers ps (cm, numbered xs) (?cm, numbered (xs @ [?x]))"
    using neighbour_transfers small ok unfolding presentable_def by blast
  obtain qs where qs: "sendLocalInterfaceEntry rid (of_nat (length xs)) device_info e = Inr qs"
      "length qs \<le> 1" "transfers qs (?cm, numbered (xs @ [?x])) (?cm, numbered (xs @ [?y]))"
    using local_interface_transfers [OF Cons.prems(1) small, where x = ?x and rid = rid and e = e and cm = ?cm]
    by auto
  have ts: "transfers (send_addresses rid (of_nat (length xs)) e) (?cm, numbered (xs @ [?y]))
        (?cm, numbered (xs @ [?z]))"
      "length (send_addresses rid (of_nat (length xs)) e) \<le> 2"
    using addresses_transfer [OF small, of e ?y] ok by (simp_all add: presentable_def)
  obtain rs cm' where rs: "dump_ports rid device_info ci (of_nat (Suc (length xs))) pm =
        Inr (rs, of_nat (Suc (length xs) + length pm))" "length rs \<le> 4 * length pm"
      "transfers rs (?cm, numbered (xs @ [?z])) (cm', numbered ((xs @ [?z]) @ map (\<lambda>(port, e).
         \<lparr>nd_chassis = om_at [] cm ci, nd_port = port,
          nd_local_interface_name = local_interface_name device_info e,
          nd_ipv4_address = ne_ipv4_address e, nd_ipv6_address = ne_ipv6_address e\<rparr>) pm))"
      "om_inv cm'" "set (om_keys cm') \<subseteq> insert ci (set (om_keys ?cm))"
    using Cons.IH [of "xs @ [?z]" ?cm] Cons.prems by (auto simp: om_at_put_self om_inv_put)
  have "transfers (ps @ qs @ send_addresses rid (of_nat (length xs)) e @ rs) (cm, numbered xs)
      (cm', numbered ((xs @ [?z]) @ map (\<lambda>(port, e).
         \<lparr>nd_chassis = om_at [] cm ci, nd_port = port,
          nd_local_interface_name = local_interface_name device_info e,
          nd_ipv4_address = ne_ipv4_address e, nd_ipv6_address = ne_ipv6_address e\<rparr>) pm))"
    using ps(3) qs(3) ts(1) rs(3) by (blast intro: transfers_append)
  then show ?case
    using ps(1,2) qs(1,2) ts(2) rs(1,2,4,5)
    by (intro exI [of _ "ps @ qs @ send_addresses rid (of_nat (length xs)) e @ rs"] exI [of _ cm'])
      (auto simp: pe add.commute)
qed

subsection \<open>The packets of the whole list\<close>

lemma neighbours_of_Nil [simp]: "neighbours_of [] = []"
  by (simp add: neighbours_of_def)

lemma neighbours_of_Cons:
  "neighbours_of ((chassis, pm) # nl) = map (\<lambda>(port, e). (chassis, port, e)) pm @ neighbours_of nl"
  by (simp add: neighbours_of_def)

lemma of_nat_u16_fresh: "j < 65536 \<Longrightarrow> (of_nat j :: u16) \<notin> of_nat ` {..<j}"
  using of_nat_less_u16 by fastforce

lemma dump_chassis_transfer:
  assumes "names_ok device_info" "\<forall>(chassis, port, e) \<in> set (neighbours_of nl). presentable port e"
    and "length xs + length (neighbours_of nl) \<le> 65536" "j + length nl \<le> 65536"
    and "om_inv cm" "set (om_keys cm) \<subseteq> of_nat ` {..<j}"
  shows "\<exists>ps cm'. dump_chassis rid device_info (of_nat j) (of_nat (length xs)) nl = Inr ps \<and>
     length ps \<le> length nl + 4 * length (neighbours_of nl) \<and>
     transfers ps (cm, numbered xs) (cm', numbered (xs @ map (client_view device_info) (neighbours_of nl)))"
  using assms
proof (induction nl arbitrary: j xs cm)
  case Nil
  then show ?case by (auto intro!: exI [of _ cm] simp: transfers_Nil)
next
  case (Cons cp nl)
  obtain chassis pm where cp: "cp = (chassis, pm)" by (cases cp)
  let ?new = "map (client_view device_info) (map (\<lambda>(port, e). (chassis, port, e)) pm)"
  have "om_find cm (of_nat j) = None"
    using Cons.prems(4,6) of_nat_u16_fresh [of j] by (auto simp: om_find_None_iff)
  then obtain ps cm1 where ps: "sendChassisEntryPacket rid (of_nat j) chassis = Inr ps" "length ps \<le> 1"
      "transfers ps (cm, numbered xs) (cm1, numbered xs)" "om_inv cm1"
      "om_at [] cm1 (of_nat j) = (if length chassis \<le> 508 then chassis else [])"
      "set (om_keys cm1) \<subseteq> insert (of_nat j) (set (om_keys cm))"
    using chassis_transfers Cons.prems(5) by blast
  have view: "?new = map (\<lambda>(port, e). \<lparr>nd_chassis = om_at [] cm1 (of_nat j), nd_port = port,
      nd_local_interface_name = local_interface_name device_info e,
      nd_ipv4_address = ne_ipv4_address e, nd_ipv6_address = ne_ipv6_address e\<rparr>) pm"
    by (auto simp: client_view_def ps(5))
  have "\<forall>(port, e) \<in> set pm. presentable port e"
    using Cons.prems(2) by (simp add: cp neighbours_of_Cons ball_Un case_prod_beta)
  then obtain qs cm2 where qs: "dump_ports rid device_info (of_nat j) (of_nat (length xs)) pm =
        Inr (qs, of_nat (length (xs @ ?new)))" "length qs \<le> 4 * length pm"
      "transfers qs (cm1, numbered xs) (cm2, numbered (xs @ ?new))"
      "om_inv cm2" "set (om_keys cm2) \<subseteq> insert (of_nat j) (set (om_keys cm1))"
    using dump_ports_transfer [OF Cons.prems(1) _ _ ps(4), of pm xs rid "of_nat j"] Cons.prems(3)
    unfolding view by (auto simp: cp neighbours_of_Cons)
  have "set (om_keys cm2) \<subseteq> of_nat ` {..<Suc j}"
    using qs(5) ps(6) Cons.prems(6) by (auto simp: lessThan_Suc)
  then obtain rs cm' where rs: "dump_chassis rid device_info (of_nat (Suc j)) (of_nat (length (xs @ ?new))) nl = Inr rs"
      "length rs \<le> length nl + 4 * length (neighbours_of nl)"
      "transfers rs (cm2, numbered (xs @ ?new))
         (cm', numbered ((xs @ ?new) @ map (client_view device_info) (neighbours_of nl)))"
    using Cons.IH [of "xs @ ?new" "Suc j" cm2] Cons.prems(1-4) qs(4)
    by (auto simp: cp neighbours_of_Cons)
  have "transfers (ps @ qs @ rs) (cm, numbered xs)
      (cm', numbered ((xs @ ?new) @ map (client_view device_info) (neighbours_of nl)))"
    using ps(3) qs(3) rs(3) by (blast intro: transfers_append)
  then show ?case
    using ps(1,2) qs(1,2) rs(1,2)
    by (intro exI [of _ "ps @ qs @ rs"] exI [of _ cm'])
      (auto simp: cp neighbours_of_Cons add.commute)
qed

text \<open>At least one neighbour to each chassis.\<close>

lemma length_neighbours_of: "\<forall>(chassis, pm) \<in> set nl. pm \<noteq> [] \<Longrightarrow> length nl \<le> length (neighbours_of nl)"
proof (induction nl)
  case (Cons cp nl)
  then show ?case by (cases cp; cases "snd cp") (auto simp: neighbours_of_Cons)
qed simp

lemma nl_inv_ports: "nl_inv nl \<Longrightarrow> (chassis, pm) \<in> set nl \<Longrightarrow> om_inv pm \<and> pm \<noteq> []"
  using om_find_in_set [of nl chassis pm] unfolding nl_inv_def by blast

lemma nl_inv_chassis_count: "nl_inv nl \<Longrightarrow> length nl \<le> length (neighbours_of nl)"
  using nl_inv_ports by (intro length_neighbours_of) auto

lemma in_neighbours_of:
  assumes "nl_inv nl" "(chassis, port, e) \<in> set (neighbours_of nl)"
  shows "nl_lookup nl (chassis, port) = Some e"
proof -
  obtain pm where pm: "(chassis, pm) \<in> set nl" "(port, e) \<in> set pm"
    using assms(2) by (auto simp: neighbours_of_def)
  then have "om_find nl chassis = Some pm" "om_find pm port = Some e"
    using assms(1) nl_inv_ports [OF assms(1) pm(1)] om_find_in_set unfolding nl_inv_def by metis+
  then show ?thesis by (simp add: nl_lookup_def)
qed

lemma answered_request:
  assumes "nl_inv nl" "names_ok device_info" "length (neighbours_of nl) < 20000"
    and "\<And>chassis port e. nl_lookup nl (chassis, port) = Some e \<Longrightarrow> presentable port e"
  shows "\<exists>packets. DumpData rid device_info nl = Inr packets \<and>
     (\<forall>rs rest c. map fst rs = map Some packets \<longrightarrow>
        GetData (rs @ rest) c = (as_bytes16 (cr_request_id c),
          Inr (Some (client_table device_info nl, c\<lparr>cr_request_id := cr_request_id c + 1\<rparr>, rest))))"
proof -
  have "\<forall>(chassis, port, e) \<in> set (neighbours_of nl). presentable port e"
    using assms(4) in_neighbours_of [OF assms(1)] by fast
  then obtain ps cm' where ps: "dump_chassis rid device_info 0 0 nl = Inr ps"
      "length ps \<le> length nl + 4 * length (neighbours_of nl)"
      "transfers ps ([], []) (cm', client_table device_info nl)"
    using dump_chassis_transfer [of device_info nl "[]" 0 "[]" rid] assms(2,3) nl_inv_chassis_count [OF assms(1)]
    by (auto simp: client_table_def om_keys_def)
  have few: "length ps < 100000" using ps(2) nl_inv_chassis_count [OF assms(1)] assms(3) by simp
  have "read_packets 100000 (rs @ rest) ([], []) = Inr (Some ((cm', client_table device_info nl), rest))"
    if rs: "map fst rs = map Some (map ClientPacket_bytes (ps @ [ClientPacket_default]))" for rs rest
  proof -
    obtain rs' err where "rs = rs' @ [(Some (ClientPacket_bytes ClientPacket_default), err)]"
        "map fst rs' = map (Some \<circ> ClientPacket_bytes) ps"
      using rs by (cases rs rule: rev_cases) (auto simp: prod_eq_iff)
    moreover obtain m where "100000 - length ps = Suc m" using few by (cases "100000 - length ps") auto
    moreover have "readDataPacket (Some (ClientPacket_bytes ClientPacket_default), err) = Inr Monostate"
      using carries_end by (simp add: carries_def)
    ultimately show ?thesis
      using read_packets_transfers [OF ps(3), of 100000 rs'] few by simp
  qed
  then show ?thesis
    using ps(1) by (auto simp: DumpData_def GetData_def MAX_DATA_TRANSPORT_PACKET_AMOUNT_def)
qed

lemma reachable_presentable:
  assumes "neighbours_reachable nl" "nl_lookup nl (chassis, port) = Some e" "length port \<le> 506"
  shows "presentable port e"
proof -
  have "entry_wf e" using reachable_nl_wf [OF assms(1)] assms(2) by (auto simp: nl_wf_def)
  then show ?thesis
    using assms(3)
    by (auto simp: presentable_def entry_wf_def sizeof_in_addr_def sizeof_in6_addr_def split: option.splits)
qed

lemma snd_numbered: "snd ` set (numbered xs) = set xs"
proof -
  have "map snd (numbered xs) = xs" by (simp add: numbered_def)
  then show ?thesis by (metis list.set_map)
qed

subsection \<open>When a dump overflows\<close>

lemma sendNeighbourEntry_cases:
  "if 506 < length port then sendNeighbourEntry rid ci ni port = Inl Write_out_of_bounds
   else \<exists>ps. sendNeighbourEntry rid ci ni port = Inr ps"
  by (simp add: sendNeighbourEntry_def DATA_MAX_SIZE_def)

lemma sendLocalInterfaceEntry_defined:
  "names_ok device_info \<Longrightarrow> \<exists>ps. sendLocalInterfaceEntry rid ni device_info e = Inr ps"
  by (fastforce simp: sendLocalInterfaceEntry_def names_ok_def IF_NAMESIZE_def split: option.split)

lemma sendChassisEntryPacket_defined: "\<exists>ps. sendChassisEntryPacket rid ci chassis = Inr ps"
  by (simp add: sendChassisEntryPacket_def DATA_MAX_SIZE_def Let_def)

lemma dump_ports_cases:
  assumes "names_ok device_info"
  shows "if \<exists>(port, e) \<in> set pm. 506 < length port
    then dump_ports rid device_info ci ni pm = Inl Write_out_of_bounds
    else \<exists>r. dump_ports rid device_info ci ni pm = Inr r"
proof (induction pm arbitrary: ni)
  case (Cons pe pm)
  obtain port e where pe: "pe = (port, e)" by (cases pe)
  obtain qs where "sendLocalInterfaceEntry rid ni device_info e = Inr qs"
    using sendLocalInterfaceEntry_defined [OF assms] by blast
  then show ?case
    using sendNeighbourEntry_cases [of port rid ci ni] Cons.IH [of "ni + 1"]
    by (cases "506 < length port"; cases "\<exists>(port, e) \<in> set pm. 506 < length port") (auto simp: pe)
qed simp

lemma dump_chassis_cases:
  assumes "names_ok device_info"
  shows "if \<exists>(chassis, port, e) \<in> set (neighbours_of nl). 506 < length port
    then dump_chassis rid device_info ci ni nl = Inl Write_out_of_bounds
    else \<exists>r. dump_chassis rid device_info ci ni nl = Inr r"
proof (induction nl arbitrary: ci ni)
  case (Cons cp nl)
  obtain chassis pm where cp: "cp = (chassis, pm)" by (cases cp)
  obtain ps where ps: "sendChassisEntryPacket rid ci chassis = Inr ps"
    using sendChassisEntryPacket_defined by blast
  show ?case
  proof (cases "\<exists>(port, e) \<in> set pm. 506 < length port")
    case True
    then show ?thesis
      using dump_ports_cases [OF assms, of pm rid ci ni] ps by (auto simp: cp neighbours_of_Cons bex_Un)
  next
    case False
    then obtain qs n where "dump_ports rid device_info ci ni pm = Inr (qs, n)"
      using dump_ports_cases [OF assms, of pm rid ci ni] by auto
    then show ?thesis
      using False ps Cons.IH [of "ci + 1" n] by (auto simp: cp neighbours_of_Cons bex_Un)
  qed
qed simp

lemma neighbours_of_lookup:
  assumes "nl_inv nl"
  shows "(chassis, port, e) \<in> set (neighbours_of nl) \<longleftrightarrow> nl_lookup nl (chassis, port) = Some e"
proof
  assume "nl_lookup nl (chassis, port) = Some e"
  then obtain pm where "om_find nl chassis = Some pm" "om_find pm port = Some e"
    by (auto simp: nl_lookup_def bind_eq_Some_conv)
  then show "(chassis, port, e) \<in> set (neighbours_of nl)"
    using assms by (force simp: neighbours_of_def nl_inv_def om_find_in_set)
qed (rule in_neighbours_of [OF assms])

subsection \<open>Properties\<close>

text \<open>A frame that arrives on interface 2, the entry it leaves, and a table of interfaces that has
  \<open>eth0\<close> under that index.\<close>

definition example_arrival :: sockaddr_ll where
  "example_arrival =
     \<lparr>sll_family = 17, sll_protocol = 0xCC88, sll_ifindex = 2, sll_hatype = 1, sll_halen = 6\<rparr>"

definition example_entry :: "bytes \<Rightarrow> NeighbourEntry" where
  "example_entry port = \<lparr>ne_chassis_id = [7], ne_port_id = port, ne_interface_index = 2,
     ne_time_to_live = 30, ne_ipv4_address = None, ne_ipv6_address = None\<rparr>"

definition example_interfaces :: senders where
  "example_interfaces = [(2, \<lparr>device_data = DeviceData_default\<lparr>interface_name := Some [101, 116, 104, 48]\<rparr>,
     transmit_timer = 0, transmit_credits = 0, fast_forward_counter = 0, trigger_ready = False\<rparr>)]"

lemma names_ok_example: "names_ok example_interfaces"
  by (auto simp: names_ok_def example_interfaces_def om_find_Cons split: if_splits)

text \<open>C6: A client that asks for the neighbour list is shown it: for every reachable list of fewer than
  20000 neighbours whose port identifiers fit the packet, and interface names as the kernel gives
  them, the service answers the request the client sends with a sequence of datagrams, and the
  client that receives them returns one row per neighbour, in the order of the list, with its
  chassis (empty when it is longer than 508 bytes), port, local interface and addresses, and leaves
  whatever follows on the socket unread.\<close>
theorem client_shows_neighbour_list:
  assumes "neighbours_reachable nl" and "names_ok device_info"
    and "length (neighbours_of nl) < 20000"
    and "\<forall>chassis port e. nl_lookup nl (chassis, port) = Some e \<longrightarrow> length port \<le> 506"
  shows "\<exists>packets.
    ClientSenderSocket_Call (Some (as_bytes16 (cr_request_id c))) device_info nl s = Inr (s, packets, False) \<and>
    (\<forall>rs rest. map fst rs = map Some packets \<longrightarrow>
       GetData (rs @ rest) c = (as_bytes16 (cr_request_id c),
         Inr (Some (numbered (map (client_view device_info) (neighbours_of nl)),
           c\<lparr>cr_request_id := cr_request_id c + 1\<rparr>, rest))))"
proof -
  have inv: "nl_inv nl" and wf: "\<And>cp e. nl_lookup nl cp = Some e \<Longrightarrow> entry_wf e"
    using reachable_nl_wf [OF assms(1)] by (auto simp: nl_wf_def)
  have "presentable port e" if "nl_lookup nl (chassis, port) = Some e" for chassis port e
    using assms(4) wf [OF that] that
    by (auto simp: presentable_def entry_wf_def sizeof_in_addr_def sizeof_in6_addr_def split: option.splits)
  then show ?thesis
    using answered_request [OF inv assms(2,3)]
    by (fastforce simp: ClientSenderSocket_Call_def of_as_bytes16 client_table_def)
qed

theorem client_shows_neighbour_list_witness:
  "\<exists>nl packets. neighbours_reachable nl \<and>
     ClientSenderSocket_Call (Some [1, 0]) example_interfaces nl \<lparr>client_socket = 9, eof_received = False\<rparr> =
       Inr (\<lparr>client_socket = 9, eof_received = False\<rparr>, packets, False) \<and>
     GetData (map (\<lambda>p. (Some p, 0)) packets) \<lparr>cr_request_id = 1\<rparr> = ([1, 0],
       Inr (Some ([(0, \<lparr>nd_chassis = [7], nd_port = [7], nd_local_interface_name = Some [101, 116, 104, 48],
         nd_ipv4_address = None, nd_ipv6_address = None\<rparr>)], \<lparr>cr_request_id = 2\<rparr>, [])))"
proof -
  let ?nl = "[([7], [([7], example_entry [7])])]"
  let ?s = "\<lparr>client_socket = 9, eof_received = False\<rparr>" and ?c = "\<lparr>cr_request_id = 1\<rparr>"
  have "lldpFrameParser [] example_arrival [2, 1, 7, 4, 1, 7, 6, 2, 0, 30, 0, 0] = Inr ?nl" by code_simp
  then have r: "neighbours_reachable ?nl"
    using neighbours_reachable.received [OF neighbours_reachable.start] by blast
  have few: "length (neighbours_of ?nl) < 20000" by (simp add: neighbours_of_def)
  have ports: "\<forall>chassis port e. nl_lookup ?nl (chassis, port) = Some e \<longrightarrow> length port \<le> 506"
    by (auto simp: nl_lookup_def om_find_Cons)
  have view: "numbered (map (client_view example_interfaces) (neighbours_of ?nl)) =
      [(0, \<lparr>nd_chassis = [7], nd_port = [7], nd_local_interface_name = Some [101, 116, 104, 48],
         nd_ipv4_address = None, nd_ipv6_address = None\<rparr>)]"
    by (simp add: numbered_def neighbours_of_def client_view_def local_interface_name_def
        example_interfaces_def example_entry_def om_find_Cons)
  have req: "as_bytes16 (cr_request_id ?c) = [1, 0]" by (simp add: as_bytes16_def)
  obtain packets where p: "ClientSenderSocket_Call (Some [1, 0]) example_interfaces ?nl ?s = Inr (?s, packets, False)"
      "\<And>rs rest. map fst rs = map Some packets \<Longrightarrow>
         GetData (rs @ rest) ?c = ([1, 0], Inr (Some ([(0, \<lparr>nd_chassis = [7], nd_port = [7],
           nd_local_interface_name = Some [101, 116, 104, 48], nd_ipv4_address = None, nd_ipv6_address = None\<rparr>)],
           \<lparr>cr_request_id = 2\<rparr>, rest)))"
    using client_shows_neighbour_list [OF r names_ok_example few ports, of ?c ?s] unfolding req view by auto
  have "map fst (map (\<lambda>p. (Some p, 0 :: int)) packets) = map Some packets" by simp
  from p(2) [OF this, of "[]"] p(1) r show ?thesis by auto
qed

text \<open>C25: One neighbour whose port identifier is longer than 506 bytes, which the receiver accepts up to
  511, makes every answer to a client write behind the array on the stack; otherwise no answer
  does.\<close>
theorem long_port_identifier_overflows:
  assumes "neighbours_reachable nl" and "names_ok device_info"
  shows "ClientSenderSocket_Call (Some [lo, hi]) device_info nl s = Inl Write_out_of_bounds \<longleftrightarrow>
    (\<exists>chassis port e. nl_lookup nl (chassis, port) = Some e \<and> 506 < length port)"
proof -
  have inv: "nl_inv nl" using reachable_nl_wf [OF assms(1)] by (simp add: nl_wf_def)
  have "(\<exists>chassis port e. nl_lookup nl (chassis, port) = Some e \<and> 506 < length port) \<longleftrightarrow>
      (\<exists>(chassis, port, e) \<in> set (neighbours_of nl). 506 < length port)"
    unfolding neighbours_of_lookup [OF inv, symmetric] by auto
  then show ?thesis
    using dump_chassis_cases [OF assms(2), where nl = nl and rid = "of_bytes16 lo hi" and ci = 0 and ni = 0]
    by (auto simp: ClientSenderSocket_Call_def DumpData_def split: if_splits)
qed

theorem long_port_identifier_overflows_witness:
  "\<exists>frame nl. length frame = 518 \<and> lldpFrameParser [] example_arrival frame = Inr nl \<and>
     ClientSenderSocket_Call (Some [1, 0]) example_interfaces nl \<lparr>client_socket = 9, eof_received = False\<rparr> =
       Inl Write_out_of_bounds"
proof -
  let ?port = "replicate 507 (7 :: byte)"
  let ?frame = "[2, 1, 7, 5, 251] @ ?port @ [6, 2, 0, 30, 0]" and ?nl = "[([7], [(replicate 507 7, example_entry (replicate 507 7))])]"
  have p: "lldpFrameParser [] example_arrival (?frame @ [0]) = Inr ?nl" by code_simp
  then have r: "neighbours_reachable ?nl"
    using neighbours_reachable.received [OF neighbours_reachable.start] by blast
  have "nl_lookup ?nl ([7], ?port) = Some (example_entry ?port)"
    by (simp add: nl_lookup_def om_find_Cons)
  moreover have "506 < length ?port" by simp
  ultimately have "ClientSenderSocket_Call (Some [1, 0]) example_interfaces ?nl \<lparr>client_socket = 9, eof_received = False\<rparr> =
       Inl Write_out_of_bounds"
    using long_port_identifier_overflows [OF r names_ok_example, of 1 0] by blast
  then show ?thesis using p by (intro exI [of _ "?frame @ [0]"] exI [of _ ?nl]) simp
qed

end
