(* ===== verification/Event_Handlers.thy ===== *)
theory Event_Handlers
  imports Ordered_Map
begin

section \<open>The event manager\<close>

text \<open>
  \<open>event_handlers.cc\<close>: an \<open>EventManager\<close> keeps weak pointers to its handlers under ascending
  handles, tells \<open>epoll\<close> which descriptors to watch, and calls the handlers of the ready ones.  A
  handler knows its manager and its handle and deregisters itself when it is destroyed.  Managers
  and handlers are objects of a world, addressed by numbers that are never reused: a weak pointer
  is an address, and locking it finds the handler while it lives.  The kernel is the parameter
  \<open>epoll\<close>, which gives the result of every \<open>epoll_ctl\<close> call and the interest list after it.
  An \<open>object_event\<close> is any operation on such an object, moves and assignments included; \<open>orderly\<close>
  excludes the moves and assignments that lose a registration.
\<close>

definition ENOENT :: int where "ENOENT = 2"
definition EEXIST :: int where "EEXIST = 17"

definition MAX_CONCURRENT_EVENTS :: nat where "MAX_CONCURRENT_EVENTS = 10"

datatype epoll_op = EPOLL_CTL_ADD u64 u32 | EPOLL_CTL_DEL

type_synonym interest = "nat \<rightharpoonup> u64"

text \<open>The number of the call, the operation, the descriptor and the list; zero or \<open>errno\<close>.\<close>

type_synonym epoll_ctl = "nat \<Rightarrow> epoll_op \<Rightarrow> nat \<Rightarrow> interest \<Rightarrow> int \<times> interest"

record EventManager =
  registered_events :: "(u64, nat) omap"
  event_id_counter :: u64
  epoll_interest :: interest

record EventHandler =
  event_manager :: "nat option"
  handle :: u64
  handler_socket :: nat
  handler_events :: u32

record world =
  managers :: "nat \<Rightarrow> EventManager"
  handlers :: "nat \<rightharpoonup> EventHandler"
  next_address :: nat
  open_descriptors :: "nat set"
  epoll_calls :: nat

definition EventManager_new :: EventManager where
  "EventManager_new = \<lparr>registered_events = [], event_id_counter = 1, epoll_interest = Map.empty\<rparr>"

definition set_manager :: "nat \<Rightarrow> EventManager \<Rightarrow> world \<Rightarrow> world" where
  "set_manager m em w = w\<lparr>managers := (managers w)(m := em)\<rparr>"

definition set_handler :: "nat \<Rightarrow> EventHandler \<Rightarrow> world \<Rightarrow> world" where
  "set_handler p h w = w\<lparr>handlers := (handlers w)(p \<mapsto> h)\<rparr>"

text \<open>A call of \<open>epoll_ctl\<close> on the descriptor of the manager \<open>this\<close>.\<close>

definition call_epoll :: "epoll_ctl \<Rightarrow> nat \<Rightarrow> epoll_op \<Rightarrow> nat \<Rightarrow> world \<Rightarrow> int \<times> world" where
  "call_epoll epoll this op fd w =
     (case epoll (epoll_calls w) op fd (epoll_interest (managers w this)) of (res, interest) \<Rightarrow>
        (res, set_manager this ((managers w this)\<lparr>epoll_interest := interest\<rparr>)
           (w\<lparr>epoll_calls := epoll_calls w + 1\<rparr>)))"

subsection \<open>Registering and removing\<close>

definition erase_event :: "nat \<Rightarrow> u64 \<Rightarrow> world \<Rightarrow> world" where
  "erase_event this handler_id w =
     set_manager this ((managers w this)\<lparr>registered_events :=
       om_erase handler_id (registered_events (managers w this))\<rparr>) w"

definition EventManager_Remove :: "epoll_ctl \<Rightarrow> nat \<Rightarrow> u64 \<Rightarrow> world \<Rightarrow> (int + unit) \<times> world" where
  "EventManager_Remove epoll this handler_id w =
     (case om_find (registered_events (managers w this)) handler_id of None \<Rightarrow> (Inl ENOENT, w)
      | Some p \<Rightarrow>
        (case handlers w p of None \<Rightarrow> (Inr (), erase_event this handler_id w)
         | Some event_handler \<Rightarrow>
           (case call_epoll epoll this EPOLL_CTL_DEL (handler_socket event_handler) w of (return_value, w) \<Rightarrow>
              if return_value \<noteq> 0 then (Inl return_value, w)
              else (Inr (), erase_event this handler_id
                (set_handler p (event_handler\<lparr>event_manager := None, handle := 0\<rparr>) w)))))"

text \<open>The overload that takes the handler itself.\<close>

definition EventManager_Remove_handler :: "epoll_ctl \<Rightarrow> nat \<Rightarrow> nat \<Rightarrow> world \<Rightarrow> (int + unit) \<times> world" where
  "EventManager_Remove_handler epoll this p w =
     (case handlers w p of None \<Rightarrow> (Inl ENOENT, w)
      | Some handler \<Rightarrow>
        if event_manager handler \<noteq> Some this then (Inl ENOENT, w)
        else EventManager_Remove epoll this (handle handler) w)"

text \<open>The loop that looks for a free handle; \<open>next_free_found\<close> shows that this fuel is enough.\<close>

fun next_free :: "nat \<Rightarrow> (u64, nat) omap \<Rightarrow> u64 \<Rightarrow> u64" where
  "next_free 0 m counter = counter"
| "next_free (Suc n) m counter = (if om_contains m counter then next_free n m (counter + 1) else counter)"

text \<open>The first block of \<open>Add\<close>: the handler is taken out of its manager.\<close>

definition detached :: "epoll_ctl \<Rightarrow> EventHandler \<Rightarrow> world \<Rightarrow> world" where
  "detached epoll handler w =
     (case event_manager handler of
        Some old \<Rightarrow> if handle handler \<noteq> 0 then snd (EventManager_Remove epoll old (handle handler) w) else w
      | None \<Rightarrow> w)"

text \<open>\<open>Add\<close> of a live handler.\<close>

definition EventManager_Add :: "epoll_ctl \<Rightarrow> nat \<Rightarrow> nat \<Rightarrow> world \<Rightarrow> (int + u64) \<times> world" where
  "EventManager_Add epoll this p w =
     (case handlers w p of None \<Rightarrow> (Inl ENOENT, w)
      | Some handler \<Rightarrow>
        let w = detached epoll handler w;
            em = managers w this;
            counter = next_free (length (registered_events em)) (registered_events em) (event_id_counter em);
            w = set_manager this (em\<lparr>event_id_counter := counter\<rparr>) w
        in case call_epoll epoll this (EPOLL_CTL_ADD counter (handler_events handler)) (handler_socket handler) w of
             (return_value, w) \<Rightarrow>
             if return_value \<noteq> 0 then (Inl return_value, w)
             else
               let em = managers w this;
                   w = set_manager this (em\<lparr>registered_events := om_put counter p (registered_events em),
                         event_id_counter := counter + 1\<rparr>) w
               in (Inr counter, set_handler p (handler\<lparr>event_manager := Some this, handle := counter\<rparr>) w))"

text \<open>
  The construction of a handler over a descriptor of its own, and its destruction: when the last
  shared pointer goes, weak pointers have expired and the members of the derived class, the
  descriptor among them, are destroyed before \<open>~EventHandler\<close> runs; closing a descriptor takes it
  off every interest list.
\<close>

definition EventHandler_new :: "nat \<Rightarrow> u32 \<Rightarrow> world \<Rightarrow> nat \<times> world" where
  "EventHandler_new fd events w =
     (next_address w, w\<lparr>next_address := next_address w + 1,
        open_descriptors := insert fd (open_descriptors w), handlers := (handlers w)(next_address w \<mapsto>
        \<lparr>event_manager = None, handle = 0, handler_socket = fd, handler_events = events\<rparr>)\<rparr>)"

definition close_descriptor :: "nat \<Rightarrow> world \<Rightarrow> world" where
  "close_descriptor fd w = w\<lparr>open_descriptors := open_descriptors w - {fd}, managers := (\<lambda>m. (managers w m)\<lparr>epoll_interest :=
     (epoll_interest (managers w m))(fd := None)\<rparr>)\<rparr>"

definition EventHandler_destroy :: "epoll_ctl \<Rightarrow> nat \<Rightarrow> world \<Rightarrow> world" where
  "EventHandler_destroy epoll p w =
     (case handlers w p of None \<Rightarrow> w
      | Some handler \<Rightarrow>
        let w = close_descriptor (handler_socket handler) (w\<lparr>handlers := (handlers w)(p := None)\<rparr>)
        in case event_manager handler of None \<Rightarrow> w
           | Some m \<Rightarrow> if handle handler \<noteq> 0 then snd (EventManager_Remove epoll m (handle handler) w) else w)"

subsection \<open>Processing events\<close>

definition expired_handlers :: "nat \<Rightarrow> world \<Rightarrow> u64 list" where
  "expired_handlers this w =
     map fst (filter (\<lambda>(handler_id, p). handlers w p = None) (registered_events (managers w this)))"

text \<open>
  What a handler does when it is called, as far as handlers and managers are concerned.  A new
  handler has a descriptor that is not in use, which is all the kernel hands out.
\<close>

datatype handler_action =
  Construct nat u32 | Add_to nat nat | Remove_from nat u64 | Remove_handler_from nat nat | Destroy nat

fun perform :: "epoll_ctl \<Rightarrow> handler_action \<Rightarrow> world \<Rightarrow> world" where
  "perform epoll (Construct fd events) w =
     (if fd \<in> open_descriptors w then w else snd (EventHandler_new fd events w))"
| "perform epoll (Add_to m p) w = snd (EventManager_Add epoll m p w)"
| "perform epoll (Remove_from m k) w = snd (EventManager_Remove epoll m k w)"
| "perform epoll (Remove_handler_from m p) w = snd (EventManager_Remove_handler epoll m p w)"
| "perform epoll (Destroy p) w = EventHandler_destroy epoll p w"

text \<open>
  The loop over the ready handles \<open>epoll_wait\<close> returned: the handlers called, in order.  The second
  component of an event is what its handler does if it is called.
\<close>

fun dispatch :: "epoll_ctl \<Rightarrow> nat \<Rightarrow> (u64 \<times> handler_action list) list \<Rightarrow> world \<Rightarrow> nat list \<times> world" where
  "dispatch epoll this [] w = ([], w)"
| "dispatch epoll this ((k, actions) # events) w =
     (case om_find (registered_events (managers w this)) k of None \<Rightarrow> dispatch epoll this events w
      | Some p \<Rightarrow>
        (case handlers w p of None \<Rightarrow> dispatch epoll this events w
         | Some _ \<Rightarrow> (case dispatch epoll this events (fold (perform epoll) actions w) of (called, w) \<Rightarrow>
             (p # called, w))))"

text \<open>\<open>None\<close> stands for an error of \<open>epoll_wait\<close>.\<close>

definition ProcessEvents ::
  "epoll_ctl \<Rightarrow> nat \<Rightarrow> (u64 \<times> handler_action list) list option \<Rightarrow> world \<Rightarrow> nat list \<times> world" where
  "ProcessEvents epoll this ready w =
     (let w = fold (\<lambda>handler_id w. snd (EventManager_Remove epoll this handler_id w)) (expired_handlers this w) w
      in case ready of None \<Rightarrow> ([], w)
         | Some events \<Rightarrow> dispatch epoll this (take MAX_CONCURRENT_EVENTS events) w)"

text \<open>\<open>~EventManager\<close> removes the handlers that are still registered.\<close>

definition EventManager_destroy :: "epoll_ctl \<Rightarrow> nat \<Rightarrow> world \<Rightarrow> world" where
  "EventManager_destroy epoll this w =
     fold (\<lambda>handle w. snd (EventManager_Remove epoll this handle w)) (om_keys (registered_events (managers w this))) w"

text \<open>
  Moving a manager: the table, the counter and the descriptor of \<open>epoll\<close> go to the object
  \<open>this\<close>, and the handlers that live are told.
\<close>

definition tell_handler :: "nat \<Rightarrow> u64 \<times> nat \<Rightarrow> (nat \<rightharpoonup> EventHandler) \<Rightarrow> (nat \<rightharpoonup> EventHandler)" where
  "tell_handler this = (\<lambda>(k, p) hs. case hs p of None \<Rightarrow> hs
     | Some h \<Rightarrow> hs(p \<mapsto> h\<lparr>event_manager := Some this, handle := k\<rparr>))"

definition EventManager_move :: "nat \<Rightarrow> nat \<Rightarrow> world \<Rightarrow> world" where
  "EventManager_move this other w =
     (let em = managers w other
      in w\<lparr>managers := (managers w)(other := EventManager_new, this := em),
           handlers := fold (tell_handler this) (registered_events em) (handlers w)\<rparr>)"

text \<open>
  Assignment does the same to an object that may have handlers of its own: its table is overwritten
  and its descriptor closed, and they are not told.
\<close>

definition EventManager_move_assign :: "nat \<Rightarrow> nat \<Rightarrow> world \<Rightarrow> world" where
  "EventManager_move_assign this other w =
     (let em = managers w other
      in w\<lparr>managers := (managers w)(other := EventManager_new, this := em),
           handlers := fold (tell_handler this) (registered_events em) (handlers w)\<rparr>)"

text \<open>
  The \<open>Create\<close> functions construct a handler as a temporary and move it to where a pointer owns it.
  This is the move constructor together with the destruction of the temporary, which has no
  descriptor and no manager any more.
\<close>

definition EventHandler_move :: "nat \<Rightarrow> world \<Rightarrow> nat \<times> world" where
  "EventHandler_move other w =
     (next_address w, w\<lparr>next_address := next_address w + 1, handlers :=
        (handlers w)(other := None, next_address w := handlers w other)\<rparr>)"

text \<open>
  The move assignment: the members are copied over those of the target, whose own registration is
  neither removed nor remembered.  The descriptors are those of the derived classes and stay.
\<close>

definition EventHandler_move_assign :: "nat \<Rightarrow> nat \<Rightarrow> world \<Rightarrow> world" where
  "EventHandler_move_assign this other w =
     (case (handlers w this, handlers w other) of
        (Some h, Some g) \<Rightarrow>
          w\<lparr>handlers := (handlers w)(this \<mapsto> h\<lparr>event_manager := event_manager g, handle := handle g\<rparr>,
            other \<mapsto> (if other = this then h else g)\<lparr>event_manager := None, handle := 0\<rparr>)\<rparr>
      | _ \<Rightarrow> w)"

text \<open>A world with fresh managers and no handler, and a run of actions and rounds of processing.\<close>

definition world_new :: world where
  "world_new = \<lparr>managers = (\<lambda>_. EventManager_new), handlers = Map.empty, next_address = 0,
     open_descriptors = {}, epoll_calls = 0\<rparr>"

datatype world_event =
  Act handler_action
| Process nat "(u64 \<times> handler_action list) list option"
| Move_manager nat nat  \<comment> \<open>a manager is constructed, at an address without one, from another\<close>

fun world_step :: "epoll_ctl \<Rightarrow> world_event \<Rightarrow> world \<Rightarrow> world" where
  "world_step epoll (Act a) w = perform epoll a w"
| "world_step epoll (Process m ready) w = snd (ProcessEvents epoll m ready w)"
| "world_step epoll (Move_manager this other) w =
     (if this \<noteq> other \<and> registered_events (managers w this) = [] then EventManager_move this other w else w)"

text \<open>
  All the program can do to handlers and managers: besides these events, moves and assignments of
  handlers and assignments of managers.
\<close>

datatype object_event =
  Happens world_event
| Move_handler nat
| Assign_handler nat nat
| Assign_manager nat nat

fun object_step :: "epoll_ctl \<Rightarrow> object_event \<Rightarrow> world \<Rightarrow> world" where
  "object_step epoll (Happens e) w = world_step epoll e w"
| "object_step epoll (Move_handler p) w = snd (EventHandler_move p w)"
| "object_step epoll (Assign_handler this other) w = EventHandler_move_assign this other w"
| "object_step epoll (Assign_manager this other) w = EventManager_move_assign this other w"

text \<open>
  What the operations that tell nobody must keep to: a handler is moved or assigned while it has no
  manager, and a manager is assigned, from another one, while it has no handlers.
\<close>

definition unregistered :: "nat \<Rightarrow> world \<Rightarrow> bool" where
  "unregistered p w \<longleftrightarrow> (case handlers w p of None \<Rightarrow> False | Some h \<Rightarrow> event_manager h = None)"

fun orderly :: "object_event \<Rightarrow> world \<Rightarrow> bool" where
  "orderly (Happens e) w \<longleftrightarrow> True"
| "orderly (Move_handler p) w \<longleftrightarrow> unregistered p w"
| "orderly (Assign_handler this other) w \<longleftrightarrow> unregistered this w \<and> unregistered other w"
| "orderly (Assign_manager this other) w \<longleftrightarrow> this \<noteq> other \<and> registered_events (managers w this) = []"

fun orderly_run :: "epoll_ctl \<Rightarrow> object_event list \<Rightarrow> world \<Rightarrow> bool" where
  "orderly_run epoll [] w \<longleftrightarrow> True"
| "orderly_run epoll (e # es) w \<longleftrightarrow> orderly e w \<and> orderly_run epoll es (object_step epoll e w)"

text \<open>An upper bound for the number of handlers added.\<close>

primrec actions_in :: "(u64 \<times> handler_action list) list \<Rightarrow> nat" where
  "actions_in [] = 0"
| "actions_in (e # es) = length (snd e) + actions_in es"

fun actions_of :: "world_event \<Rightarrow> nat" where
  "actions_of (Act a) = 1"
| "actions_of (Move_manager m m') = 0"
| "actions_of (Process m ready) = (case ready of None \<Rightarrow> 0 | Some events \<Rightarrow> actions_in events)"

primrec total_actions :: "world_event list \<Rightarrow> nat" where
  "total_actions [] = 0"
| "total_actions (e # es) = actions_of e + total_actions es"

fun added_by :: "object_event \<Rightarrow> nat" where
  "added_by (Happens e) = actions_of e"
| "added_by _ = 0"

subsection \<open>What the kernel promises\<close>

text \<open>
  \<open>epoll_ctl\<close> as its manual page documents it: an addition puts the descriptor on the list, or
  fails and changes nothing, always so when the descriptor is listed already; a removal takes a
  listed descriptor off and fails for another.
\<close>

definition documented :: "epoll_ctl \<Rightarrow> bool" where
  "documented epoll \<longleftrightarrow> (\<forall>n fd interest.
     epoll n EPOLL_CTL_DEL fd interest =
       (if interest fd = None then (ENOENT, interest) else (0, interest(fd := None))) \<and>
     (\<forall>k ev. if interest fd \<noteq> None then epoll n (EPOLL_CTL_ADD k ev) fd interest = (EEXIST, interest)
        else epoll n (EPOLL_CTL_ADD k ev) fd interest = (0, interest(fd \<mapsto> k)) \<or>
          (\<exists>e. e \<noteq> 0 \<and> epoll n (EPOLL_CTL_ADD k ev) fd interest = (e, interest))))"

lemma set_manager_simps [simp]:
  "managers (set_manager m em w) = (managers w)(m := em)"
  "handlers (set_manager m em w) = handlers w"
  "next_address (set_manager m em w) = next_address w"
  "open_descriptors (set_manager m em w) = open_descriptors w"
  by (simp_all add: set_manager_def)

lemma set_handler_simps [simp]:
  "managers (set_handler p h w) = managers w"
  "handlers (set_handler p h w) = (handlers w)(p \<mapsto> h)"
  "next_address (set_handler p h w) = next_address w"
  "open_descriptors (set_handler p h w) = open_descriptors w"
  by (simp_all add: set_handler_def)

lemma epoll_DEL:
  assumes "documented epoll" "epoll_interest (managers w m) fd = Some k"
  shows "\<exists>w'. call_epoll epoll m EPOLL_CTL_DEL fd w = (0, w') \<and>
     managers w' = (managers w)(m := (managers w m)\<lparr>epoll_interest := (epoll_interest (managers w m))(fd := None)\<rparr>) \<and>
     handlers w' = handlers w \<and> next_address w' = next_address w \<and> open_descriptors w' = open_descriptors w"
  using assms by (simp add: call_epoll_def documented_def)

lemma epoll_ADD:
  assumes "documented epoll" "epoll_interest (managers w m) fd = None"
  obtains "call_epoll epoll m (EPOLL_CTL_ADD k ev) fd w = (0, set_manager m
       ((managers w m)\<lparr>epoll_interest := (epoll_interest (managers w m))(fd \<mapsto> k)\<rparr>) (w\<lparr>epoll_calls := epoll_calls w + 1\<rparr>))"
  | e where "e \<noteq> 0" "call_epoll epoll m (EPOLL_CTL_ADD k ev) fd w = (e, set_manager m (managers w m) (w\<lparr>epoll_calls := epoll_calls w + 1\<rparr>))"
proof -
  have same: "(managers w m)\<lparr>epoll_interest := epoll_interest (managers w m)\<rparr> = managers w m" by simp
  have "epoll (epoll_calls w) (EPOLL_CTL_ADD k ev) fd (epoll_interest (managers w m)) =
      (0, (epoll_interest (managers w m))(fd \<mapsto> k)) \<or>
      (\<exists>e. e \<noteq> 0 \<and> epoll (epoll_calls w) (EPOLL_CTL_ADD k ev) fd (epoll_interest (managers w m)) =
        (e, epoll_interest (managers w m)))"
    using assms unfolding documented_def by metis
  then show thesis
    using that same by (auto simp: call_epoll_def)
qed

text \<open>The table of a manager and the interest list of its descriptor.\<close>

definition reg :: "world \<Rightarrow> nat \<Rightarrow> u64 \<Rightarrow> nat option" where
  "reg w m k = om_find (registered_events (managers w m)) k"

definition watched :: "world \<Rightarrow> nat \<Rightarrow> nat \<Rightarrow> u64 option" where
  "watched w m = epoll_interest (managers w m)"

text \<open>
  The invariant: a handler that has a manager is registered there under its handle, and its
  descriptor is watched under that handle; every entry of a live handler, and every descriptor on
  an interest list, belongs to such a handler.
\<close>

definition coherent :: "world \<Rightarrow> bool" where
  "coherent w \<longleftrightarrow>
     (\<forall>m. om_inv (registered_events (managers w m))) \<and> (\<forall>m. reg w m 0 = None) \<and>
     (\<forall>p h m. handlers w p = Some h \<longrightarrow> event_manager h = Some m \<longrightarrow>
        reg w m (handle h) = Some p \<and> watched w m (handler_socket h) = Some (handle h)) \<and>
     (\<forall>m k p h. reg w m k = Some p \<longrightarrow> handlers w p = Some h \<longrightarrow> event_manager h = Some m \<and> handle h = k) \<and>
     (\<forall>m fd k. watched w m fd = Some k \<longrightarrow>
        (\<exists>p h. reg w m k = Some p \<and> handlers w p = Some h \<and> handler_socket h = fd)) \<and>
     (\<forall>p q h h'. handlers w p = Some h \<longrightarrow> handlers w q = Some h' \<longrightarrow> handler_socket h = handler_socket h' \<longrightarrow> p = q) \<and>
     (\<forall>p h. handlers w p = Some h \<longrightarrow> p < next_address w \<and> handler_socket h \<in> open_descriptors w) \<and>
     (\<forall>m k p. reg w m k = Some p \<longrightarrow> p < next_address w)"

text \<open>Handles are given out in ascending order.\<close>

definition counters_ok :: "nat \<Rightarrow> world \<Rightarrow> bool" where
  "counters_ok n w \<longleftrightarrow> (\<forall>m. 0 < event_id_counter (managers w m) \<and>
     unat (event_id_counter (managers w m)) \<le> Suc n \<and>
     (\<forall>k \<in> set (om_keys (registered_events (managers w m))). k < event_id_counter (managers w m)))"

lemma coherentI:
  assumes "\<And>m. om_inv (registered_events (managers w m))" "\<And>m. reg w m 0 = None"
    and "\<And>p h m. handlers w p = Some h \<Longrightarrow> event_manager h = Some m \<Longrightarrow>
      reg w m (handle h) = Some p \<and> watched w m (handler_socket h) = Some (handle h)"
    and "\<And>m k p h. reg w m k = Some p \<Longrightarrow> handlers w p = Some h \<Longrightarrow> event_manager h = Some m \<and> handle h = k"
    and "\<And>m fd k. watched w m fd = Some k \<Longrightarrow>
      \<exists>p h. reg w m k = Some p \<and> handlers w p = Some h \<and> handler_socket h = fd"
    and "\<And>p q h h'. handlers w p = Some h \<Longrightarrow> handlers w q = Some h' \<Longrightarrow> handler_socket h = handler_socket h' \<Longrightarrow> p = q"
    and "\<And>p h. handlers w p = Some h \<Longrightarrow> p < next_address w \<and> handler_socket h \<in> open_descriptors w"
    and "\<And>m k p. reg w m k = Some p \<Longrightarrow> p < next_address w"
  shows "coherent w"
  unfolding coherent_def by (intro conjI; intro allI impI; rule assms; assumption)

lemma coherentD:
  assumes "coherent w"
  shows "\<forall>m. om_inv (registered_events (managers w m))" and "\<forall>m. reg w m 0 = None"
    and "\<forall>p h m. handlers w p = Some h \<longrightarrow> event_manager h = Some m \<longrightarrow>
        reg w m (handle h) = Some p \<and> watched w m (handler_socket h) = Some (handle h)"
    and "\<forall>m k p h. reg w m k = Some p \<longrightarrow> handlers w p = Some h \<longrightarrow> event_manager h = Some m \<and> handle h = k"
    and "\<forall>m fd k. watched w m fd = Some k \<longrightarrow>
        (\<exists>p h. reg w m k = Some p \<and> handlers w p = Some h \<and> handler_socket h = fd)"
    and "\<forall>p q h h'. handlers w p = Some h \<longrightarrow> handlers w q = Some h' \<longrightarrow> handler_socket h = handler_socket h' \<longrightarrow> p = q"
    and "\<forall>p h. handlers w p = Some h \<longrightarrow> p < next_address w \<and> handler_socket h \<in> open_descriptors w"
    and "\<forall>m k p. reg w m k = Some p \<longrightarrow> p < next_address w"
  using assms [unfolded coherent_def] by - (elim conjE, assumption)+

lemmas coherent_om_inv = coherentD(1) [rule_format]
  and coherent_zero = coherentD(2) [rule_format]
  and coherent_handler = coherentD(3) [rule_format]
  and coherent_reg = coherentD(4) [rule_format]
  and coherent_watched = coherentD(5) [rule_format]
  and coherent_socket = coherentD(6) [rule_format]
  and coherent_alive = coherentD(7) [rule_format]
  and coherent_address = coherentD(8) [rule_format]

text \<open>
  A world that differs only at one address \<open>p\<close>, in the entries that lead to it and in what is watched
  of the descriptors \<open>F\<close>, which no other handler has: it is coherent when \<open>p\<close> is in order.
\<close>

lemma coherent_slot:
  assumes c: "coherent w"
    and inv: "\<And>i. om_inv (registered_events (managers w' i))" and zero: "\<And>i. reg w' i 0 = None"
    and others: "\<And>q. q \<noteq> p \<Longrightarrow> handlers w' q = handlers w q"
    and reg: "\<And>i j q. q \<noteq> p \<Longrightarrow> reg w' i j = Some q \<longleftrightarrow> reg w i j = Some q"
    and entry: "\<And>i j. reg w' i j = Some p \<Longrightarrow> p < next_address w' \<and>
      (\<forall>h. handlers w' p = Some h \<longrightarrow> event_manager h = Some i \<and> handle h = j)"
    and slot: "\<And>h. handlers w' p = Some h \<Longrightarrow> handler_socket h \<in> F \<and> p < next_address w' \<and>
      handler_socket h \<in> open_descriptors w' \<and>
      (\<forall>i. event_manager h = Some i \<longrightarrow> reg w' i (handle h) = Some p \<and> watched w' i (handler_socket h) = Some (handle h))"
    and watched: "\<And>i fd. fd \<notin> F \<Longrightarrow> watched w' i fd = watched w i fd"
      "\<And>i fd j. fd \<in> F \<Longrightarrow> watched w' i fd = Some j \<Longrightarrow>
         reg w' i j = Some p \<and> (\<exists>h. handlers w' p = Some h \<and> handler_socket h = fd)"
    and alone: "\<And>q h. handlers w q = Some h \<Longrightarrow> handler_socket h \<in> F \<longleftrightarrow> q = p"
    and grows: "next_address w \<le> next_address w'" "open_descriptors w - F \<subseteq> open_descriptors w'"
  shows "coherent w'"
proof (rule coherentI)
  have other: "handlers w q = Some h" "handler_socket h \<notin> F" if "handlers w' q = Some h" "q \<noteq> p" for q h
    using that others alone by auto
  have in_slot: "handler_socket h \<in> F \<longleftrightarrow> q = p" if "handlers w' q = Some h" for q h
    using that slot other by (cases "q = p") auto
  fix q h i
  {
    assume h: "handlers w' q = Some h" "event_manager h = Some i"
    show "reg w' i (handle h) = Some q \<and> watched w' i (handler_socket h) = Some (handle h)"
      using slot [of h] h other [OF h(1)] coherent_handler [OF c _ h(2), of q] reg watched(1) by (cases "q = p") auto
  next
    fix j assume "reg w' i j = Some q" "handlers w' q = Some h"
    then show "event_manager h = Some i \<and> handle h = j"
      using entry other coherent_reg [OF c, of i j q h] reg by (cases "q = p") auto
  next
    fix fd j assume fd: "watched w' i fd = Some j"
    show "\<exists>q h. reg w' i j = Some q \<and> handlers w' q = Some h \<and> handler_socket h = fd"
    proof (cases "fd \<in> F")
      case False
      then obtain q g where q: "reg w i j = Some q" "handlers w q = Some g" "handler_socket g = fd"
        using coherent_watched [OF c, of i fd j] fd watched(1) by auto
      then have "q \<noteq> p" using alone False by auto
      then show ?thesis using q reg others by (intro exI [of _ q] exI [of _ g]) simp
    qed (use watched(2) fd in blast)
  next
    fix b h' assume ab: "handlers w' q = Some h" "handlers w' b = Some h'" "handler_socket h = handler_socket h'"
    have "handler_socket h \<in> F \<longleftrightarrow> q = p" "handler_socket h' \<in> F \<longleftrightarrow> b = p"
      using in_slot ab(1,2) by blast+
    then have "q = p \<longleftrightarrow> b = p" using ab(3) by simp
    then show "q = b" using other(1) [OF ab(1)] other(1) [OF ab(2)] coherent_socket [OF c _ _ ab(3)] by blast
  next
    assume h: "handlers w' q = Some h"
    show "q < next_address w' \<and> handler_socket h \<in> open_descriptors w'"
      using slot [of h] h other [OF h] coherent_alive [OF c, of q h] grows by (cases "q = p") auto
  next
    fix j assume j: "reg w' i j = Some q"
    show "q < next_address w'"
      using entry [of i j] j reg coherent_address [OF c, of i j q] grows(1) by (cases "q = p") auto
  }
qed (rule inv, rule zero)

lemma coherent_alone:
  assumes "coherent w" "handlers w p = Some h" "handlers w q = Some g"
  shows "handler_socket g \<in> {handler_socket h} \<longleftrightarrow> q = p"
  using coherent_socket [OF assms(1,3,2)] assms(2,3) by auto

text \<open>One that differs in the table, the list and one handler of the manager \<open>m\<close>.\<close>

lemma coherent_remove:
  assumes c: "coherent w" and k: "reg w m k = Some p"
    and inv: "\<And>i. om_inv (registered_events (managers w' i))"
    and reg: "\<And>i j. reg w' i j = (if i = m \<and> j = k then None else reg w i j)"
    and handlers: "handlers w p = None \<and> handlers w' = handlers w \<and> watched w' = watched w \<or>
      (\<exists>h. handlers w p = Some h \<and>
         handlers w' = (handlers w)(p \<mapsto> h\<lparr>event_manager := None, handle := 0\<rparr>) \<and>
         (\<forall>i fd. watched w' i fd = (if i = m \<and> fd = handler_socket h then None else watched w i fd)))"
    and same: "next_address w' = next_address w" "open_descriptors w' = open_descriptors w"
  shows "coherent w'"
  using handlers
proof (elim disjE exE conjE)
  assume dead: "handlers w p = None" "handlers w' = handlers w" "watched w' = watched w"
  show ?thesis
    by (rule coherent_slot [OF c inv, where p = p and F = "{}"])
      (use dead k coherent_address [OF c] same in \<open>auto simp: reg coherent_zero [OF c] split: if_splits\<close>)
next
  fix h assume h: "handlers w p = Some h"
    and w': "handlers w' = (handlers w)(p \<mapsto> h\<lparr>event_manager := None, handle := 0\<rparr>)"
    and watched: "\<forall>i fd. watched w' i fd = (if i = m \<and> fd = handler_socket h then None else watched w i fd)"
  have mk: "event_manager h = Some m" "handle h = k" using coherent_reg [OF c k h] by auto
  have only: "reg w i j = Some p \<Longrightarrow> i = m \<and> j = k" for i j using coherent_reg [OF c _ h, of i j] mk by simp
  have fd: "watched w i (handler_socket h) = Some j \<Longrightarrow> i = m" for i j
    using coherent_watched [OF c, of i "handler_socket h" j] coherent_socket [OF c _ h] only by blast
  show ?thesis
  proof (rule coherent_slot [OF c inv, where p = p and F = "{handler_socket h}"])
    show "handler_socket g \<in> {handler_socket h} \<longleftrightarrow> q = p" if "handlers w q = Some g" for q g
      by (rule coherent_alone [OF c h that])
    show "reg w' i j = Some p \<Longrightarrow> p < next_address w' \<and>
        (\<forall>h. handlers w' p = Some h \<longrightarrow> event_manager h = Some i \<and> handle h = j)" for i j
      using only [of i j] by (simp add: reg split: if_splits)
    show "fd' \<in> {handler_socket h} \<Longrightarrow> watched w' i fd' = Some j \<Longrightarrow>
        reg w' i j = Some p \<and> (\<exists>h. handlers w' p = Some h \<and> handler_socket h = fd')" for i fd' j
      using fd [of i j] by (simp add: watched split: if_splits)
  qed (use k coherent_alive [OF c h] in \<open>auto simp: reg w' watched same coherent_zero [OF c]\<close>)
qed

lemma coherent_cong:
  assumes "coherent w" "reg w' = reg w" "watched w' = watched w" "handlers w' = handlers w"
    and "next_address w' = next_address w" "open_descriptors w' = open_descriptors w"
    and "\<And>i. registered_events (managers w' i) = registered_events (managers w i)"
  shows "coherent w'"
  using assms by (simp add: coherent_def)

text \<open>A handler without a manager is in no table and on no list.\<close>

lemma coherent_free:
  assumes c: "coherent w" and h: "handlers w p = Some h" "event_manager h = None"
  shows "reg w i k \<noteq> Some p" and "watched w i (handler_socket h) = None"
proof -
  show r: "reg w i k \<noteq> Some p" for i k using coherent_reg [OF c _ h(1)] h(2) by fastforce
  show "watched w i (handler_socket h) = None"
  proof (rule ccontr)
    assume "watched w i (handler_socket h) \<noteq> None"
    then obtain k q g where q: "reg w i k = Some q" "handlers w q = Some g" "handler_socket g = handler_socket h"
      using coherent_watched [OF c] by blast
    then show False using coherent_socket [OF c q(2) h(1) q(3)] r by blast
  qed
qed

text \<open>A world in which one such handler has been registered.\<close>

lemma coherent_add:
  assumes c: "coherent w" and h: "handlers w p = Some h" "event_manager h = None"
    and k: "reg w m k = None" "k \<noteq> 0"
    and inv: "\<And>i. om_inv (registered_events (managers w' i))"
    and reg: "\<And>i j. reg w' i j = (if i = m \<and> j = k then Some p else reg w i j)"
    and watched: "\<And>i fd. watched w' i fd = (if i = m \<and> fd = handler_socket h then Some k else watched w i fd)"
    and w': "handlers w' = (handlers w)(p \<mapsto> h')" "event_manager h' = Some m" "handle h' = k"
      "handler_socket h' = handler_socket h"
    and same: "next_address w' = next_address w" "open_descriptors w' = open_descriptors w"
  shows "coherent w'"
proof (rule coherent_slot [OF c inv, where p = p and F = "{handler_socket h}"])
  have free: "reg w i j \<noteq> Some p" "watched w i (handler_socket h) = None" for i j by (rule coherent_free [OF c h])+
  show "handler_socket g \<in> {handler_socket h} \<longleftrightarrow> q = p" if "handlers w q = Some g" for q g
    by (rule coherent_alone [OF c h(1) that])
  show "reg w' i j = Some p \<Longrightarrow> p < next_address w' \<and>
      (\<forall>h. handlers w' p = Some h \<longrightarrow> event_manager h = Some i \<and> handle h = j)" for i j
    using free(1) [of i j] coherent_alive [OF c h(1)] by (auto simp: reg w' same split: if_splits)
  show "fd \<in> {handler_socket h} \<Longrightarrow> watched w' i fd = Some j \<Longrightarrow>
      reg w' i j = Some p \<and> (\<exists>h. handlers w' p = Some h \<and> handler_socket h = fd)" for i fd j
    using free(2) [of i] by (simp add: watched reg w' split: if_splits)
  show "q \<noteq> p \<Longrightarrow> reg w' i j = Some q \<longleftrightarrow> reg w i j = Some q" for i j q using k by (auto simp: reg)
qed (use k coherent_alive [OF c h(1)] in \<open>auto simp: reg w' watched same coherent_zero [OF c] split: if_splits\<close>)

subsection \<open>Every operation preserves it\<close>

lemma reg_set_manager: "reg (set_manager m em w) i k = (if i = m then om_find (registered_events em) k else reg w i k)"
  and watched_set_manager: "watched (set_manager m em w) i = (if i = m then epoll_interest em else watched w i)"
  and reg_set_handler [simp]: "reg (set_handler p h w) = reg w"
  and watched_set_handler [simp]: "watched (set_handler p h w) = watched w"
  by (auto simp: reg_def watched_def fun_eq_iff)

lemma reg_erase_event: "reg (erase_event m k w) i j = (if i = m \<and> j = k then None else reg w i j)"
  and watched_erase_event [simp]: "watched (erase_event m k w) = watched w"
  by (auto simp: erase_event_def reg_set_manager watched_set_manager reg_def watched_def fun_eq_iff)

lemma erase_event_simps [simp]:
  "handlers (erase_event m k w) = handlers w" "next_address (erase_event m k w) = next_address w"
  "open_descriptors (erase_event m k w) = open_descriptors w"
  by (simp_all add: erase_event_def)

lemma erase_event_inv:
  "(\<And>i. om_inv (registered_events (managers w i))) \<Longrightarrow> om_inv (registered_events (managers (erase_event m k w) i))"
  by (simp add: erase_event_def om_inv_erase)

lemma counters_ok_erase: "counters_ok n w \<Longrightarrow> counters_ok n (erase_event m k w)"
  by (auto simp: counters_ok_def erase_event_def om_keys_erase)

lemma Remove_dead:
  assumes "reg w m k = Some p" "handlers w p = None"
  shows "EventManager_Remove epoll m k w = (Inr (), erase_event m k w)"
  using assms by (simp add: EventManager_Remove_def reg_def)

lemma Remove_live:
  assumes d: "documented epoll" and c: "coherent w" and h: "handlers w p = Some h" "event_manager h = Some m"
  shows "\<exists>w'. EventManager_Remove epoll m (handle h) w = (Inr (), w') \<and> coherent w' \<and>
     handlers w' = (handlers w)(p \<mapsto> h\<lparr>event_manager := None, handle := 0\<rparr>) \<and>
     next_address w' = next_address w \<and> (\<forall>n. counters_ok n w \<longrightarrow> counters_ok n w')"
proof -
  note r = coherent_handler [OF c h]
  obtain w1 where w1: "call_epoll epoll m EPOLL_CTL_DEL (handler_socket h) w = (0, w1)"
      "managers w1 = (managers w)(m := (managers w m)\<lparr>epoll_interest :=
         (epoll_interest (managers w m))(handler_socket h := None)\<rparr>)"
      "handlers w1 = handlers w" "next_address w1 = next_address w" "open_descriptors w1 = open_descriptors w"
    using epoll_DEL [OF d, of w m "handler_socket h" "handle h"] r by (auto simp: watched_def)
  let ?w = "erase_event m (handle h) (set_handler p (h\<lparr>event_manager := None, handle := 0\<rparr>) w1)"
  have reg1: "reg w1 = reg w" by (auto simp: fun_eq_iff reg_def w1(2))
  have watched1: "watched w1 i fd = (if i = m \<and> fd = handler_socket h then None else watched w i fd)" for i fd
    by (auto simp: watched_def w1(2))
  have "coherent ?w"
  proof (rule coherent_remove [OF c, where m = m and k = "handle h" and p = p])
    show "reg w m (handle h) = Some p" using r by simp
    show "om_inv (registered_events (managers ?w i))" for i
      by (rule erase_event_inv) (use coherent_om_inv [OF c] in \<open>simp add: w1(2)\<close>)
  qed (auto simp: reg_erase_event reg1 watched1 w1 h(1))
  moreover have "counters_ok n ?w" if "counters_ok n w" for n
    by (rule counters_ok_erase) (use that in \<open>auto simp: counters_ok_def w1(2)\<close>)
  moreover have "EventManager_Remove epoll m (handle h) w = (Inr (), ?w)"
    using r h(1) w1(1) by (simp add: EventManager_Remove_def reg_def)
  ultimately show ?thesis by (simp add: w1)
qed

lemma coherent_erase_event:
  assumes "coherent w" "reg w m k = Some p" "handlers w p = None"
  shows "coherent (erase_event m k w)"
  by (rule coherent_remove [OF assms(1,2)])
    (use assms in \<open>auto simp: reg_erase_event erase_event_inv coherent_om_inv\<close>)

lemma Remove_invariants:
  assumes d: "documented epoll" and c: "coherent w"
  shows "coherent (snd (EventManager_Remove epoll m k w)) \<and>
    (counters_ok n w \<longrightarrow> counters_ok n (snd (EventManager_Remove epoll m k w)))"
proof (cases "reg w m k")
  case None
  then show ?thesis using c by (simp add: EventManager_Remove_def reg_def)
next
  case (Some p)
  show ?thesis
  proof (cases "handlers w p")
    case None
    then show ?thesis
      using Remove_dead [OF Some None] coherent_erase_event [OF c Some None] counters_ok_erase by simp
  next
    case (Some h)
    then have "event_manager h = Some m" "handle h = k"
      using coherent_reg [OF c \<open>reg w m k = Some p\<close>] by auto
    then show ?thesis using Remove_live [OF d c Some] by auto
  qed
qed

lemma counters_ok_mono: "counters_ok n w \<Longrightarrow> n \<le> k \<Longrightarrow> counters_ok k w"
  unfolding counters_ok_def by (meson Suc_le_mono order_trans)

text \<open>Enough fuel: a table of \<open>n\<close> entries leaves one of \<open>n + 1\<close> successive handles free.\<close>

lemma next_free_taken:
  "om_contains m (next_free n m c) \<Longrightarrow> i \<le> n \<Longrightarrow> om_contains m (c + of_nat i)"
proof (induction n arbitrary: c i)
  case (Suc n)
  then show ?case
  proof (cases i)
    case (Suc j)
    then show ?thesis using Suc.IH [of "c + 1" j] Suc.prems by (simp add: add.assoc split: if_splits)
  qed (simp split: if_splits)
qed simp

lemma next_free_found:
  assumes "length m < 2 ^ 64"
  shows "\<not> om_contains m (next_free (length m) m c)"
proof
  assume "om_contains m (next_free (length m) m c)"
  then have "(\<lambda>i. c + of_nat i) ` {..length m} \<subseteq> set (om_keys m)"
    using next_free_taken by (auto simp: om_contains_iff)
  from card_mono [OF finite_set this]
  have "card ((\<lambda>i. c + of_nat i) ` {..length m}) \<le> card (set (om_keys m))" .
  also have "\<dots> \<le> length m" using card_length [of "om_keys m"] by (simp add: om_keys_def)
  finally have "card ((\<lambda>i. c + of_nat i) ` {..length m}) \<le> length m" .
  moreover have "inj_on (\<lambda>i. c + of_nat i :: u64) {..length m}"
  proof (rule inj_onI)
    fix i j assume "i \<in> {..length m}" "j \<in> {..length m}" "c + of_nat i = c + (of_nat j :: u64)"
    then have "unat (of_nat i :: u64) = unat (of_nat j :: u64)" "i < 2 ^ 64" "j < 2 ^ 64"
      using assms by auto
    then show "i = j" by (simp add: unsigned_of_nat take_bit_nat_eq_self)
  qed
  ultimately show False by (simp add: card_image)
qed

lemma next_free_at_once: "\<not> om_contains m c \<Longrightarrow> next_free n m c = c"
  by (cases n) simp_all

lemma detached_free:
  assumes d: "documented epoll" and c: "coherent w" and h: "handlers w p = Some h"
  shows "coherent (detached epoll h w) \<and> next_address (detached epoll h w) = next_address w \<and>
    (\<forall>n. counters_ok n w \<longrightarrow> counters_ok n (detached epoll h w)) \<and>
    (\<exists>h'. handlers (detached epoll h w) p = Some h' \<and> event_manager h' = None \<and> handler_socket h' = handler_socket h)"
proof (cases "event_manager h")
  case None
  then show ?thesis using c h by (simp add: detached_def)
next
  case (Some m)
  have "handle h \<noteq> 0" using coherent_handler [OF c h Some] coherent_zero [OF c, of m] by auto
  then show ?thesis using Remove_live [OF d c h Some] Some by (auto simp: detached_def)
qed

text \<open>The first free handle is the manager's counter, and the descriptor is not watched by it.\<close>

lemma Add_calls:
  assumes d: "documented epoll" and c: "coherent w" and n: "counters_ok n w" and h: "handlers w p = Some h"
  defines "v \<equiv> detached epoll h w"
  shows "EventManager_Add epoll m p w =
      (case call_epoll epoll m (EPOLL_CTL_ADD (event_id_counter (managers v m)) (handler_events h)) (handler_socket h) v of
        (return_value, w) \<Rightarrow> if return_value \<noteq> 0 then (Inl return_value, w)
         else (Inr (event_id_counter (managers v m)),
           set_handler p (h\<lparr>event_manager := Some m, handle := event_id_counter (managers v m)\<rparr>)
           (set_manager m ((managers w m)\<lparr>
              registered_events := om_put (event_id_counter (managers v m)) p (registered_events (managers w m)),
              event_id_counter := event_id_counter (managers v m) + 1\<rparr>) w)))"
    and "reg v m (event_id_counter (managers v m)) = None" "event_id_counter (managers v m) \<noteq> 0"
    and "watched v m (handler_socket h) = None"
proof -
  obtain h' where w: "coherent v" "counters_ok n v" "handlers v p = Some h'"
      "event_manager h' = None" "handler_socket h' = handler_socket h"
    using detached_free [OF d c h] n unfolding v_def by blast
  let ?em = "managers v m"
  let ?c = "event_id_counter ?em"
  have fresh: "\<not> om_contains (registered_events ?em) ?c" and pos: "?c \<noteq> 0"
    using w(2) unfolding counters_ok_def om_contains_iff by (metis less_irrefl)+
  have counter: "next_free (length (registered_events ?em)) (registered_events ?em) ?c = ?c"
    by (rule next_free_at_once [OF fresh])
  have same: "set_manager m (?em\<lparr>event_id_counter := ?c\<rparr>) v = v" by (simp add: set_manager_def)
  show "EventManager_Add epoll m p w =
      (case call_epoll epoll m (EPOLL_CTL_ADD ?c (handler_events h)) (handler_socket h) v of
        (return_value, w) \<Rightarrow> if return_value \<noteq> 0 then (Inl return_value, w)
         else (Inr ?c, set_handler p (h\<lparr>event_manager := Some m, handle := ?c\<rparr>)
           (set_manager m ((managers w m)\<lparr>registered_events := om_put ?c p (registered_events (managers w m)),
              event_id_counter := ?c + 1\<rparr>) w)))"
    unfolding EventManager_Add_def h option.case Let_def v_def [symmetric] counter same by (rule refl)
  show "watched v m (handler_socket h) = None" using coherent_free(2) [OF w(1,3,4)] w(5) by simp
  show "reg v m ?c = None" "?c \<noteq> 0" using fresh pos by (simp_all add: reg_def om_contains_find)
qed

lemma counters_ok_next:
  assumes n: "counters_ok n w" "Suc (Suc n) < 2 ^ 64" and c: "c = event_id_counter (managers w m)"
    and v: "\<And>i. event_id_counter (managers v i) = (if i = m then c + 1 else event_id_counter (managers w i))"
      "\<And>i. registered_events (managers v i) =
        (if i = m then om_put c p (registered_events (managers w i)) else registered_events (managers w i))"
  shows "counters_ok (Suc n) v"
  unfolding counters_ok_def
proof
  fix i
  have "unat c < 2 ^ 64 - 1" using n by (auto simp: counters_ok_def c intro: le_less_trans)
  then have succ: "unat (c + 1) = unat c + 1" by (simp add: unat_plus_if')
  then have small: "c < c + 1" by (simp add: word_less_nat_alt)
  have old: "0 < event_id_counter (managers w i)" "unat (event_id_counter (managers w i)) \<le> Suc n"
      "\<And>k. k \<in> set (om_keys (registered_events (managers w i))) \<Longrightarrow> k < event_id_counter (managers w i)"
    using n(1) unfolding counters_ok_def by blast+
  show "0 < event_id_counter (managers v i) \<and> unat (event_id_counter (managers v i)) \<le> Suc (Suc n) \<and>
      (\<forall>k \<in> set (om_keys (registered_events (managers v i))). k < event_id_counter (managers v i))"
    using old succ small less_trans [OF _ small] by (cases "i = m") (simp_all add: v c)
qed

lemma Add_invariants:
  assumes d: "documented epoll" and c: "coherent w" and n: "counters_ok n w" "Suc (Suc n) < 2 ^ 64"
  shows "coherent (snd (EventManager_Add epoll m p w)) \<and> counters_ok (Suc n) (snd (EventManager_Add epoll m p w))"
proof (cases "handlers w p")
  case None
  then show ?thesis using c counters_ok_mono [OF n(1)] by (simp add: EventManager_Add_def)
next
  case (Some h)
  let ?w = "detached epoll h w" and ?v = "snd (EventManager_Add epoll m p w)"
  obtain h' where w: "coherent ?w" "counters_ok n ?w" "handlers ?w p = Some h'"
      "event_manager h' = None" "handler_socket h' = handler_socket h"
    using detached_free [OF d c Some] n(1) by blast
  let ?em = "managers ?w m"
  let ?c = "event_id_counter ?em"
  note add = Add_calls [OF d c n(1) Some, of m]
  have unwatched: "epoll_interest ?em (handler_socket h) = None" using add(4) by (simp add: watched_def)
  show ?thesis
  proof (rule epoll_ADD [OF d unwatched, of ?c "handler_events h"])
    assume ok: "call_epoll epoll m (EPOLL_CTL_ADD ?c (handler_events h)) (handler_socket h) ?w =
      (0, set_manager m (?em\<lparr>epoll_interest := (epoll_interest ?em)(handler_socket h \<mapsto> ?c)\<rparr>)
        (?w\<lparr>epoll_calls := epoll_calls ?w + 1\<rparr>))"
    have m: "managers ?v = (managers ?w)(m := ?em\<lparr>epoll_interest := (epoll_interest ?em)(handler_socket h \<mapsto> ?c),
        registered_events := om_put ?c p (registered_events ?em), event_id_counter := ?c + 1\<rparr>)"
      and v: "handlers ?v = (handlers ?w)(p \<mapsto> h\<lparr>event_manager := Some m, handle := ?c\<rparr>)"
        "next_address ?v = next_address ?w" "open_descriptors ?v = open_descriptors ?w"
      unfolding add(1) ok by simp_all
    have inv: "om_inv (registered_events (managers ?w i))" for i by (rule coherent_om_inv [OF w(1)])
    have "coherent ?v"
      by (rule coherent_add [OF w(1,3,4) add(2,3), where h' = "h\<lparr>event_manager := Some m, handle := ?c\<rparr>"])
        (use inv w(5) in \<open>auto simp: m v reg_def watched_def om_inv_put\<close>)
    moreover have "counters_ok (Suc n) ?v"
      by (rule counters_ok_next [OF w(2) n(2), where c = ?c and p = p and m = m]) (simp_all add: m)
    ultimately show ?thesis by blast
  next
    fix e assume e: "e \<noteq> 0" and ko: "call_epoll epoll m (EPOLL_CTL_ADD ?c (handler_events h)) (handler_socket h) ?w =
      (e, set_manager m ?em (?w\<lparr>epoll_calls := epoll_calls ?w + 1\<rparr>))"
    have v: "managers ?v = managers ?w" "handlers ?v = handlers ?w" "next_address ?v = next_address ?w"
        "open_descriptors ?v = open_descriptors ?w"
      unfolding add(1) ko using e by simp_all
    have "coherent ?v"
      by (rule coherent_cong [OF w(1)]) (simp_all add: v reg_def watched_def fun_eq_iff)
    moreover have "counters_ok (Suc n) ?v"
      using counters_ok_mono [OF w(2), of "Suc n"] by (simp add: counters_ok_def v)
    ultimately show ?thesis by blast
  qed
qed

lemma close_descriptor_simps [simp]:
  "reg (close_descriptor fd w) = reg w" "handlers (close_descriptor fd w) = handlers w"
  "next_address (close_descriptor fd w) = next_address w"
  "open_descriptors (close_descriptor fd w) = open_descriptors w - {fd}"
  "watched (close_descriptor fd w) = (\<lambda>i. (watched w i)(fd := None))"
  "registered_events (managers (close_descriptor fd w) i) = registered_events (managers w i)"
  "event_id_counter (managers (close_descriptor fd w) i) = event_id_counter (managers w i)"
  by (auto simp: close_descriptor_def reg_def watched_def fun_eq_iff)

lemma reg_handlers_update [simp]: "reg (w\<lparr>handlers := f\<rparr>) = reg w" "watched (w\<lparr>handlers := f\<rparr>) = watched w"
  by (simp_all add: reg_def watched_def fun_eq_iff)

lemma coherent_closed:
  assumes c: "coherent w" and h: "handlers w p = Some h"
  shows "coherent (close_descriptor (handler_socket h) (w\<lparr>handlers := (handlers w)(p := None)\<rparr>))" (is "coherent ?w")
proof (rule coherent_slot [OF c, where p = p and F = "{handler_socket h}"])
  show "om_inv (registered_events (managers ?w i))" for i using coherent_om_inv [OF c] by simp
  show "handler_socket g \<in> {handler_socket h} \<longleftrightarrow> q = p" if "handlers w q = Some g" for q g
    by (rule coherent_alone [OF c h that])
  show "p < next_address ?w \<and> (\<forall>h. handlers ?w p = Some h \<longrightarrow> event_manager h = Some i \<and> handle h = j)"
    if "reg ?w i j = Some p" for i j
    using coherent_address [OF c, of i j p] that by simp
qed (auto simp: close_descriptor_def reg_def watched_def coherent_zero [OF c, unfolded reg_def])

lemma destroy_invariants:
  assumes d: "documented epoll" and c: "coherent w"
  shows "coherent (EventHandler_destroy epoll p w) \<and>
    (counters_ok n w \<longrightarrow> counters_ok n (EventHandler_destroy epoll p w))"
proof (cases "handlers w p")
  case None
  then show ?thesis using c by (simp add: EventHandler_destroy_def)
next
  case (Some h)
  let ?w = "close_descriptor (handler_socket h) (w\<lparr>handlers := (handlers w)(p := None)\<rparr>)"
  have "coherent ?w" by (rule coherent_closed [OF c Some])
  moreover have "counters_ok n w \<longrightarrow> counters_ok n ?w" by (simp add: counters_ok_def)
  ultimately show ?thesis
    using Remove_invariants [OF d, of ?w _ "handle h" n] Some
    by (auto simp: EventHandler_destroy_def Let_def split: option.split)
qed

lemma new_handler_coherent:
  assumes c: "coherent w" and fd: "fd \<notin> open_descriptors w"
  shows "coherent (snd (EventHandler_new fd ev w))" (is "coherent ?w")
proof -
  let ?p = "next_address w"
  have p: "handlers w ?p = None" and r: "reg w i k \<noteq> Some ?p" for i k
    using coherent_alive [OF c, of ?p] coherent_address [OF c, of i k ?p] by (cases "handlers w ?p", auto)
  have reg: "reg ?w = reg w" "watched ?w = watched w" "managers ?w = managers w"
    by (auto simp: EventHandler_new_def reg_def watched_def fun_eq_iff)
  have h: "handlers ?w = (handlers w)(?p \<mapsto> \<lparr>event_manager = None, handle = 0, handler_socket = fd, handler_events = ev\<rparr>)"
      "next_address ?w = Suc ?p" "open_descriptors ?w = insert fd (open_descriptors w)"
    by (simp_all add: EventHandler_new_def)
  have old: "handler_socket f \<noteq> fd" "x \<noteq> ?p" if "handlers w x = Some f" for x f
    using coherent_alive [OF c that] fd by auto
  have "watched w i fd = None" for i
    using coherent_watched [OF c, of i fd] old by (cases "watched w i fd") blast+
  then show ?thesis
    by (intro coherent_slot [OF c, where p = ?p and F = "{fd}" and w' = ?w])
      (use old r in \<open>auto simp: reg h coherent_om_inv [OF c] coherent_zero [OF c]\<close>)
qed

lemma perform_invariants:
  assumes "documented epoll" "coherent w" "counters_ok n w" "Suc (Suc n) < 2 ^ 64"
  shows "coherent (perform epoll a w) \<and> counters_ok (Suc n) (perform epoll a w)"
proof (cases a)
  case (Construct fd ev)
  have "counters_ok (Suc n) (snd (EventHandler_new fd ev w))"
    using counters_ok_mono [OF assms(3), of "Suc n"] by (simp add: EventHandler_new_def counters_ok_def)
  then show ?thesis
    using new_handler_coherent [OF assms(2), of fd ev] assms(2) counters_ok_mono [OF assms(3), of "Suc n"] Construct
    by simp
next
  case (Remove_handler_from m p)
  then show ?thesis
    using Remove_invariants [OF assms(1,2)] counters_ok_mono [OF _ le_SucI [OF order_refl]] assms(2,3)
    by (auto simp: EventManager_Remove_handler_def split: option.split)
qed (use Remove_invariants [OF assms(1,2)] Add_invariants [OF assms] destroy_invariants [OF assms(1,2)] assms(3)
    counters_ok_mono [OF _ le_SucI [OF order_refl]] in auto)

lemma perform_all_invariants:
  "documented epoll \<Longrightarrow> coherent w \<Longrightarrow> counters_ok n w \<Longrightarrow> n + length as + 2 < 2 ^ 64 \<Longrightarrow>
   coherent (fold (perform epoll) as w) \<and> counters_ok (n + length as) (fold (perform epoll) as w)"
proof (induction as arbitrary: w n)
  case (Cons a as)
  have "Suc (Suc n) < 2 ^ 64" using Cons.prems(4) by simp
  from perform_invariants [OF Cons.prems(1-3) this, of a]
  show ?case using Cons.IH [of "perform epoll a w" "Suc n"] Cons.prems(1,4) by simp
qed simp

lemma dispatch_invariants:
  "documented epoll \<Longrightarrow> coherent w \<Longrightarrow> counters_ok n w \<Longrightarrow> n + actions_in events + 2 < 2 ^ 64 \<Longrightarrow>
   coherent (snd (dispatch epoll m events w)) \<and> counters_ok (n + actions_in events) (snd (dispatch epoll m events w))"
proof (induction events arbitrary: w n)
  case (Cons e events)
  obtain k as where e: "e = (k, as)" by (cases e)
  have less: "n + length as + 2 < 2 ^ 64" "n + actions_in events + 2 < 2 ^ 64" using Cons.prems(4) by (simp_all add: e)
  have skip: ?case if "dispatch epoll m (e # events) w = dispatch epoll m events w"
    using Cons.IH [OF Cons.prems(1-3) less(2)] counters_ok_mono that by (auto simp: e)
  show ?case
  proof (cases "om_find (registered_events (managers w m)) k")
    case (Some p)
    show ?thesis
    proof (cases "handlers w p")
      case alive: (Some h)
      note acts = perform_all_invariants [OF Cons.prems(1-3) less(1)]
      show ?thesis
        using Cons.IH [of "fold (perform epoll) as w" "n + length as"] acts Cons.prems(1,4) Some alive
        by (simp add: e case_prod_beta add.assoc)
    qed (rule skip, simp add: e Some)
  qed (rule skip, simp add: e)
qed simp

lemma prune_invariants:
  "documented epoll \<Longrightarrow> coherent w \<Longrightarrow> counters_ok n w \<Longrightarrow>
   coherent (fold (\<lambda>k w. snd (EventManager_Remove epoll m k w)) ks w) \<and>
   counters_ok n (fold (\<lambda>k w. snd (EventManager_Remove epoll m k w)) ks w)"
  by (induction ks arbitrary: w) (simp_all add: Remove_invariants)

lemma Remove_absent: "reg w m k = None \<Longrightarrow> EventManager_Remove epoll m k w = (Inl ENOENT, w)"
  by (simp add: EventManager_Remove_def reg_def)

text \<open>Removing expired entries touches nothing else.\<close>

lemma prune_expired:
  "(\<And>k p. k \<in> set ks \<Longrightarrow> reg w m k = Some p \<Longrightarrow> handlers w p = None) \<Longrightarrow>
   handlers (fold (\<lambda>k w. snd (EventManager_Remove epoll m k w)) ks w) = handlers w \<and>
   (\<forall>j. j \<notin> set ks \<longrightarrow> reg (fold (\<lambda>k w. snd (EventManager_Remove epoll m k w)) ks w) m j = reg w m j)"
proof (induction ks arbitrary: w)
  case (Cons k ks)
  show ?case
  proof (cases "reg w m k")
    case None
    then show ?thesis using Cons.IH [of w] Cons.prems by (auto simp: Remove_absent)
  next
    case (Some p)
    have dead: "handlers w p = None" by (rule Cons.prems [OF _ Some]) simp
    have "reg (erase_event m k w) m j = Some q \<Longrightarrow> handlers w q = None" if "j \<in> set ks" for j q
      using Cons.prems [of j q] that by (auto simp: reg_erase_event split: if_splits)
    then show ?thesis
      using Cons.IH [of "erase_event m k w"] Remove_dead [OF Some dead] by (auto simp: reg_erase_event)
  qed
qed simp

lemma expired_dead:
  assumes "k \<in> set (expired_handlers m w)" "coherent w" "reg w m k = Some p"
  shows "handlers w p = None"
proof -
  obtain q where "(k, q) \<in> set (registered_events (managers w m))" "handlers w q = None"
    using assms(1) by (auto simp: expired_handlers_def)
  then show ?thesis
    using om_find_in_set [OF coherent_om_inv [OF assms(2)], of m k q] assms(3) by (simp add: reg_def)
qed

lemma ProcessEvents_invariants:
  assumes "documented epoll" "coherent w" "counters_ok n w"
    and "n + actions_of (Process m ready) + 2 < 2 ^ 64"
  shows "coherent (snd (ProcessEvents epoll m ready w)) \<and>
    counters_ok (n + actions_of (Process m ready)) (snd (ProcessEvents epoll m ready w))"
proof -
  let ?w = "fold (\<lambda>k w. snd (EventManager_Remove epoll m k w)) (expired_handlers m w) w"
  have w: "coherent ?w" "counters_ok n ?w" using prune_invariants [OF assms(1-3)] by blast+
  show ?thesis
  proof (cases ready)
    case None
    then show ?thesis using w by (simp add: ProcessEvents_def)
  next
    case (Some events)
    have "actions_in (take k events) \<le> actions_in events" for k
      by (induction events arbitrary: k) (auto simp: take_Cons split: nat.split)
    then have le: "actions_in (take MAX_CONCURRENT_EVENTS events) \<le> actions_in events" .
    then have "n + actions_in (take MAX_CONCURRENT_EVENTS events) + 2 < 2 ^ 64"
      using assms(4) Some by (simp add: le_less_trans)
    from dispatch_invariants [OF assms(1) w this, of m] le show ?thesis
      using counters_ok_mono by (auto simp: ProcessEvents_def Some)
  qed
qed

text \<open>The handlers after a move.\<close>

lemma fold_tell_handler:
  "(\<And>k q h. (k, q) \<in> set es \<Longrightarrow> hs q = Some h \<Longrightarrow> handle h = k) \<Longrightarrow>
   fold (tell_handler this) es hs p =
     map_option (\<lambda>h. if p \<in> snd ` set es then h\<lparr>event_manager := Some this\<rparr> else h) (hs p)"
proof (induction es arbitrary: hs)
  case (Cons e es)
  obtain k q where e: "e = (k, q)" by (cases e)
  have tell: "tell_handler this e hs = (case hs q of None \<Rightarrow> hs | Some h \<Rightarrow> hs(q \<mapsto> h\<lparr>event_manager := Some this\<rparr>))"
    using Cons.prems [of k q] by (cases "hs q") (auto simp: tell_handler_def e)
  have known: "handle h = j" if "(j, r) \<in> set es" "tell_handler this e hs r = Some h" for j r h
    using Cons.prems [of j r] that by (cases "hs q"; cases "r = q") (auto simp: tell)
  have "fold (tell_handler this) es (tell_handler this e hs) p =
      map_option (\<lambda>h. if p \<in> snd ` set es then h\<lparr>event_manager := Some this\<rparr> else h) (tell_handler this e hs p)"
    by (rule Cons.IH) (rule known)
  then show ?case
    unfolding tell by (cases "hs q"; cases "hs p") (auto simp: e tell [unfolded e])
qed (simp add: option.map_ident)

lemma EventManager_move_effect:
  assumes c: "coherent w" and new: "this \<noteq> other"
  defines "w' \<equiv> EventManager_move this other w"
  shows "reg w' i k = (if i = this then reg w other k else if i = other then None else reg w i k)"
    and "watched w' i = (if i = this then watched w other else if i = other then Map.empty else watched w i)"
    and "handlers w' p =
      map_option (\<lambda>h. if event_manager h = Some other then h\<lparr>event_manager := Some this\<rparr> else h) (handlers w p)"
    and "next_address w' = next_address w" and "open_descriptors w' = open_descriptors w"
proof -
  have m: "managers w' = (managers w)(other := EventManager_new, this := managers w other)"
    and h: "handlers w' = fold (tell_handler this) (registered_events (managers w other)) (handlers w)"
    by (simp_all add: w'_def EventManager_move_def Let_def)
  show "reg w' i k = (if i = this then reg w other k else if i = other then None else reg w i k)"
    and "watched w' i = (if i = this then watched w other else if i = other then Map.empty else watched w i)"
    by (simp_all add: reg_def watched_def m EventManager_new_def)
  show "next_address w' = next_address w" "open_descriptors w' = open_descriptors w"
    by (simp_all add: w'_def EventManager_move_def Let_def)
  have in_table: "(j, q) \<in> set (registered_events (managers w other)) \<longleftrightarrow> reg w other j = Some q" for j q
    using om_find_in_set [OF coherent_om_inv [OF c], of other j q] by (simp add: reg_def)
  have known: "handle g = j" if "(j, q) \<in> set (registered_events (managers w other))" "handlers w q = Some g" for j q g
    using coherent_reg [OF c, of other j q g] that by (simp add: in_table)
  have listed: "p \<in> snd ` set (registered_events (managers w other)) \<longleftrightarrow> event_manager h = Some other"
    if "handlers w p = Some h" for h
  proof
    assume "p \<in> snd ` set (registered_events (managers w other))"
    then obtain j where "reg w other j = Some p" using in_table by auto
    then show "event_manager h = Some other" using coherent_reg [OF c _ that] by blast
  next
    assume "event_manager h = Some other"
    then have "(handle h, p) \<in> set (registered_events (managers w other))"
      using coherent_handler [OF c that] in_table by blast
    then show "p \<in> snd ` set (registered_events (managers w other))" by force
  qed
  show "handlers w' p =
      map_option (\<lambda>h. if event_manager h = Some other then h\<lparr>event_manager := Some this\<rparr> else h) (handlers w p)"
  proof -
    have "fold (tell_handler this) (registered_events (managers w other)) (handlers w) p = map_option
        (\<lambda>h. if p \<in> snd ` set (registered_events (managers w other)) then h\<lparr>event_manager := Some this\<rparr> else h) (handlers w p)"
      by (rule fold_tell_handler) (rule known)
    then show ?thesis unfolding h using listed by (cases "handlers w p") auto
  qed
qed

lemma move_coherent:
  assumes c: "coherent w" and new: "this \<noteq> other" "registered_events (managers w this) = []"
  shows "coherent (EventManager_move this other w)" (is "coherent ?w")
proof (rule coherentI)
  note eff = EventManager_move_effect [OF c new(1)]
  have empty: "reg w this k = None" for k using new(2) by (simp add: reg_def)
  then have unmanaged: "event_manager h \<noteq> Some this" if "handlers w p = Some h" for p h
    using coherent_handler [OF c that, of this] by auto
  fix i
  show "reg ?w i 0 = None" using coherent_zero [OF c] by (simp add: eff(1))
  show "om_inv (registered_events (managers ?w i))"
    using coherent_om_inv [OF c] by (simp add: EventManager_move_def EventManager_new_def Let_def)
  fix p h
  {
    assume h: "handlers ?w p = Some h" "event_manager h = Some i"
    then obtain h0 where h0: "handlers w p = Some h0"
        "h = (if event_manager h0 = Some other then h0\<lparr>event_manager := Some this\<rparr> else h0)"
      by (auto simp: eff(3))
    show "reg ?w i (handle h) = Some p \<and> watched ?w i (handler_socket h) = Some (handle h)"
    proof (cases "event_manager h0 = Some other")
      case True
      then have i: "i = this" using h(2) h0(2) by simp
      show ?thesis using coherent_handler [OF c h0(1) True] h0(2) True unfolding i by (simp add: eff)
    next
      case False
      then have "event_manager h0 = Some i" "i \<noteq> other" "i \<noteq> this"
        using h(2) h0 unmanaged [OF h0(1)] by auto
      then show ?thesis using coherent_handler [OF c h0(1)] h0(2) False by (simp add: eff)
    qed
  next
    fix k assume "reg ?w i k = Some p" "handlers ?w p = Some h"
    then show "event_manager h = Some i \<and> handle h = k"
      using coherent_reg [OF c, of _ k p] empty by (fastforce simp: eff split: if_splits)
  next
    fix fd k assume "watched ?w i fd = Some k"
    then obtain j where "watched w j fd = Some k" "if i = this then j = other else j = i \<and> i \<noteq> other"
      by (auto simp: eff split: if_splits)
    then obtain q g where "reg ?w i k = Some q" "handlers w q = Some g" "handler_socket g = fd"
      using coherent_watched [OF c, of j fd k] by (auto simp: eff split: if_splits)
    then show "\<exists>p h. reg ?w i k = Some p \<and> handlers ?w p = Some h \<and> handler_socket h = fd"
      by (auto simp: eff(3))
  next
    fix q g assume "handlers ?w p = Some h" "handlers ?w q = Some g" "handler_socket h = handler_socket g"
    then show "p = q" using coherent_socket [OF c, of p _ q] by (fastforce simp: eff split: if_splits)
  next
    assume "handlers ?w p = Some h"
    then show "p < next_address ?w \<and> handler_socket h \<in> open_descriptors ?w"
      using coherent_alive [OF c, of p] by (auto simp: eff split: if_splits)
  next
    fix k assume "reg ?w i k = Some p"
    then show "p < next_address ?w" using coherent_address [OF c] by (auto simp: eff split: if_splits)
  }
qed

lemma move_counters: "counters_ok n w \<Longrightarrow> counters_ok n (EventManager_move this other w)"
  by (auto simp: counters_ok_def EventManager_move_def EventManager_new_def Let_def om_keys_def)

lemma world_new_invariants: "coherent world_new" "counters_ok 0 world_new"
  by (auto simp: coherent_def counters_ok_def world_new_def EventManager_new_def reg_def watched_def om_keys_def)

lemma world_run_invariants:
  "documented epoll \<Longrightarrow> coherent w \<Longrightarrow> counters_ok n w \<Longrightarrow> n + total_actions events + 2 < 2 ^ 64 \<Longrightarrow>
   coherent (fold (world_step epoll) events w) \<and>
   counters_ok (n + total_actions events) (fold (world_step epoll) events w)"
proof (induction events arbitrary: w n)
  case (Cons e events)
  have less: "n + actions_of e + 2 < 2 ^ 64" using Cons.prems(4) by simp
  have "coherent (world_step epoll e w) \<and> counters_ok (n + actions_of e) (world_step epoll e w)"
  proof (cases e)
    case (Act a)
    then show ?thesis using perform_invariants [OF Cons.prems(1-3), of a] less by simp
  next
    case (Process m ready)
    then show ?thesis using ProcessEvents_invariants [OF Cons.prems(1-3), of m ready] less by simp
  next
    case (Move_manager this other)
    then show ?thesis using move_coherent [OF Cons.prems(2)] move_counters Cons.prems(2,3) by simp
  qed
  then show ?case
    using Cons.IH [of "world_step epoll e w" "n + actions_of e"] Cons.prems(1,4) by (simp add: add.assoc)
qed simp

lemma coherent_move:
  assumes c: "coherent w" and h: "handlers w p = Some h" "event_manager h = None"
  shows "coherent (snd (EventHandler_move p w))" (is "coherent ?v")
proof -
  let ?q = "next_address w" and ?F = "{handler_socket h}" and ?u = "w\<lparr>handlers := (handlers w)(p := None)\<rparr>"
  have q: "handlers w ?q = None" "reg w i k \<noteq> Some ?q" "p \<noteq> ?q" for i k
    using coherent_alive [OF c, of ?q] coherent_address [OF c, of i k ?q] coherent_alive [OF c h(1)]
    by (cases "handlers w ?q", auto)
  have free: "reg w i k \<noteq> Some p" "watched w i (handler_socket h) = None" for i k by (rule coherent_free [OF c h])+
  have u: "coherent ?u"
  proof (rule coherent_slot [OF c, where p = p and F = ?F])
    show "handler_socket g \<in> ?F \<longleftrightarrow> x = p" if "handlers w x = Some g" for x g by (rule coherent_alone [OF c h(1) that])
  qed (use free in \<open>auto simp: coherent_om_inv [OF c] coherent_zero [OF c]\<close>)
  have v: "handlers ?v = (handlers ?u)(?q \<mapsto> h)" "reg ?v = reg w" "watched ?v = watched w" "managers ?v = managers w"
    "next_address ?v = Suc ?q" "open_descriptors ?v = open_descriptors w"
    using h(1) by (auto simp: EventHandler_move_def reg_def watched_def fun_eq_iff)
  show ?thesis
  proof (rule coherent_slot [OF u, where p = ?q and F = ?F])
    show "handler_socket g \<in> ?F \<longleftrightarrow> x = ?q" if "handlers ?u x = Some g" for x g
      using that coherent_alone [OF c h(1), of x g] q(1) by (auto split: if_splits)
  qed (use free q(2) h(2) coherent_alive [OF c h(1)] in \<open>auto simp: v coherent_om_inv [OF c] coherent_zero [OF c]\<close>)
qed

text \<open>What the handlers without a manager hold as their handle is of no importance.\<close>

lemma coherent_handles:
  assumes c: "coherent w" and same: "managers w' = managers w" "next_address w' = next_address w" "open_descriptors w' = open_descriptors w"
    and origin: "\<And>q h'. handlers w' q = Some h' \<Longrightarrow> \<exists>h. handlers w q = Some h \<and> event_manager h' = event_manager h \<and>
      handler_socket h' = handler_socket h \<and> (event_manager h \<noteq> None \<longrightarrow> handle h' = handle h)"
    and kept: "\<And>q h. handlers w q = Some h \<Longrightarrow> \<exists>h'. handlers w' q = Some h' \<and> handler_socket h' = handler_socket h"
  shows "coherent w'"
proof (rule coherentI)
  have reg: "reg w' = reg w" "watched w' = watched w" using same(1) by (simp_all add: reg_def watched_def fun_eq_iff)
  fix q h i
  {
    assume h: "handlers w' q = Some h" "event_manager h = Some i"
    then obtain g where "handlers w q = Some g" "event_manager g = Some i" "handler_socket h = handler_socket g" "handle h = handle g"
      using origin by force
    then show "reg w' i (handle h) = Some q \<and> watched w' i (handler_socket h) = Some (handle h)"
      using coherent_handler [OF c] by (simp add: reg)
  next
    fix k assume "reg w' i k = Some q" "handlers w' q = Some h"
    then show "event_manager h = Some i \<and> handle h = k"
      using origin coherent_reg [OF c, of i k q] by (fastforce simp: reg)
  next
    fix fd k assume "watched w' i fd = Some k"
    then obtain p g where "reg w i k = Some p" "handlers w p = Some g" "handler_socket g = fd"
      using coherent_watched [OF c, of i fd k] by (auto simp: reg)
    then show "\<exists>p h. reg w' i k = Some p \<and> handlers w' p = Some h \<and> handler_socket h = fd"
      using kept by (fastforce simp: reg)
  next
    fix b h' assume "handlers w' q = Some h" "handlers w' b = Some h'" "handler_socket h = handler_socket h'"
    then show "q = b" using origin coherent_socket [OF c] by metis
  next
    assume "handlers w' q = Some h"
    then show "q < next_address w' \<and> handler_socket h \<in> open_descriptors w'"
      using origin coherent_alive [OF c] same by metis
  next
    fix k assume "reg w' i k = Some q"
    then show "q < next_address w'" using coherent_address [OF c] same(2) by (simp add: reg)
  }
qed (use coherent_om_inv [OF c] coherent_zero [OF c] same(1) in \<open>simp_all add: reg_def\<close>)

lemma assign_coherent:
  assumes "coherent w" "unregistered this w" "unregistered other w"
  shows "coherent (EventHandler_move_assign this other w)"
proof -
  obtain h g where hg: "handlers w this = Some h" "event_manager h = None" "handlers w other = Some g" "event_manager g = None"
    using assms(2,3) by (auto simp: unregistered_def split: option.splits)
  show ?thesis
    by (rule coherent_handles [OF assms(1)]) (use hg in \<open>auto simp: EventHandler_move_assign_def split: if_splits\<close>)
qed

lemma object_run_invariants:
  "documented epoll \<Longrightarrow> coherent w \<Longrightarrow> counters_ok n w \<Longrightarrow> orderly_run epoll es w \<Longrightarrow>
   n + sum_list (map added_by es) + 2 < 2 ^ 64 \<Longrightarrow> coherent (fold (object_step epoll) es w)"
proof (induction es arbitrary: w n)
  case (Cons e es)
  have "coherent (object_step epoll e w) \<and> counters_ok (n + added_by e) (object_step epoll e w)"
  proof (cases e)
    case (Happens x)
    have "n + total_actions [x] + 2 < 2 ^ 64" using Cons.prems(5) Happens by simp
    from world_run_invariants [OF Cons.prems(1-3) this] show ?thesis using Happens by simp
  next
    case (Move_handler p)
    then obtain h where "handlers w p = Some h" "event_manager h = None"
      using Cons.prems(4) by (auto simp: unregistered_def split: option.splits)
    from coherent_move [OF Cons.prems(2) this] show ?thesis
      using Cons.prems(3) Move_handler by (simp add: EventHandler_move_def counters_ok_def)
  next
    case (Assign_handler this other)
    have "counters_ok n (EventHandler_move_assign this other w)"
      using Cons.prems(3) by (auto simp: EventHandler_move_assign_def counters_ok_def split: option.split)
    then show ?thesis using assign_coherent [OF Cons.prems(2)] Cons.prems(4) Assign_handler by simp
  next
    case (Assign_manager this other)
    have "EventManager_move_assign this other w = EventManager_move this other w"
      by (simp add: EventManager_move_assign_def EventManager_move_def)
    then show ?thesis
      using move_coherent [OF Cons.prems(2)] move_counters [OF Cons.prems(3)] Cons.prems(4) Assign_manager by simp
  qed
  then show ?case
    using Cons.IH [of "object_step epoll e w" "n + added_by e"] Cons.prems(1,4,5) by (simp add: add.assoc)
qed simp

text \<open>A descriptor on the list leads to its handler.\<close>

lemma watched_is_called:
  assumes c: "coherent w" and fd: "watched w m fd = Some k"
  shows "\<exists>p h. handlers w p = Some h \<and> handler_socket h = fd \<and> event_manager h = Some m \<and>
    (\<forall>actions. fst (ProcessEvents epoll m (Some [(k, actions)]) w) = [p])"
proof -
  obtain p h where p: "reg w m k = Some p" "handlers w p = Some h" "handler_socket h = fd"
    using coherent_watched [OF c fd] by blast
  let ?w = "fold (\<lambda>k w. snd (EventManager_Remove epoll m k w)) (expired_handlers m w) w"
  have dead: "\<And>k p. k \<in> set (expired_handlers m w) \<Longrightarrow> reg w m k = Some p \<Longrightarrow> handlers w p = None"
    using expired_dead c by blast
  have "k \<notin> set (expired_handlers m w)" using dead [of k p] p by auto
  then have "reg ?w m k = Some p" "handlers ?w p = Some h"
    using prune_expired [of "expired_handlers m w" w m epoll, OF dead] p by auto
  then have "fst (ProcessEvents epoll m (Some [(k, actions)]) w) = [p]" for actions
    by (simp add: ProcessEvents_def MAX_CONCURRENT_EVENTS_def reg_def case_prod_beta)
  then show ?thesis using p coherent_reg [OF c p(1,2)] by blast
qed

text \<open>A registered handler is watched and called; what no registered handler has is not watched.\<close>

lemma registered_is_called:
  assumes c: "coherent w" and p: "handlers w p = Some h" "event_manager h = Some m"
  shows "epoll_interest (managers w m) (handler_socket h) = Some (handle h) \<and>
    (\<forall>actions. fst (ProcessEvents epoll m (Some [(handle h, actions)]) w) = [p])"
proof -
  have k: "watched w m (handler_socket h) = Some (handle h)" using coherent_handler [OF c p] by simp
  obtain q g where q: "handlers w q = Some g" "handler_socket g = handler_socket h"
    "\<forall>actions. fst (ProcessEvents epoll m (Some [(handle h, actions)]) w) = [q]"
    using watched_is_called [OF c k] by blast
  have "q = p" by (rule coherent_socket [OF c q(1) p(1) q(2)])
  then show ?thesis using k q(3) by (simp add: watched_def)
qed

lemma unregistered_not_watched:
  assumes c: "coherent w"
    and none: "\<And>q g. handlers w q = Some g \<Longrightarrow> handler_socket g = fd \<Longrightarrow> event_manager g \<noteq> Some m"
  shows "epoll_interest (managers w m) fd = None"
proof (rule ccontr)
  assume "epoll_interest (managers w m) fd \<noteq> None"
  then obtain k where "watched w m fd = Some k" by (auto simp: watched_def)
  from coherent_watched [OF c this] obtain q g where
    q: "reg w m k = Some q" "handlers w q = Some g" "handler_socket g = fd" by blast
  show False using coherent_reg [OF c q(1,2)] none [OF q(2,3)] by simp
qed

subsection \<open>Properties\<close>

text \<open>C14: In every history of handlers being constructed, added, moved from manager to manager, removed
  and destroyed, also by one another while events are processed, and of handlers and managers being
  moved and assigned, whatever additions the kernel refuses: a handler that has a manager is
  registered there under its handle and its descriptor is watched under that handle; and a watched
  descriptor belongs to a live handler of that manager, which is the one that is called when the
  descriptor is reported ready.  The histories are those in which a handler is moved or assigned only
  while it has no manager, and a manager is assigned only from another one and while it has no
  handlers: the operations that tell nobody break this otherwise, as is shown below and in \<open>Server_Handlers\<close>.\<close>
theorem watched_descriptor_calls_its_handler:
  assumes "documented epoll" and "orderly_run epoll events world_new"
    and "sum_list (map added_by events) < 2 ^ 64 - 2"
  shows "let w = fold (object_step epoll) events world_new in
    (\<forall>p h m. handlers w p = Some h \<longrightarrow> event_manager h = Some m \<longrightarrow>
       om_find (registered_events (managers w m)) (handle h) = Some p \<and>
       epoll_interest (managers w m) (handler_socket h) = Some (handle h)) \<and>
    (\<forall>m fd k. epoll_interest (managers w m) fd = Some k \<longrightarrow>
       (\<exists>p h. handlers w p = Some h \<and> handler_socket h = fd \<and> event_manager h = Some m \<and>
          (\<forall>actions. fst (ProcessEvents epoll m (Some [(k, actions)]) w) = [p])))"
proof -
  have c: "coherent (fold (object_step epoll) events world_new)"
    using object_run_invariants [OF assms(1) world_new_invariants assms(2)] assms(3) by simp
  show ?thesis
    using coherent_handler [OF c] watched_is_called [OF c] by (simp add: Let_def reg_def watched_def)
qed

definition example_epoll :: epoll_ctl where
  "example_epoll n op fd interest =
     (case op of EPOLL_CTL_DEL \<Rightarrow> if interest fd = None then (ENOENT, interest) else (0, interest(fd := None))
      | EPOLL_CTL_ADD k ev \<Rightarrow> if interest fd = None then (0, interest(fd \<mapsto> k)) else (EEXIST, interest))"

lemma documented_example_epoll: "documented example_epoll"
  by (auto simp: documented_def example_epoll_def)

text \<open>
  Two handlers, the second constructed as a temporary and moved; it destroys the first when it is
  called.  Then their manager is assigned to another.
\<close>

theorem watched_descriptor_calls_its_handler_witness:
  "let w = fold (object_step example_epoll)
      [Happens (Act (Construct 5 1)), Happens (Act (Add_to 0 0)), Happens (Act (Construct 6 1)), Move_handler 1,
       Happens (Act (Add_to 0 2)), Happens (Process 0 (Some [(2, [Destroy 0]), (1, [])])), Assign_manager 3 0] world_new
   in epoll_interest (managers w 3) 5 = None \<and>
      (\<exists>p h. handlers w p = Some h \<and> handler_socket h = 6 \<and>
         fst (ProcessEvents example_epoll 3 (Some [(2, [])]) w) = [p])"
proof -
  let ?es = "[Happens (Act (Construct 5 1)), Happens (Act (Add_to 0 0)), Happens (Act (Construct 6 1)), Move_handler 1,
       Happens (Act (Add_to 0 2)), Happens (Process 0 (Some [(2, [Destroy 0]), (1, [])])), Assign_manager 3 0]"
  have "unregistered 1 (fold (object_step example_epoll) (take 3 ?es) world_new)"
    "registered_events (managers (fold (object_step example_epoll) (take 6 ?es) world_new) 3) = []" by code_simp+
  then have orderly: "orderly_run example_epoll ?es world_new" by (simp add: eval_nat_numeral del: object_step.simps)
  have "sum_list (map added_by ?es) < 2 ^ 64 - 2" by simp
  note calls = watched_descriptor_calls_its_handler [OF documented_example_epoll orderly this, unfolded Let_def, THEN conjunct2, rule_format, of 3 6 2]
  have "epoll_interest (managers (fold (object_step example_epoll) ?es world_new) 3) 6 = Some 2"
      "epoll_interest (managers (fold (object_step example_epoll) ?es world_new) 3) 5 = None"
    by code_simp+
  then show ?thesis using calls unfolding Let_def by blast
qed

text \<open>Assigning a manager to one that has handlers of its own leaves these pointing to it under their
  old handles: when one of them is destroyed, it takes the handler off the list that has come in
  under the same handle, which is alive and is not called any more.\<close>
theorem assigned_manager_loses_handler:
  assumes "documented epoll" and "coherent w" and "this \<noteq> other"
    and "handlers w p = Some h" and "event_manager h = Some this"
    and "handlers w q = Some g" and "event_manager g = Some other" and "handle g = handle h"
  shows "let w1 = EventManager_move_assign this other w; w2 = EventHandler_destroy epoll p w1 in
    epoll_interest (managers w1 this) (handler_socket g) = Some (handle g) \<and>
    (\<exists>g'. handlers w2 q = Some g' \<and> event_manager g' = None) \<and>
    epoll_interest (managers w2 this) (handler_socket g) = None"
proof -
  let ?w1 = "EventManager_move_assign this other w"
  have eq: "?w1 = EventManager_move this other w"
    by (simp add: EventManager_move_assign_def EventManager_move_def)
  note effect = EventManager_move_effect [OF assms(2,3), folded eq]
  let ?w = "close_descriptor (handler_socket h) (?w1\<lparr>handlers := (handlers ?w1)(p := None)\<rparr>)"
  have p: "handlers ?w1 p = Some h" using assms(3-5) by (simp add: effect(3))
  have q: "handlers ?w1 q = Some (g\<lparr>event_manager := Some this\<rparr>)" using assms(6,7) by (simp add: effect(3))
  have pq: "q \<noteq> p" using assms(3-7) by auto
  have sockets: "handler_socket g \<noteq> handler_socket h"
    using coherent_socket [OF assms(2,6,4)] pq by auto
  have g: "reg w other (handle h) = Some q" "watched w other (handler_socket g) = Some (handle g)"
    using coherent_handler [OF assms(2,6,7)] assms(8) by simp_all
  have w1: "watched ?w1 this (handler_socket g) = Some (handle g)" using g by (simp add: effect(2))
  have w: "reg ?w this (handle h) = Some q" "watched ?w this (handler_socket g) = Some (handle g)"
    "handlers ?w q = Some (g\<lparr>event_manager := Some this\<rparr>)"
    using g w1 pq q sockets by (simp_all add: effect(1))
  obtain w' where w': "call_epoll epoll this EPOLL_CTL_DEL (handler_socket g) ?w = (0, w')"
    "managers w' = (managers ?w)(this := (managers ?w this)\<lparr>epoll_interest :=
       (epoll_interest (managers ?w this))(handler_socket g := None)\<rparr>)"
    using epoll_DEL [OF assms(1)] w(2) unfolding watched_def by blast
  have "handle h \<noteq> 0" using coherent_handler [OF assms(2,4,5)] coherent_zero [OF assms(2), of this] by auto
  then have "EventHandler_destroy epoll p ?w1 = erase_event this (handle h)
      (set_handler q (g\<lparr>event_manager := None, handle := 0\<rparr>) w')"
    using p w(1,3) w'(1) assms(5) by (simp add: EventHandler_destroy_def Let_def EventManager_Remove_def reg_def)
  then show ?thesis using w1 w'(2) by (simp add: Let_def watched_def erase_event_def set_manager_def)
qed

theorem assigned_manager_loses_handler_witness:
  "let w = fold (world_step example_epoll)
         [Act (Construct 5 1), Act (Add_to 0 0), Act (Construct 6 1), Act (Add_to 1 1)] world_new;
       w2 = EventHandler_destroy example_epoll 0 (EventManager_move_assign 0 1 w)
   in epoll_interest (managers w2 0) 6 = None"
proof -
  let ?es = "[Act (Construct 5 1), Act (Add_to 0 0), Act (Construct 6 1), Act (Add_to 1 1)]"
  let ?w = "fold (world_step example_epoll) ?es world_new"
  have "coherent ?w"
    using world_run_invariants [OF documented_example_epoll world_new_invariants, of ?es] by simp
  moreover have "handlers ?w 0 = Some \<lparr>event_manager = Some 0, handle = 1, handler_socket = 5, handler_events = 1\<rparr>"
    "handlers ?w 1 = Some \<lparr>event_manager = Some 1, handle = 1, handler_socket = 6, handler_events = 1\<rparr>"
    by code_simp+
  ultimately show ?thesis
    using assigned_manager_loses_handler [OF documented_example_epoll, of ?w 0 1 0 _ 1] by (fastforce simp: Let_def)
qed

end
