(* ===== verification/Client_Service.thy ===== *)
theory Client_Service
  imports Client Event_Handlers
begin

section \<open>The connected clients\<close>

text \<open>
  The rest of the service side of \<open>client.cc\<close>: the listening socket accepts clients, registers a
  \<open>ClientSenderSocket\<close> for each with the event manager and hands it to the \<open>ClientRepository\<close>, the
  only owner; a client that has gone sets a flag and notifies the repository through an eventfd,
  and the repository drops it, which destroys the handler and closes its descriptor.
\<close>

definition EPOLLIN :: u32 where "EPOLLIN = 1"

text \<open>A client's handler is its address in the world of handlers with the object's own state.\<close>

type_synonym transport_sockets = "(nat \<times> ClientSenderSocket) list"

record client_service =
  transport_sockets :: transport_sockets
  event_counter :: nat  \<comment> \<open>of the eventfd\<close>
  event_world :: world

definition ClientSenderSocket_new :: "nat \<Rightarrow> ClientSenderSocket" where
  "ClientSenderSocket_new fd = \<lparr>client_socket = fd, eof_received = False\<rparr>"

subsection \<open>Operations\<close>

definition ClientRepository_Add ::
  "epoll_ctl \<Rightarrow> nat \<Rightarrow> nat \<times> ClientSenderSocket \<Rightarrow> client_service \<Rightarrow> (int + unit) \<times> client_service" where
  "ClientRepository_Add epoll m dts cs =
     (case EventManager_Add epoll m (fst dts) (event_world cs) of
        (Inl err, w) \<Rightarrow> (Inl err, cs\<lparr>event_world := w\<rparr>)
      | (Inr _, w) \<Rightarrow> (Inr (), cs\<lparr>event_world := w, transport_sockets := transport_sockets cs @ [dts]\<rparr>))"

text \<open>The result of \<open>accept\<close>; a handler that could not be added has lost its last owner at the end.\<close>

definition ClientListenSocket_Call :: "epoll_ctl \<Rightarrow> nat \<Rightarrow> nat option \<Rightarrow> client_service \<Rightarrow> client_service" where
  "ClientListenSocket_Call epoll m accepted cs =
     (case accepted of None \<Rightarrow> cs
      | Some fd \<Rightarrow>
        (case EventHandler_new fd EPOLLIN (event_world cs) of (p, w) \<Rightarrow>
         case ClientRepository_Add epoll m (p, ClientSenderSocket_new fd) (cs\<lparr>event_world := w\<rparr>) of
           (Inl err, cs) \<Rightarrow> cs\<lparr>event_world := EventHandler_destroy epoll p (event_world cs)\<rparr>
         | (Inr _, cs) \<Rightarrow> cs))"

text \<open>The loop of \<open>ClientRepository::Call\<close>, from the last index down; erasing destroys the handler.\<close>

fun erase_disconnected ::
  "epoll_ctl \<Rightarrow> nat \<Rightarrow> transport_sockets \<times> world \<Rightarrow> transport_sockets \<times> world" where
  "erase_disconnected epoll 0 p = p"
| "erase_disconnected epoll (Suc idx) (socks, w) =
     erase_disconnected epoll idx
       (if eof_received (snd (socks ! idx))
        then (take idx socks @ drop (Suc idx) socks, EventHandler_destroy epoll (fst (socks ! idx)) w)
        else (socks, w))"

text \<open>Reading the eventfd takes its value; a failure is only reported.\<close>

definition ClientRepository_Call :: "epoll_ctl \<Rightarrow> bool \<Rightarrow> client_service \<Rightarrow> client_service" where
  "ClientRepository_Call epoll read_ok cs =
     (case erase_disconnected epoll (length (transport_sockets cs)) (transport_sockets cs, event_world cs) of
        (socks, w) \<Rightarrow> \<lparr>transport_sockets = socks,
          event_counter = (if read_ok then 0 else event_counter cs), event_world = w\<rparr>)"

text \<open>The call of one client's handler, with what it receives and the lists it dumps; the write to
  the eventfd may fail.\<close>

fun set_client :: "nat \<Rightarrow> ClientSenderSocket \<Rightarrow> transport_sockets \<Rightarrow> transport_sockets" where
  "set_client p s [] = []"
| "set_client p s ((q, t) # socks) = (if q = p then (q, s) # socks else (q, t) # set_client p s socks)"

definition client_called ::
  "nat \<Rightarrow> bytes option \<Rightarrow> senders \<Rightarrow> NeighbourList \<Rightarrow> bool \<Rightarrow> client_service \<Rightarrow> (bytes list \<times> client_service) cpp" where
  "client_called p received device_info nl write_ok cs =
     (case map_of (transport_sockets cs) p of None \<Rightarrow> Inr ([], cs)
      | Some s \<Rightarrow> bind_cpp (ClientSenderSocket_Call received device_info nl s) (\<lambda>(s, packets, notify).
          Inr (packets, cs\<lparr>transport_sockets := set_client p s (transport_sockets cs),
            event_counter := event_counter cs + (if notify \<and> write_ok then 1 else 0)\<rparr>)))"

subsection \<open>Runs\<close>

datatype client_event =
  Client_connects "nat option"
| Client_ready nat "bytes option" senders NeighbourList bool
| Repository_ready bool

text \<open>A descriptor that \<open>accept\<close> returns was not in use.\<close>

fun client_step :: "epoll_ctl \<Rightarrow> nat \<Rightarrow> client_event \<Rightarrow> client_service \<Rightarrow> client_service cpp" where
  "client_step epoll m (Client_connects accepted) cs =
     Inr (case accepted of None \<Rightarrow> ClientListenSocket_Call epoll m None cs
       | Some fd \<Rightarrow> if fd \<in> open_descriptors (event_world cs) then cs
           else ClientListenSocket_Call epoll m (Some fd) cs)"
| "client_step epoll m (Client_ready p received device_info nl write_ok) cs =
     bind_cpp (client_called p received device_info nl write_ok cs) (\<lambda>(_, cs). Inr cs)"
| "client_step epoll m (Repository_ready read_ok) cs = Inr (ClientRepository_Call epoll read_ok cs)"

fun client_run :: "epoll_ctl \<Rightarrow> nat \<Rightarrow> client_event list \<Rightarrow> client_service \<Rightarrow> client_service cpp" where
  "client_run epoll m [] cs = Inr cs"
| "client_run epoll m (e # es) cs = bind_cpp (client_step epoll m e cs) (client_run epoll m es)"

text \<open>The loop erases what a filter drops, and destroys it.\<close>

lemma erase_disconnected_filter:
  "idx \<le> length socks \<Longrightarrow>
   erase_disconnected epoll idx (socks, w) =
     (filter (\<lambda>(p, s). \<not> eof_received s) (take idx socks) @ drop idx socks,
      fold (EventHandler_destroy epoll) (rev (map fst (filter (\<lambda>(p, s). eof_received s) (take idx socks)))) w)"
proof (induction idx arbitrary: socks w)
  case (Suc idx)
  let ?e = "socks ! idx"
  have take: "take (Suc idx) socks = take idx socks @ [?e]"
    using Suc.prems by (simp add: take_Suc_conv_app_nth)
  show ?case
  proof (cases "eof_received (snd ?e)")
    case True
    let ?l = "take idx socks @ drop (Suc idx) socks"
    have "take idx ?l = take idx socks" "drop idx ?l = drop (Suc idx) socks" "idx \<le> length ?l"
      using Suc.prems by simp_all
    then show ?thesis
      using Suc.IH [of ?l "EventHandler_destroy epoll (fst ?e) w"] True unfolding take by (simp add: case_prod_beta)
  next
    case False
    have "drop idx socks = ?e # drop (Suc idx) socks"
      using Suc.prems by (simp add: Cons_nth_drop_Suc)
    then show ?thesis
      using Suc.IH [of socks w] Suc.prems False unfolding take by (simp add: case_prod_beta)
  qed
qed simp

lemma ClientRepository_Call_filter:
  "ClientRepository_Call epoll read_ok cs =
     \<lparr>transport_sockets = filter (\<lambda>(p, s). \<not> eof_received s) (transport_sockets cs),
      event_counter = (if read_ok then 0 else event_counter cs),
      event_world = fold (EventHandler_destroy epoll)
        (rev (map fst (filter (\<lambda>(p, s). eof_received s) (transport_sockets cs)))) (event_world cs)\<rparr>"
  by (simp add: ClientRepository_Call_def erase_disconnected_filter)

lemma destroy_effect:
  assumes c: "coherent w" and h: "handlers w p = Some h"
  shows "handlers (EventHandler_destroy epoll p w) = (handlers w)(p := None)"
    and "watched (EventHandler_destroy epoll p w) i = (watched w i)(handler_socket h := None)"
proof -
  let ?w = "close_descriptor (handler_socket h) (w\<lparr>handlers := (handlers w)(p := None)\<rparr>)"
  have "EventHandler_destroy epoll p w = ?w \<or> (\<exists>m. EventHandler_destroy epoll p w = erase_event m (handle h) ?w)"
  proof (cases "event_manager h")
    case (Some m)
    then have "EventManager_Remove epoll m (handle h) ?w = (Inr (), erase_event m (handle h) ?w)"
      using coherent_handler [OF c h] by (intro Remove_dead [of _ _ _ p]) simp_all
    then show ?thesis using Some h by (simp add: EventHandler_destroy_def Let_def) blast
  qed (use h in \<open>simp add: EventHandler_destroy_def Let_def\<close>)
  then show "handlers (EventHandler_destroy epoll p w) = (handlers w)(p := None)"
    and "watched (EventHandler_destroy epoll p w) i = (watched w i)(handler_socket h := None)"
    by auto
qed

subsection \<open>Clients are registered handlers\<close>

definition clients_inv :: "nat \<Rightarrow> nat \<Rightarrow> client_service \<Rightarrow> bool" where
  "clients_inv m n cs \<longleftrightarrow> coherent (event_world cs) \<and> counters_ok n (event_world cs) \<and>
     distinct (map fst (transport_sockets cs)) \<and>
     (\<forall>(p, s) \<in> set (transport_sockets cs). \<exists>h. handlers (event_world cs) p = Some h \<and>
        event_manager h = Some m \<and> handler_socket h = client_socket s)"

lemma Add_new_handlers:
  "handlers w p = Some h \<Longrightarrow> event_manager h = None \<Longrightarrow>
   handlers (snd (EventManager_Add epoll m p w)) =
     (case fst (EventManager_Add epoll m p w) of Inl _ \<Rightarrow> handlers w
      | Inr k \<Rightarrow> (handlers w)(p \<mapsto> h\<lparr>event_manager := Some m, handle := k\<rparr>))"
  by (simp add: EventManager_Add_def detached_def call_epoll_def Let_def case_prod_beta)

lemma connect_inv:
  assumes d: "documented epoll" and inv: "clients_inv m n cs" and n: "n + 3 < 2 ^ 64"
    and fd: "fd \<notin> open_descriptors (event_world cs)"
  shows "clients_inv m (Suc n) (ClientListenSocket_Call epoll m (Some fd) cs)"
proof -
  let ?w = "event_world cs" and ?p = "next_address (event_world cs)"
  let ?h = "\<lparr>event_manager = None, handle = 0, handler_socket = fd, handler_events = EPOLLIN\<rparr>"
  obtain w1 where w1: "EventHandler_new fd EPOLLIN ?w = (?p, w1)" by (simp add: EventHandler_new_def)
  have c: "coherent ?w" "counters_ok n ?w" using inv by (simp_all add: clients_inv_def)
  have h1: "handlers w1 = (handlers ?w)(?p \<mapsto> ?h)" using w1 by (auto simp: EventHandler_new_def)
  have c1: "coherent w1" using new_handler_coherent [OF c(1) fd, of EPOLLIN] w1 by simp
  have n1: "counters_ok n w1" using c(2) w1 by (auto simp: EventHandler_new_def counters_ok_def)
  obtain r w2 where add: "EventManager_Add epoll m ?p w1 = (r, w2)" by (cases "EventManager_Add epoll m ?p w1")
  have h2: "handlers w2 = (case r of Inl _ \<Rightarrow> handlers w1
      | Inr k \<Rightarrow> (handlers w1)(?p \<mapsto> ?h\<lparr>event_manager := Some m, handle := k\<rparr>))"
    using Add_new_handlers [of w1 ?p ?h epoll m] h1 add by simp
  have c2: "coherent w2" "counters_ok (Suc n) w2"
    using Add_invariants [OF d c1 n1, of m ?p] add n by simp_all
  have other: "\<exists>h. handlers ?w p = Some h \<and> event_manager h = Some m \<and> handler_socket h = client_socket s"
      "p \<noteq> ?p" if "(p, s) \<in> set (transport_sockets cs)" for p s
    using inv that coherent_alive [OF c(1), of p] by (auto simp: clients_inv_def)
  show ?thesis
  proof (cases r)
    case (Inl err)
    have "handlers w2 ?p = Some ?h" using h1 h2 Inl by simp
    note gone = destroy_effect(1) [OF c2(1) this, of epoll]
    have "handlers (EventHandler_destroy epoll ?p w2) p = handlers ?w p" if "p \<noteq> ?p" for p
      unfolding gone using h1 h2 Inl that by simp
    then show ?thesis
      using destroy_invariants [OF d c2(1), of ?p "Suc n"] c2(2) inv other w1 add Inl
      by (auto simp: ClientListenSocket_Call_def ClientRepository_Add_def clients_inv_def)
  next
    case (Inr k)
    have "?p \<notin> fst ` set (transport_sockets cs)" using other(2) by force
    then show ?thesis
      using c2 inv other w1 add Inr h1 h2
      by (auto simp: ClientListenSocket_Call_def ClientRepository_Add_def clients_inv_def ClientSenderSocket_new_def)
  qed
qed

lemma set_client_keys: "map fst (set_client p s socks) = map fst socks"
  by (induction socks) auto

lemma set_client_members:
  "distinct (map fst socks) \<Longrightarrow> (q, t) \<in> set (set_client p s socks) \<Longrightarrow>
   (if q = p then t = s \<and> p \<in> fst ` set socks else (q, t) \<in> set socks)"
  by (induction socks) (force split: if_splits)+

lemma client_called_inv:
  assumes inv: "clients_inv m n cs"
    and called: "client_called p received device_info nl write_ok cs = Inr (packets, cs')"
  shows "clients_inv m n cs'"
proof (cases "map_of (transport_sockets cs) p")
  case None
  then show ?thesis using assms by (simp add: client_called_def)
next
  case (Some s)
  have d: "distinct (map fst (transport_sockets cs))" using inv by (simp add: clients_inv_def)
  obtain s' notify where s': "ClientSenderSocket_Call received device_info nl s = Inr (s', packets, notify)"
      "transport_sockets cs' = set_client p s' (transport_sockets cs)" "event_world cs' = event_world cs"
    using called Some by (auto simp: client_called_def)
  have "client_socket s' = client_socket s"
    using s'(1) by (auto simp: ClientSenderSocket_Call_def split: option.splits if_splits)
  moreover have "(p, s) \<in> set (transport_sockets cs)" using Some by (rule map_of_SomeD)
  ultimately show ?thesis
    using inv set_client_members [OF d, of _ _ p s'] s'
    by (fastforce simp: clients_inv_def set_client_keys split: if_splits)
qed

lemma destroy_all:
  assumes "documented epoll"
  shows "coherent w \<Longrightarrow> counters_ok n w \<Longrightarrow>
   coherent (fold (EventHandler_destroy epoll) ps w) \<and> counters_ok n (fold (EventHandler_destroy epoll) ps w) \<and>
   handlers (fold (EventHandler_destroy epoll) ps w) = (\<lambda>q. if q \<in> set ps then None else handlers w q)"
proof (induction ps arbitrary: w)
  case (Cons p ps)
  have "handlers (EventHandler_destroy epoll p w) = (handlers w)(p := None)"
  proof (cases "handlers w p")
    case None
    then show ?thesis by (auto simp: EventHandler_destroy_def fun_eq_iff)
  qed (rule destroy_effect(1) [OF Cons.prems(1)])
  then show ?case
    using Cons.IH [of "EventHandler_destroy epoll p w"] destroy_invariants [OF assms Cons.prems(1), of p n] Cons.prems(2)
    by (auto simp: fun_eq_iff)
qed simp

lemma repository_called_inv:
  assumes d: "documented epoll" and inv: "clients_inv m n cs"
  shows "clients_inv m n (ClientRepository_Call epoll read_ok cs)"
proof -
  have dist: "distinct (map fst (transport_sockets cs))" using inv by (simp add: clients_inv_def)
  have "p \<notin> fst ` (set (transport_sockets cs) \<inter> {(p, s). eof_received s})"
    if "(p, s) \<in> set (transport_sockets cs)" "\<not> eof_received s" for p s
    using that dist by (auto dest: eq_key_imp_eq_value)
  then show ?thesis
    using inv destroy_all [OF d, of "event_world cs" n]
    by (auto simp: ClientRepository_Call_filter clients_inv_def distinct_map_filter)
qed

lemma client_run_inv:
  "documented epoll \<Longrightarrow> clients_inv m n cs \<Longrightarrow> n + length es + 2 < 2 ^ 64 \<Longrightarrow>
   client_run epoll m es cs = Inr cs' \<Longrightarrow> clients_inv m (n + length es) cs'"
proof (induction es arbitrary: cs n)
  case (Cons e es)
  have mono: "clients_inv m n c \<Longrightarrow> clients_inv m (Suc n) c" for c
    using counters_ok_mono [of n _ "Suc n"] by (simp add: clients_inv_def)
  obtain c1 where c1: "client_step epoll m e cs = Inr c1" "client_run epoll m es c1 = Inr cs'"
    using Cons.prems(4) by auto
  have "clients_inv m (Suc n) c1"
  proof (cases e)
    case (Client_connects accepted)
    then show ?thesis
      using c1(1) mono [OF Cons.prems(2)] connect_inv [OF Cons.prems(1,2)] Cons.prems(3)
      by (cases accepted) (auto simp: ClientListenSocket_Call_def split: if_splits)
  next
    case (Client_ready p received device_info nl write_ok)
    then show ?thesis using c1(1) mono client_called_inv [OF Cons.prems(2)] by auto
  next
    case (Repository_ready read_ok)
    then show ?thesis using c1(1) mono [OF repository_called_inv [OF Cons.prems(1,2)]] by auto
  qed
  then show ?case using Cons.IH [of "Suc n" c1] c1(2) Cons.prems(1,3) by simp
qed simp

subsection \<open>Properties\<close>

text \<open>C31: Whatever other handlers exist, in every history of clients connecting, sending requests and
  disconnecting, when the repository is called it keeps exactly the clients whose connection has
  not ended, in order, each alive, registered and watched under its handle; the others are
  destroyed and their descriptors are watched no more.\<close>
theorem disconnected_clients_are_dropped:
  assumes "documented epoll" and "total_actions history + length es + 2 < 2 ^ 64"
    and "client_run epoll m es \<lparr>transport_sockets = [], event_counter = 0,
           event_world = fold (world_step epoll) history world_new\<rparr> = Inr cs"
  shows "let cs' = ClientRepository_Call epoll read_ok cs; w = event_world cs' in
    transport_sockets cs' = filter (\<lambda>(p, s). \<not> eof_received s) (transport_sockets cs) \<and>
    (\<forall>(p, s) \<in> set (transport_sockets cs).
       if eof_received s
       then handlers w p = None \<and> (\<forall>i. epoll_interest (managers w i) (client_socket s) = None)
       else \<exists>h. handlers w p = Some h \<and> event_manager h = Some m \<and> handler_socket h = client_socket s \<and>
         epoll_interest (managers w m) (client_socket s) = Some (handle h))"
proof -
  let ?w = "fold (world_step epoll) history world_new" and ?cs = "ClientRepository_Call epoll read_ok cs"
  have "coherent ?w \<and> counters_ok (total_actions history) ?w"
    using world_run_invariants [OF assms(1) world_new_invariants] assms(2) by simp
  then have "clients_inv m (total_actions history) \<lparr>transport_sockets = [], event_counter = 0, event_world = ?w\<rparr>"
    by (simp add: clients_inv_def)
  from client_run_inv [OF assms(1) this assms(2,3)]
  have inv: "clients_inv m (total_actions history + length es) cs" .
  then have c: "coherent (event_world cs)" and dist: "distinct (map fst (transport_sockets cs))"
    by (simp_all add: clients_inv_def)
  have inv': "clients_inv m (total_actions history + length es) ?cs" by (rule repository_called_inv [OF assms(1) inv])
  then have c': "coherent (event_world ?cs)" by (simp add: clients_inv_def)
  have hs: "handlers (event_world ?cs) = (\<lambda>q. if q \<in> fst ` {x \<in> set (transport_sockets cs). eof_received (snd x)}
      then None else handlers (event_world cs) q)"
    using destroy_all [OF assms(1) c, of "total_actions history + length es"] inv
    by (simp add: ClientRepository_Call_filter clients_inv_def case_prod_beta)
  have kept: "transport_sockets ?cs = filter (\<lambda>(p, s). \<not> eof_received s) (transport_sockets cs)"
    by (simp add: ClientRepository_Call_filter)
  have gone: "handlers (event_world ?cs) p = None \<and>
      (\<forall>i. epoll_interest (managers (event_world ?cs) i) (client_socket s) = None)"
    if ps: "(p, s) \<in> set (transport_sockets cs)" and eof: "eof_received s" for p s
  proof -
    obtain h where h: "handlers (event_world cs) p = Some h" "handler_socket h = client_socket s"
      using inv ps by (auto simp: clients_inv_def)
    have dead: "handlers (event_world ?cs) p = None" using ps eof by (force simp: hs)
    have "q = p" if "handlers (event_world ?cs) q = Some g" "handler_socket g = client_socket s" for q g
      using that coherent_socket [OF c _ h(1)] h(2) by (auto simp: hs split: if_splits)
    then show ?thesis using dead by (auto intro!: unregistered_not_watched [OF c'])
  qed
  have stays: "\<exists>h. handlers (event_world ?cs) p = Some h \<and> event_manager h = Some m \<and>
      handler_socket h = client_socket s \<and> epoll_interest (managers (event_world ?cs) m) (client_socket s) = Some (handle h)"
    if "(p, s) \<in> set (transport_sockets cs)" and "\<not> eof_received s" for p s
  proof -
    have "(p, s) \<in> set (transport_sockets ?cs)" using that by (simp add: kept)
    then obtain h where "handlers (event_world ?cs) p = Some h" "event_manager h = Some m" "handler_socket h = client_socket s"
      using inv' by (auto simp: clients_inv_def)
    then show ?thesis using registered_is_called [OF c', of p h m] by auto
  qed
  show ?thesis using kept gone stays by (auto simp: Let_def)
qed

text \<open>Two clients, the first of which leaves.\<close>

theorem disconnected_clients_are_dropped_witness:
  "\<exists>cs. client_run example_epoll 0 [Client_connects (Some 5), Client_connects (Some 6), Client_ready 0 (Some []) [] [] True]
       \<lparr>transport_sockets = [], event_counter = 0, event_world = world_new\<rparr> = Inr cs \<and>
     event_counter cs = 1 \<and>
     (let cs' = ClientRepository_Call example_epoll True cs in
        transport_sockets cs' = [(1, \<lparr>client_socket = 6, eof_received = False\<rparr>)] \<and>
        handlers (event_world cs') 0 = None \<and>
        (\<exists>h. handlers (event_world cs') 1 = Some h \<and> epoll_interest (managers (event_world cs') 0) 6 = Some (handle h)))"
proof -
  let ?es = "[Client_connects (Some 5), Client_connects (Some 6), Client_ready 0 (Some []) [] [] True]"
  let ?r = "client_run example_epoll 0 ?es \<lparr>transport_sockets = [], event_counter = 0, event_world = world_new\<rparr>"
  have "(case ?r of Inl _ \<Rightarrow> False | Inr cs \<Rightarrow> event_counter cs = 1 \<and> transport_sockets cs =
      [(0, \<lparr>client_socket = 5, eof_received = True\<rparr>), (1, \<lparr>client_socket = 6, eof_received = False\<rparr>)])"
    by code_simp
  then obtain cs where cs: "?r = Inr cs" "event_counter cs = 1"
      "transport_sockets cs = [(0, \<lparr>client_socket = 5, eof_received = True\<rparr>), (1, \<lparr>client_socket = 6, eof_received = False\<rparr>)]"
    by (cases ?r) auto
  have r: "client_run example_epoll 0 ?es \<lparr>transport_sockets = [], event_counter = 0,
      event_world = fold (world_step example_epoll) [] world_new\<rparr> = Inr cs" using cs(1) by simp
  have small: "total_actions [] + length ?es + 2 < 2 ^ 64" by simp
  show ?thesis
    using disconnected_clients_are_dropped [OF documented_example_epoll small r, of True] cs
    by (auto simp: Let_def)
qed

end
