(* ===== verification/Callback_Binding.thy ===== *)
theory Callback_Binding
  imports Lldp_Repository
begin


section \<open>The callbacks between sockets, readers and repositories\<close>

text \<open>
  Sockets, readers and repositories call each other through closures that capture \<open>this\<close>.  The
  constructors, moves, assignments and destructors of \<open>device_reader.hh\<close>, \<open>ip_reader.hh\<close>,
  \<open>device_repository.hh\<close> and \<open>lldp_repository.hh\<close> bind them to the object that now owns the
  callee and clear them; here they are operations on a world of objects at addresses, where a
  closure is the address it captured.  What the callbacks do is in the theories of the components.
\<close>

datatype reader_id = Device_reader_at nat | Ip_reader_at nat

fun same_class :: "reader_id \<Rightarrow> reader_id \<Rightarrow> bool" where
  "same_class (Device_reader_at _) (Device_reader_at _) \<longleftrightarrow> True"
| "same_class (Ip_reader_at _) (Ip_reader_at _) \<longleftrightarrow> True"
| "same_class _ _ \<longleftrightarrow> False"

text \<open>A netlink socket calls the object whose closure it holds.\<close>

datatype packet_target = Reader_target reader_id | Repository_target nat

text \<open>
  Both reader classes have the same members; their three callbacks are held by the repository
  that owns them.  A socket, which is shared, is named by its address; it lives while an object
  holds it.
\<close>

record reader_object =
  ro_socket :: "nat option"
  ro_sequence_number :: "u32 option"
  ro_timeout :: int
  ro_update_target :: "nat option"
  ro_end_target :: "nat option"
  ro_errored_target :: "nat option"

record repository_object =
  po_sync_timeout :: int
  po_monitor :: "nat option"
  po_device_reader :: "nat option"
  po_ip_reader :: "nat option"
  po_devices :: devices
  po_sync_target :: "nat option"
  po_verbose :: bool

record lldp_object =
  lo_socket :: int
  lo_current_state :: senders
  lo_repository :: "nat option"

record binding_world =
  socket_callback :: "nat \<rightharpoonup> packet_target"
  reader_at :: "reader_id \<rightharpoonup> reader_object"
  repository_at :: "nat \<rightharpoonup> repository_object"
  lldp_at :: "nat \<rightharpoonup> lldp_object"
  closed_sockets :: "int list"

subsection \<open>Sockets\<close>

definition SetCallback :: "packet_target \<Rightarrow> nat \<Rightarrow> binding_world \<Rightarrow> binding_world" where
  "SetCallback t s w = w\<lparr>socket_callback := (socket_callback w)(s \<mapsto> t)\<rparr>"

definition ClearCallback :: "nat \<Rightarrow> binding_world \<Rightarrow> binding_world" where
  "ClearCallback s w = w\<lparr>socket_callback := (socket_callback w)(s := None)\<rparr>"

text \<open>\<open>if (p != nullptr)\<close> an operation on what \<open>p\<close> points to.\<close>

definition if_set :: "'a option \<Rightarrow> ('a \<Rightarrow> 'w \<Rightarrow> 'w) \<Rightarrow> 'w \<Rightarrow> 'w" where
  "if_set p f w = (case p of None \<Rightarrow> w | Some x \<Rightarrow> f x w)"

subsection \<open>Readers\<close>

definition reader_socket_of :: "binding_world \<Rightarrow> reader_id \<Rightarrow> nat option" where
  "reader_socket_of w r = Option.bind (reader_at w r) ro_socket"

definition BindReaderSocketCallback :: "reader_id \<Rightarrow> binding_world \<Rightarrow> binding_world" where
  "BindReaderSocketCallback r w = if_set (reader_socket_of w r) (SetCallback (Reader_target r)) w"

definition Reader_construct :: "reader_id \<Rightarrow> nat option \<Rightarrow> binding_world \<Rightarrow> binding_world" where
  "Reader_construct r sock w = BindReaderSocketCallback r
     (w\<lparr>reader_at := (reader_at w)(r \<mapsto>
        \<lparr>ro_socket = sock, ro_sequence_number = None, ro_timeout = - 1,
         ro_update_target = None, ro_end_target = None, ro_errored_target = None\<rparr>)\<rparr>)"

text \<open>The members of a reader after they have been moved out and reset.\<close>

definition reader_moved_out :: reader_object where
  "reader_moved_out = \<lparr>ro_socket = None, ro_sequence_number = None, ro_timeout = - 1,
     ro_update_target = None, ro_end_target = None, ro_errored_target = None\<rparr>"

definition move_reader_members :: "reader_id \<Rightarrow> reader_id \<Rightarrow> binding_world \<Rightarrow> binding_world" where
  "move_reader_members r other w =
     w\<lparr>reader_at := (reader_at w)(r := reader_at w other, other \<mapsto> reader_moved_out)\<rparr>"

definition Reader_move_construct :: "reader_id \<Rightarrow> reader_id \<Rightarrow> binding_world \<Rightarrow> binding_world" where
  "Reader_move_construct r other w = BindReaderSocketCallback r (move_reader_members r other w)"

text \<open>The assignments of the two classes differ: only one binds the socket's callback again.\<close>

definition DeviceReader_move_assign :: "reader_id \<Rightarrow> reader_id \<Rightarrow> binding_world \<Rightarrow> binding_world" where
  "DeviceReader_move_assign r other w = BindReaderSocketCallback r (move_reader_members r other w)"

definition IpReader_move_assign :: "reader_id \<Rightarrow> reader_id \<Rightarrow> binding_world \<Rightarrow> binding_world" where
  "IpReader_move_assign r other w = move_reader_members r other w"

definition Reader_destroy :: "reader_id \<Rightarrow> binding_world \<Rightarrow> binding_world" where
  "Reader_destroy r w =
     (if_set (reader_socket_of w r) ClearCallback w)\<lparr>reader_at := (reader_at w)(r := None)\<rparr>"

subsection \<open>Device repositories\<close>

text \<open>The readers a repository owns, in the order its functions visit them.\<close>

definition readers_of :: "repository_object \<Rightarrow> reader_id list" where
  "readers_of ob = map Device_reader_at (case po_device_reader ob of None \<Rightarrow> [] | Some r \<Rightarrow> [r])
     @ map Ip_reader_at (case po_ip_reader ob of None \<Rightarrow> [] | Some r \<Rightarrow> [r])"

definition set_targets :: "nat option \<Rightarrow> reader_id \<Rightarrow> binding_world \<Rightarrow> binding_world" where
  "set_targets t r w = w\<lparr>reader_at := (reader_at w)(r := map_option (\<lambda>ob. ob
     \<lparr>ro_update_target := t, ro_end_target := t, ro_errored_target := t\<rparr>) (reader_at w r))\<rparr>"

definition BindCallbacks :: "nat \<Rightarrow> binding_world \<Rightarrow> binding_world" where
  "BindCallbacks d w = (case repository_at w d of None \<Rightarrow> w
     | Some ob \<Rightarrow> if_set (po_monitor ob) (SetCallback (Repository_target d))
                   (fold (set_targets (Some d)) (readers_of ob) w))"

definition ClearCallbacks :: "nat \<Rightarrow> binding_world \<Rightarrow> binding_world" where
  "ClearCallbacks d w = (case repository_at w d of None \<Rightarrow> w
     | Some ob \<Rightarrow> if_set (po_monitor ob) ClearCallback (fold (set_targets None) (readers_of ob) w))"

definition put_repository :: "nat \<Rightarrow> repository_object \<Rightarrow> binding_world \<Rightarrow> binding_world" where
  "put_repository d ob w = w\<lparr>repository_at := (repository_at w)(d \<mapsto> ob)\<rparr>"

definition repository_members :: "nat option \<Rightarrow> nat option \<Rightarrow> nat option \<Rightarrow> bool \<Rightarrow> repository_object" where
  "repository_members monitor_socket dr ir verbose =
     \<lparr>po_sync_timeout = - 1, po_monitor = monitor_socket, po_device_reader = dr, po_ip_reader = ir,
      po_devices = [], po_sync_target = None, po_verbose = verbose\<rparr>"

definition DeviceRepository_construct ::
  "nat \<Rightarrow> nat option \<Rightarrow> nat option \<Rightarrow> nat option \<Rightarrow> bool \<Rightarrow> binding_world \<Rightarrow> binding_world" where
  "DeviceRepository_construct d monitor_socket dr ir verbose w =
     BindCallbacks d (put_repository d (repository_members monitor_socket dr ir verbose) w)"

text \<open>The members that stay behind: the pointers and the map are empty, the rest is reset.\<close>

definition repository_moved_out :: "repository_object \<Rightarrow> repository_object" where
  "repository_moved_out ob = ob\<lparr>po_sync_timeout := - 1, po_monitor := None, po_device_reader := None,
     po_ip_reader := None, po_devices := [], po_verbose := False\<rparr>"

definition DeviceRepository_move_construct :: "nat \<Rightarrow> nat \<Rightarrow> binding_world \<Rightarrow> binding_world" where
  "DeviceRepository_move_construct d other w = (case repository_at w other of None \<Rightarrow> w
     | Some ob \<Rightarrow>
        let w = put_repository d (ob\<lparr>po_sync_target := None\<rparr>) w;
            w = put_repository other (ob\<lparr>po_monitor := None, po_device_reader := None,
                  po_ip_reader := None, po_devices := []\<rparr>) w;
            w = ClearCallbacks other w;
            w = put_repository other (repository_moved_out ob) w
        in BindCallbacks d w)"

text \<open>Assigning to the owning pointers destroys the readers they owned.\<close>

definition DeviceRepository_move_assign :: "nat \<Rightarrow> nat \<Rightarrow> binding_world \<Rightarrow> binding_world" where
  "DeviceRepository_move_assign d other w = (case (repository_at w d, repository_at w other) of
       (Some old, Some ob) \<Rightarrow>
        let w = ClearCallbacks d w;
            w = ClearCallbacks other w;
            w = fold Reader_destroy (readers_of old) w;
            w = put_repository d (ob\<lparr>po_sync_target := po_sync_target old\<rparr>) w;
            w = put_repository other (repository_moved_out ob) w
        in BindCallbacks d w
     | _ \<Rightarrow> w)"

text \<open>The members are destroyed after the body of the destructor, in the reverse of their order.\<close>

definition DeviceRepository_destroy :: "nat \<Rightarrow> binding_world \<Rightarrow> binding_world" where
  "DeviceRepository_destroy d w = (case repository_at w d of None \<Rightarrow> w
     | Some ob \<Rightarrow>
        let w = ClearCallbacks d w;
            w = fold Reader_destroy (rev (readers_of ob)) w
        in w\<lparr>repository_at := (repository_at w)(d := None)\<rparr>)"

subsection \<open>LLDP repositories\<close>

definition set_sync_target :: "nat option \<Rightarrow> nat \<Rightarrow> binding_world \<Rightarrow> binding_world" where
  "set_sync_target t d w = w\<lparr>repository_at := (repository_at w)(d := map_option (\<lambda>ob. ob
     \<lparr>po_sync_target := t\<rparr>) (repository_at w d))\<rparr>"

text \<open>\<open>device_repository_->SetSyncCallback\<close>, which does not look whether there is a repository.\<close>

definition SetSyncCallback_this :: "nat \<Rightarrow> binding_world \<Rightarrow> binding_world cpp" where
  "SetSyncCallback_this l w = (case Option.bind (lldp_at w l) lo_repository of
       None \<Rightarrow> Inl Empty_dereference
     | Some d \<Rightarrow> Inr (set_sync_target (Some l) d w))"

definition put_lldp :: "nat \<Rightarrow> lldp_object \<Rightarrow> binding_world \<Rightarrow> binding_world" where
  "put_lldp l ob w = w\<lparr>lldp_at := (lldp_at w)(l \<mapsto> ob)\<rparr>"

definition close_socket :: "int \<Rightarrow> binding_world \<Rightarrow> binding_world" where
  "close_socket n w = (if 0 \<le> n then w\<lparr>closed_sockets := n # closed_sockets w\<rparr> else w)"

definition LldpRepository_construct :: "nat \<Rightarrow> int \<Rightarrow> nat option \<Rightarrow> binding_world \<Rightarrow> binding_world cpp" where
  "LldpRepository_construct l eth repo w = SetSyncCallback_this l
     (put_lldp l \<lparr>lo_socket = eth, lo_current_state = [], lo_repository = repo\<rparr> w)"

text \<open>The move constructor leaves the senders where they are, and so does the assignment.\<close>

definition LldpRepository_move_construct :: "nat \<Rightarrow> nat \<Rightarrow> binding_world \<Rightarrow> binding_world cpp" where
  "LldpRepository_move_construct l other w = (case lldp_at w other of None \<Rightarrow> Inr w
     | Some ob \<Rightarrow> SetSyncCallback_this l
         (put_lldp other (ob\<lparr>lo_socket := - 1, lo_repository := None\<rparr>)
           (put_lldp l (ob\<lparr>lo_current_state := []\<rparr>) w)))"

definition LldpRepository_move_assign :: "nat \<Rightarrow> nat \<Rightarrow> binding_world \<Rightarrow> binding_world cpp" where
  "LldpRepository_move_assign l other w = (case (lldp_at w l, lldp_at w other) of
       (Some old, Some ob) \<Rightarrow>
        let w = close_socket (lo_socket old) w;
            w = put_lldp l (ob\<lparr>lo_current_state := lo_current_state old\<rparr>) w;
            w = put_lldp other (ob\<lparr>lo_socket := - 1, lo_repository := None\<rparr>) w;
            w = if_set (lo_repository old) DeviceRepository_destroy w
        in SetSyncCallback_this l w
     | _ \<Rightarrow> Inr w)"

definition LldpRepository_destroy :: "nat \<Rightarrow> binding_world \<Rightarrow> binding_world" where
  "LldpRepository_destroy l w = (case lldp_at w l of None \<Rightarrow> w
     | Some ob \<Rightarrow>
        let w = if_set (lo_repository ob) (set_sync_target None) w;
            w = if_set (lo_repository ob) DeviceRepository_destroy w;
            w = close_socket (lo_socket ob) w
        in w\<lparr>lldp_at := (lldp_at w)(l := None)\<rparr>)"


subsection \<open>Histories\<close>

text \<open>
  What the program can write.  Members are private: a reader that a repository owns and a
  repository that an LLDP repository owns are reached through their owners only, and a socket is
  handed to one object.
\<close>

definition socket_held :: "binding_world \<Rightarrow> nat \<Rightarrow> bool" where
  "socket_held w s \<longleftrightarrow> (\<exists>r. reader_socket_of w r = Some s)
     \<or> (\<exists>d ob. repository_at w d = Some ob \<and> po_monitor ob = Some s)"

definition reader_held :: "binding_world \<Rightarrow> reader_id \<Rightarrow> bool" where
  "reader_held w r \<longleftrightarrow> (\<exists>d ob. repository_at w d = Some ob \<and> r \<in> set (readers_of ob))"

definition repository_held :: "binding_world \<Rightarrow> nat \<Rightarrow> bool" where
  "repository_held w d \<longleftrightarrow> (\<exists>l ob. lldp_at w l = Some ob \<and> lo_repository ob = Some d)"

definition free_reader :: "binding_world \<Rightarrow> reader_id \<Rightarrow> bool" where
  "free_reader w r \<longleftrightarrow> reader_at w r \<noteq> None \<and> \<not> reader_held w r"

definition free_repository :: "binding_world \<Rightarrow> nat \<Rightarrow> bool" where
  "free_repository w d \<longleftrightarrow> repository_at w d \<noteq> None \<and> \<not> repository_held w d"

inductive binding_step :: "binding_world \<Rightarrow> binding_world \<Rightarrow> bool" where
  new_reader: "reader_at w r = None \<Longrightarrow> \<not> socket_held w s \<Longrightarrow>
     binding_step w (Reader_construct r (Some s) w)"
| move_reader: "reader_at w r = None \<Longrightarrow> free_reader w other \<Longrightarrow> same_class r other \<Longrightarrow>
     binding_step w (Reader_move_construct r other w)"
| assign_device_reader: "free_reader w (Device_reader_at r) \<Longrightarrow> free_reader w (Device_reader_at other) \<Longrightarrow>
     r \<noteq> other \<Longrightarrow> binding_step w (DeviceReader_move_assign (Device_reader_at r) (Device_reader_at other) w)"
| assign_ip_reader: "free_reader w (Ip_reader_at r) \<Longrightarrow> free_reader w (Ip_reader_at other) \<Longrightarrow>
     r \<noteq> other \<Longrightarrow> reader_socket_of w (Ip_reader_at other) = None \<Longrightarrow>
     binding_step w (IpReader_move_assign (Ip_reader_at r) (Ip_reader_at other) w)"
| destroy_reader: "free_reader w r \<Longrightarrow> binding_step w (Reader_destroy r w)"
| new_repository: "repository_at w d = None \<Longrightarrow> \<not> socket_held w s \<Longrightarrow>
     free_reader w (Device_reader_at dr) \<Longrightarrow> free_reader w (Ip_reader_at ir) \<Longrightarrow>
     binding_step w (DeviceRepository_construct d (Some s) (Some dr) (Some ir) verbose w)"
| move_repository: "repository_at w d = None \<Longrightarrow> free_repository w other \<Longrightarrow>
     binding_step w (DeviceRepository_move_construct d other w)"
| assign_repository: "free_repository w d \<Longrightarrow> free_repository w other \<Longrightarrow> d \<noteq> other \<Longrightarrow>
     binding_step w (DeviceRepository_move_assign d other w)"
| destroy_repository: "free_repository w d \<Longrightarrow> binding_step w (DeviceRepository_destroy d w)"
| new_lldp: "lldp_at w l = None \<Longrightarrow> free_repository w d \<Longrightarrow>
     LldpRepository_construct l eth (Some d) w = Inr w' \<Longrightarrow> binding_step w w'"
| move_lldp: "lldp_at w l = None \<Longrightarrow> lldp_at w other \<noteq> None \<Longrightarrow>
     LldpRepository_move_construct l other w = Inr w' \<Longrightarrow> binding_step w w'"
| assign_lldp: "lldp_at w l \<noteq> None \<Longrightarrow> lldp_at w other \<noteq> None \<Longrightarrow> l \<noteq> other \<Longrightarrow>
     LldpRepository_move_assign l other w = Inr w' \<Longrightarrow> binding_step w w'"
| destroy_lldp: "lldp_at w l \<noteq> None \<Longrightarrow> binding_step w (LldpRepository_destroy l w)"

definition no_objects :: binding_world where
  "no_objects = \<lparr>socket_callback = Map.empty, reader_at = Map.empty, repository_at = Map.empty,
     lldp_at = Map.empty, closed_sockets = []\<rparr>"

definition binding_reachable :: "binding_world \<Rightarrow> bool" where
  "binding_reachable w \<longleftrightarrow> binding_step\<^sup>*\<^sup>* no_objects w"

subsection \<open>A datagram's way\<close>

datatype object_id = Reader_object reader_id | Repository_object nat | Lldp_object nat

text \<open>
  The objects whose members run when a socket has a message: the socket's closure, then that of
  what it calls.  A closure over an object that does not live any more is undefined behaviour.
\<close>

definition called_from_repository :: "binding_world \<Rightarrow> nat \<Rightarrow> object_id list cpp" where
  "called_from_repository w d = (case repository_at w d of None \<Rightarrow> Inl Use_after_free
     | Some ob \<Rightarrow> (case po_sync_target ob of None \<Rightarrow> Inr [Repository_object d]
        | Some l \<Rightarrow> (case lldp_at w l of None \<Rightarrow> Inl Use_after_free
            | Some _ \<Rightarrow> Inr [Repository_object d, Lldp_object l])))"

definition called_from_reader ::
  "(reader_object \<Rightarrow> nat option) \<Rightarrow> binding_world \<Rightarrow> reader_id \<Rightarrow> object_id list cpp" where
  "called_from_reader target w r = (case reader_at w r of None \<Rightarrow> Inl Use_after_free
     | Some ob \<Rightarrow> (case target ob of None \<Rightarrow> Inr [Reader_object r]
        | Some d \<Rightarrow> bind_cpp (called_from_repository w d) (\<lambda>os. Inr (Reader_object r # os))))"

definition called_from_socket ::
  "(reader_object \<Rightarrow> nat option) \<Rightarrow> binding_world \<Rightarrow> nat \<Rightarrow> object_id list cpp" where
  "called_from_socket target w s = (case socket_callback w s of None \<Rightarrow> Inr []
     | Some (Reader_target r) \<Rightarrow> called_from_reader target w r
     | Some (Repository_target d) \<Rightarrow> called_from_repository w d)"

text \<open>The owners of a socket, each with its own: the chain the callbacks should follow.\<close>

inductive owned_by :: "binding_world \<Rightarrow> object_id \<Rightarrow> object_id \<Rightarrow> bool" for w where
  "repository_at w d = Some ob \<Longrightarrow> r \<in> set (readers_of ob) \<Longrightarrow>
     owned_by w (Reader_object r) (Repository_object d)"
| "lldp_at w l = Some ob \<Longrightarrow> lo_repository ob = Some d \<Longrightarrow>
     owned_by w (Repository_object d) (Lldp_object l)"

fun holds_socket :: "binding_world \<Rightarrow> object_id \<Rightarrow> nat \<Rightarrow> bool" where
  "holds_socket w (Reader_object r) s \<longleftrightarrow> reader_socket_of w r = Some s"
| "holds_socket w (Repository_object d) s \<longleftrightarrow> (\<exists>ob. repository_at w d = Some ob \<and> po_monitor ob = Some s)"
| "holds_socket w (Lldp_object l) s \<longleftrightarrow> False"


subsection \<open>What the operations leave behind\<close>

lemma if_set_simps [simp]: "if_set None f w = w" "if_set (Some x) f w = f x w"
  by (simp_all add: if_set_def)

lemma readers_of_cong:
  "po_device_reader a = po_device_reader b \<Longrightarrow> po_ip_reader a = po_ip_reader b \<Longrightarrow> readers_of a = readers_of b"
  by (simp add: readers_of_def)

lemma readers_of_none [simp]: "po_device_reader ob = None \<Longrightarrow> po_ip_reader ob = None \<Longrightarrow> readers_of ob = []"
  by (simp add: readers_of_def)

lemma readers_of_sync [simp]: "readers_of (ob\<lparr>po_sync_target := t\<rparr>) = readers_of ob"
  by (simp add: readers_of_def)

abbreviation targets_set :: "nat option \<Rightarrow> reader_object \<Rightarrow> reader_object" where
  "targets_set t ob \<equiv> ob\<lparr>ro_update_target := t, ro_end_target := t, ro_errored_target := t\<rparr>"

lemma fold_set_targets:
  "reader_at (fold (set_targets t) rs w) r
     = (if r \<in> set rs then map_option (targets_set t) (reader_at w r) else reader_at w r)"
  "socket_callback (fold (set_targets t) rs w) = socket_callback w"
  "repository_at (fold (set_targets t) rs w) = repository_at w"
  "lldp_at (fold (set_targets t) rs w) = lldp_at w"
  by (induction rs arbitrary: w) (auto simp: set_targets_def option.map_comp comp_def)

lemma Reader_destroy_parts:
  "reader_at (Reader_destroy r w) q = (if q = r then None else reader_at w q)"
  "socket_callback (Reader_destroy r w) s
     = (if reader_socket_of w r = Some s then None else socket_callback w s)"
  "repository_at (Reader_destroy r w) = repository_at w"
  "lldp_at (Reader_destroy r w) = lldp_at w"
  by (cases "reader_socket_of w r"; simp add: Reader_destroy_def ClearCallback_def)+

lemma fold_Reader_destroy:
  "reader_at (fold Reader_destroy rs w) q = (if q \<in> set rs then None else reader_at w q)"
  "socket_callback (fold Reader_destroy rs w) s
     = (if \<exists>r\<in>set rs. reader_socket_of w r = Some s then None else socket_callback w s)"
  "repository_at (fold Reader_destroy rs w) = repository_at w"
  "lldp_at (fold Reader_destroy rs w) = lldp_at w"
  by (induction rs arbitrary: w)
    (auto simp: Reader_destroy_parts reader_socket_of_def split: if_splits)

lemma BindCallbacks_parts:
  assumes "repository_at w d = Some ob"
  shows "reader_at (BindCallbacks d w) r
     = (if r \<in> set (readers_of ob) then map_option (targets_set (Some d)) (reader_at w r) else reader_at w r)"
  "socket_callback (BindCallbacks d w) s
     = (if po_monitor ob = Some s then Some (Repository_target d) else socket_callback w s)"
  "repository_at (BindCallbacks d w) = repository_at w"
  "lldp_at (BindCallbacks d w) = lldp_at w"
  using assms by (cases "po_monitor ob"; simp add: BindCallbacks_def SetCallback_def fold_set_targets)+

lemma ClearCallbacks_parts:
  assumes "repository_at w d = Some ob"
  shows "reader_at (ClearCallbacks d w) r
     = (if r \<in> set (readers_of ob) then map_option (targets_set None) (reader_at w r) else reader_at w r)"
  "socket_callback (ClearCallbacks d w) s
     = (if po_monitor ob = Some s then None else socket_callback w s)"
  "repository_at (ClearCallbacks d w) = repository_at w"
  "lldp_at (ClearCallbacks d w) = lldp_at w"
  using assms by (cases "po_monitor ob"; simp add: ClearCallbacks_def ClearCallback_def fold_set_targets)+

lemma BindReader_parts:
  "socket_callback (BindReaderSocketCallback r w) s
     = (if reader_socket_of w r = Some s then Some (Reader_target r) else socket_callback w s)"
  "reader_at (BindReaderSocketCallback r w) = reader_at w"
  "repository_at (BindReaderSocketCallback r w) = repository_at w"
  "lldp_at (BindReaderSocketCallback r w) = lldp_at w"
  by (cases "reader_socket_of w r"; simp add: BindReaderSocketCallback_def SetCallback_def)+

subsection \<open>The invariant\<close>

definition sockets_bound :: "binding_world \<Rightarrow> bool" where
  "sockets_bound w \<longleftrightarrow>
     (\<forall>r s. reader_socket_of w r = Some s \<longrightarrow> socket_callback w s = Some (Reader_target r)) \<and>
     (\<forall>d ob s. repository_at w d = Some ob \<longrightarrow> po_monitor ob = Some s \<longrightarrow>
        socket_callback w s = Some (Repository_target d))"

text \<open>The three callbacks of a reader capture its owner, or are unset.\<close>

definition targets_are :: "nat option \<Rightarrow> reader_object \<Rightarrow> bool" where
  "targets_are t ob \<longleftrightarrow> ro_update_target ob = t \<and> ro_end_target ob = t \<and> ro_errored_target ob = t"

definition readers_bound :: "binding_world \<Rightarrow> bool" where
  "readers_bound w \<longleftrightarrow>
     (\<forall>d ob r. repository_at w d = Some ob \<longrightarrow> r \<in> set (readers_of ob) \<longrightarrow>
        (\<exists>rob. reader_at w r = Some rob \<and> targets_are (Some d) rob)) \<and>
     (\<forall>r rob. reader_at w r = Some rob \<longrightarrow> \<not> reader_held w r \<longrightarrow> targets_are None rob)"

definition repositories_bound :: "binding_world \<Rightarrow> bool" where
  "repositories_bound w \<longleftrightarrow>
     (\<forall>l ob d. lldp_at w l = Some ob \<longrightarrow> lo_repository ob = Some d \<longrightarrow>
        (\<exists>dob. repository_at w d = Some dob \<and> po_sync_target dob = Some l)) \<and>
     (\<forall>d dob. repository_at w d = Some dob \<longrightarrow> \<not> repository_held w d \<longrightarrow> po_sync_target dob = None)"

definition bound :: "binding_world \<Rightarrow> bool" where
  "bound w \<longleftrightarrow> sockets_bound w \<and> readers_bound w \<and> repositories_bound w"

lemma sockets_boundI [intro?]:
  assumes "\<And>r s. reader_socket_of w r = Some s \<Longrightarrow> socket_callback w s = Some (Reader_target r)"
    and "\<And>d ob s. repository_at w d = Some ob \<Longrightarrow> po_monitor ob = Some s \<Longrightarrow>
      socket_callback w s = Some (Repository_target d)"
  shows "sockets_bound w"
  using assms by (simp add: sockets_bound_def)

lemma sockets_boundD:
  assumes "sockets_bound w"
  shows "reader_socket_of w r = Some s \<Longrightarrow> socket_callback w s = Some (Reader_target r)"
    and "repository_at w d = Some ob \<Longrightarrow> po_monitor ob = Some s \<Longrightarrow> socket_callback w s = Some (Repository_target d)"
  using assms unfolding sockets_bound_def by blast+

lemma readers_boundI [intro?]:
  assumes "\<And>d ob r. repository_at w d = Some ob \<Longrightarrow> r \<in> set (readers_of ob) \<Longrightarrow>
      \<exists>rob. reader_at w r = Some rob \<and> targets_are (Some d) rob"
    and "\<And>r rob. reader_at w r = Some rob \<Longrightarrow> \<not> reader_held w r \<Longrightarrow> targets_are None rob"
  shows "readers_bound w"
  using assms by (simp add: readers_bound_def)

lemma readers_boundD:
  assumes "readers_bound w"
  shows "repository_at w d = Some ob \<Longrightarrow> r \<in> set (readers_of ob) \<Longrightarrow>
      \<exists>rob. reader_at w r = Some rob \<and> targets_are (Some d) rob"
    and "reader_at w r = Some rob \<Longrightarrow> \<not> reader_held w r \<Longrightarrow> targets_are None rob"
  using assms unfolding readers_bound_def by blast+

lemma repositories_boundI [intro?]:
  assumes "\<And>l ob d. lldp_at w l = Some ob \<Longrightarrow> lo_repository ob = Some d \<Longrightarrow>
      \<exists>dob. repository_at w d = Some dob \<and> po_sync_target dob = Some l"
    and "\<And>d dob. repository_at w d = Some dob \<Longrightarrow> \<not> repository_held w d \<Longrightarrow> po_sync_target dob = None"
  shows "repositories_bound w"
  using assms by (simp add: repositories_bound_def)

lemma repositories_boundD:
  assumes "repositories_bound w"
  shows "lldp_at w l = Some ob \<Longrightarrow> lo_repository ob = Some d \<Longrightarrow>
      \<exists>dob. repository_at w d = Some dob \<and> po_sync_target dob = Some l"
    and "repository_at w d = Some dob \<Longrightarrow> \<not> repository_held w d \<Longrightarrow> po_sync_target dob = None"
  using assms unfolding repositories_bound_def by blast+

text \<open>A reader has one owner, and so has a repository.\<close>

lemma one_repository:
  "readers_bound w \<Longrightarrow> repository_at w d = Some a \<Longrightarrow> repository_at w e = Some b \<Longrightarrow>
   r \<in> set (readers_of a) \<Longrightarrow> r \<in> set (readers_of b) \<Longrightarrow> d = e"
  using readers_boundD(1) [of w d a r] readers_boundD(1) [of w e b r] by (auto simp: targets_are_def)

lemma one_lldp:
  "repositories_bound w \<Longrightarrow> lldp_at w l = Some a \<Longrightarrow> lldp_at w k = Some b \<Longrightarrow>
   lo_repository a = Some d \<Longrightarrow> lo_repository b = Some d \<Longrightarrow> l = k"
  using repositories_boundD(1) [of w l a d] repositories_boundD(1) [of w k b d] by auto


subsection \<open>Readers keep the invariant\<close>

lemma reader_held_cong:
  "repository_at v = repository_at w \<Longrightarrow> reader_held v r \<longleftrightarrow> reader_held w r"
  by (simp add: reader_held_def)

lemma repositories_bound_cong:
  "repository_at v = repository_at w \<Longrightarrow> lldp_at v = lldp_at w \<Longrightarrow>
   repositories_bound v \<longleftrightarrow> repositories_bound w"
  by (simp add: repositories_bound_def repository_held_def)

lemma unknown_reader_not_held: "readers_bound w \<Longrightarrow> reader_at w r = None \<Longrightarrow> \<not> reader_held w r"
  using readers_boundD(1) [of w _ _ r] by (auto simp: reader_held_def)

lemma Reader_construct_parts:
  "socket_callback (Reader_construct r (Some s) w) = (socket_callback w)(s \<mapsto> Reader_target r)"
  "reader_at (Reader_construct r (Some s) w) = (reader_at w)(r \<mapsto> reader_moved_out\<lparr>ro_socket := Some s\<rparr>)"
  "repository_at (Reader_construct r (Some s) w) = repository_at w"
  "lldp_at (Reader_construct r (Some s) w) = lldp_at w"
  by (auto simp: Reader_construct_def BindReader_parts reader_socket_of_def reader_moved_out_def fun_eq_iff)

lemma bound_Reader_construct [inv_intros]:
  assumes "bound w" "reader_at w r = None" "\<not> socket_held w s"
  shows "bound (Reader_construct r (Some s) w)"
proof -
  from assms(1) have b: "sockets_bound w" "readers_bound w" "repositories_bound w"
    by (simp_all add: bound_def)
  have "sockets_bound (Reader_construct r (Some s) w)"
    using sockets_boundD [OF b(1)] assms(3)
    by (intro sockets_boundI)
      (auto simp: Reader_construct_parts reader_socket_of_def socket_held_def reader_moved_out_def split: if_splits)
  moreover have "readers_bound (Reader_construct r (Some s) w)"
  proof (rule readers_boundI)
    fix d ob q
    assume "repository_at (Reader_construct r (Some s) w) d = Some ob" "q \<in> set (readers_of ob)"
    then show "\<exists>rob. reader_at (Reader_construct r (Some s) w) q = Some rob \<and> targets_are (Some d) rob"
      using readers_boundD(1) [OF b(2), of d ob q] assms(2) by (auto simp: Reader_construct_parts)
  next
    fix q rob
    assume "reader_at (Reader_construct r (Some s) w) q = Some rob"
      "\<not> reader_held (Reader_construct r (Some s) w) q"
    then show "targets_are None rob"
      using readers_boundD(2) [OF b(2), of q rob]
      by (auto simp: Reader_construct_parts reader_held_cong [OF Reader_construct_parts(3)]
          targets_are_def reader_moved_out_def split: if_splits)
  qed
  ultimately show ?thesis
    using b(3) by (simp add: bound_def repositories_bound_cong [OF Reader_construct_parts(3,4)])
qed

lemma move_reader_parts:
  "reader_at (move_reader_members r other w) = (reader_at w)(r := reader_at w other, other \<mapsto> reader_moved_out)"
  "socket_callback (move_reader_members r other w) = socket_callback w"
  "repository_at (move_reader_members r other w) = repository_at w"
  "lldp_at (move_reader_members r other w) = lldp_at w"
  by (simp_all add: move_reader_members_def)

lemma bound_moved_reader:
  assumes "bound w" and r: "\<not> reader_held w r" and other: "free_reader w other" and ne: "r \<noteq> other"
  shows "bound (BindReaderSocketCallback r (move_reader_members r other w))" (is "bound ?v")
proof -
  from assms(1) have b: "sockets_bound w" "readers_bound w" "repositories_bound w"
    by (simp_all add: bound_def)
  have repo: "repository_at ?v = repository_at w" by (simp add: BindReader_parts move_reader_parts)
  have sock: "reader_socket_of (move_reader_members r other w) q
     = (if q = other then None else if q = r then reader_socket_of w other else reader_socket_of w q)" for q
    using ne by (simp add: reader_socket_of_def move_reader_parts reader_moved_out_def)
  have cb: "socket_callback ?v s = (if reader_socket_of w other = Some s then Some (Reader_target r)
       else socket_callback w s)" for s
    using ne by (simp add: BindReader_parts sock move_reader_parts)
  have vsock: "reader_socket_of ?v = reader_socket_of (move_reader_members r other w)"
    by (simp add: reader_socket_of_def BindReader_parts fun_eq_iff)
  have "sockets_bound ?v"
  proof (rule sockets_boundI)
    fix q s assume "reader_socket_of ?v q = Some s"
    then show "socket_callback ?v s = Some (Reader_target q)"
      using sockets_boundD(1) [OF b(1), of q s] sockets_boundD(1) [OF b(1), of other s] ne
      by (auto simp: vsock sock cb split: if_splits)
  next
    fix d ob s assume "repository_at ?v d = Some ob" "po_monitor ob = Some s"
    then show "socket_callback ?v s = Some (Repository_target d)"
      using sockets_boundD(2) [OF b(1), of d ob s] sockets_boundD(1) [OF b(1), of other s]
      by (auto simp: repo cb)
  qed
  moreover have "readers_bound ?v"
  proof (rule readers_boundI)
    fix d ob q
    assume "repository_at ?v d = Some ob" "q \<in> set (readers_of ob)"
    then have "repository_at w d = Some ob" "q \<noteq> r" "q \<noteq> other" 
      using r other repo by (auto simp: reader_held_def free_reader_def)
    then show "\<exists>rob. reader_at ?v q = Some rob \<and> targets_are (Some d) rob"
      using readers_boundD(1) [OF b(2), of d ob q] \<open>q \<in> set (readers_of ob)\<close>
      by (simp add: BindReader_parts move_reader_parts)
  next
    fix q rob
    assume "reader_at ?v q = Some rob" "\<not> reader_held ?v q"
    then show "targets_are None rob"
      using readers_boundD(2) [OF b(2)] other
      by (auto simp: BindReader_parts move_reader_parts reader_held_cong [OF repo] free_reader_def
          targets_are_def reader_moved_out_def split: if_splits)
  qed
  ultimately show ?thesis
    using b(3) repositories_bound_cong [of ?v w] by (simp add: bound_def BindReader_parts move_reader_parts)
qed

lemma bound_Reader_destroy [inv_intros]:
  assumes "bound w" "free_reader w r"
  shows "bound (Reader_destroy r w)"
proof -
  from assms(1) have b: "sockets_bound w" "readers_bound w" "repositories_bound w"
    by (simp_all add: bound_def)
  have sock: "reader_socket_of (Reader_destroy r w) q = (if q = r then None else reader_socket_of w q)" for q
    by (simp add: reader_socket_of_def Reader_destroy_parts)
  have "sockets_bound (Reader_destroy r w)"
  proof (rule sockets_boundI)
    fix q s assume "reader_socket_of (Reader_destroy r w) q = Some s"
    then show "socket_callback (Reader_destroy r w) s = Some (Reader_target q)"
      using sockets_boundD(1) [OF b(1), of q s] sockets_boundD(1) [OF b(1), of r s]
      by (auto simp: sock Reader_destroy_parts split: if_splits)
  next
    fix d ob s assume "repository_at (Reader_destroy r w) d = Some ob" "po_monitor ob = Some s"
    then show "socket_callback (Reader_destroy r w) s = Some (Repository_target d)"
      using sockets_boundD(2) [OF b(1), of d ob s] sockets_boundD(1) [OF b(1), of r s]
      by (auto simp: Reader_destroy_parts)
  qed
  moreover have "readers_bound (Reader_destroy r w)"
  proof (rule readers_boundI)
    fix d ob q
    assume "repository_at (Reader_destroy r w) d = Some ob" "q \<in> set (readers_of ob)"
    then show "\<exists>rob. reader_at (Reader_destroy r w) q = Some rob \<and> targets_are (Some d) rob"
      using readers_boundD(1) [OF b(2), of d ob q] assms(2)
      by (auto simp: Reader_destroy_parts free_reader_def reader_held_def)
  next
    fix q rob
    assume "reader_at (Reader_destroy r w) q = Some rob" "\<not> reader_held (Reader_destroy r w) q"
    then show "targets_are None rob"
      using readers_boundD(2) [OF b(2), of q rob]
      by (simp add: Reader_destroy_parts reader_held_cong [OF Reader_destroy_parts(3)] split: if_splits)
  qed
  ultimately show ?thesis
    using b(3) by (simp add: bound_def repositories_bound_cong [OF Reader_destroy_parts(3,4)])
qed

subsection \<open>Device repositories keep the invariant\<close>


lemma bound_BindCallbacks:
  assumes d: "repository_at w d = Some ob"
    and S1: "\<And>r s. reader_socket_of w r = Some s \<Longrightarrow>
      socket_callback w s = Some (Reader_target r) \<and> po_monitor ob \<noteq> Some s"
    and S2: "\<And>e eob s. e \<noteq> d \<Longrightarrow> repository_at w e = Some eob \<Longrightarrow> po_monitor eob = Some s \<Longrightarrow>
      socket_callback w s = Some (Repository_target e) \<and> po_monitor ob \<noteq> Some s"
    and R1: "\<And>e eob r. e \<noteq> d \<Longrightarrow> repository_at w e = Some eob \<Longrightarrow> r \<in> set (readers_of eob) \<Longrightarrow>
      (\<exists>rob. reader_at w r = Some rob \<and> targets_are (Some e) rob) \<and> r \<notin> set (readers_of ob)"
    and R2: "\<And>r. r \<in> set (readers_of ob) \<Longrightarrow> reader_at w r \<noteq> None"
    and R3: "\<And>r rob. reader_at w r = Some rob \<Longrightarrow> \<not> reader_held w r \<Longrightarrow> targets_are None rob"
    and P: "repositories_bound w"
  shows "bound (BindCallbacks d w)"
proof -
  note parts = BindCallbacks_parts [OF d]
  have sock: "reader_socket_of (BindCallbacks d w) r = reader_socket_of w r" for r
    by (cases "reader_at w r") (simp_all add: reader_socket_of_def parts(1))
  have "sockets_bound (BindCallbacks d w)"
  proof (rule sockets_boundI)
    fix r s
    assume "reader_socket_of (BindCallbacks d w) r = Some s"
    then show "socket_callback (BindCallbacks d w) s = Some (Reader_target r)"
      using S1 by (simp add: sock parts(2))
  next
    fix e eob s
    assume "repository_at (BindCallbacks d w) e = Some eob" "po_monitor eob = Some s"
    then show "socket_callback (BindCallbacks d w) s = Some (Repository_target e)"
      using S2 [of e eob s] d by (cases "e = d") (simp_all add: parts)
  qed
  moreover have "readers_bound (BindCallbacks d w)"
  proof (rule readers_boundI)
    fix e eob r
    assume "repository_at (BindCallbacks d w) e = Some eob" "r \<in> set (readers_of eob)"
    then show "\<exists>rob. reader_at (BindCallbacks d w) r = Some rob \<and> targets_are (Some e) rob"
      using R1 [of e eob r] R2 [of r] d by (cases "e = d") (auto simp: parts targets_are_def)
  next
    fix r rob
    assume r: "reader_at (BindCallbacks d w) r = Some rob" and free: "\<not> reader_held (BindCallbacks d w) r"
    from free have free: "\<not> reader_held w r" by (simp add: reader_held_cong [OF parts(3)])
    then have "r \<notin> set (readers_of ob)" using d by (auto simp: reader_held_def)
    with r show "targets_are None rob" using R3 [OF _ free] by (simp add: parts(1))
  qed
  ultimately show ?thesis
    using P by (simp add: bound_def repositories_bound_cong [OF parts(3,4)])
qed

lemma put_repository_parts [simp]:
  "repository_at (put_repository d ob w) = (repository_at w)(d \<mapsto> ob)"
  "reader_at (put_repository d ob w) = reader_at w"
  "socket_callback (put_repository d ob w) = socket_callback w"
  "lldp_at (put_repository d ob w) = lldp_at w"
  "reader_socket_of (put_repository d ob w) = reader_socket_of w"
  by (simp_all add: put_repository_def reader_socket_of_def fun_eq_iff)

lemma reader_held_put:
  "repository_at w d = None \<Longrightarrow>
   reader_held (put_repository d ob w) r \<longleftrightarrow> r \<in> set (readers_of ob) \<or> reader_held w r"
  unfolding reader_held_def put_repository_parts
  by (metis fun_upd_apply option.distinct(1) option.inject)

lemma readers_of_members [simp]:
  "readers_of (repository_members m (Some dr) (Some ir) verbose) = [Device_reader_at dr, Ip_reader_at ir]"
  by (simp add: repository_members_def readers_of_def)

lemma unknown_repository_not_held:
  "repositories_bound w \<Longrightarrow> repository_at w d = None \<Longrightarrow> \<not> repository_held w d"
  using repositories_boundD(1) [of w _ _ d] by (auto simp: repository_held_def)

lemma bound_DeviceRepository_construct [inv_intros]:
  assumes "bound w" and fresh: "repository_at w d = None" and s: "\<not> socket_held w s"
    and dr: "free_reader w (Device_reader_at dr)" and ir: "free_reader w (Ip_reader_at ir)"
  shows "bound (DeviceRepository_construct d (Some s) (Some dr) (Some ir) verbose w)"
proof -
  from assms(1) have b: "sockets_bound w" "readers_bound w" "repositories_bound w"
    by (simp_all add: bound_def)
  let ?ob = "repository_members (Some s) (Some dr) (Some ir) verbose"
  let ?w = "put_repository d ?ob w"
  have mon: "po_monitor ?ob = Some s" and sync: "po_sync_target ?ob = None"
    by (simp_all add: repository_members_def)
  show ?thesis
    unfolding DeviceRepository_construct_def
  proof (rule bound_BindCallbacks [where ob = ?ob])
    show "repository_at ?w d = Some ?ob" by simp
  next
    fix r t assume "reader_socket_of ?w r = Some t"
    then show "socket_callback ?w t = Some (Reader_target r) \<and> po_monitor ?ob \<noteq> Some t"
      using sockets_boundD(1) [OF b(1), of r t] s by (auto simp: mon socket_held_def)
  next
    fix e eob t assume "e \<noteq> d" "repository_at ?w e = Some eob" "po_monitor eob = Some t"
    then show "socket_callback ?w t = Some (Repository_target e) \<and> po_monitor ?ob \<noteq> Some t"
      using sockets_boundD(2) [OF b(1), of e eob t] s by (auto simp: mon socket_held_def)
  next
    fix e eob r assume "e \<noteq> d" "repository_at ?w e = Some eob" "r \<in> set (readers_of eob)"
    then show "(\<exists>rob. reader_at ?w r = Some rob \<and> targets_are (Some e) rob) \<and> r \<notin> set (readers_of ?ob)"
      using readers_boundD(1) [OF b(2), of e eob r] dr ir by (auto simp: free_reader_def reader_held_def)
  next
    fix r assume "r \<in> set (readers_of ?ob)"
    then show "reader_at ?w r \<noteq> None" using dr ir by (auto simp: free_reader_def)
  next
    fix r rob assume r: "reader_at ?w r = Some rob" "\<not> reader_held ?w r"
    then have "\<not> reader_held w r" using reader_held_put [OF fresh, of ?ob r] by simp
    then show "targets_are None rob" using r readers_boundD(2) [OF b(2)] by simp
  next
    show "repositories_bound ?w"
    proof (rule repositories_boundI)
      fix l lob e assume "lldp_at ?w l = Some lob" "lo_repository lob = Some e"
      then show "\<exists>dob. repository_at ?w e = Some dob \<and> po_sync_target dob = Some l"
        using repositories_boundD(1) [OF b(3), of l lob e] fresh by auto
    next
      fix e dob assume "repository_at ?w e = Some dob" "\<not> repository_held ?w e"
      then show "po_sync_target dob = None"
        using repositories_boundD(2) [OF b(3), of e dob] sync
        by (auto simp: repository_held_def split: if_splits)
    qed
  qed
qed


lemma ClearCallbacks_nothing:
  "repository_at w d = Some ob \<Longrightarrow> po_monitor ob = None \<Longrightarrow> readers_of ob = [] \<Longrightarrow> ClearCallbacks d w = w"
  by (simp add: ClearCallbacks_def)

lemma moved_out_simps [simp]:
  "po_monitor (repository_moved_out ob) = None" "readers_of (repository_moved_out ob) = []"
  "po_sync_target (repository_moved_out ob) = po_sync_target ob"
  by (simp_all add: repository_moved_out_def)

lemma free_repositoryE:
  assumes "bound w" "free_repository w d"
  obtains ob where "repository_at w d = Some ob" "po_sync_target ob = None" "\<not> repository_held w d"
  using assms repositories_boundD(2) by (fastforce simp: free_repository_def bound_def)

text \<open>Two repositories of a bound world share neither sockets nor readers.\<close>

lemma monitors_differ:
  "sockets_bound w \<Longrightarrow> repository_at w d = Some a \<Longrightarrow> repository_at w e = Some b \<Longrightarrow> d \<noteq> e \<Longrightarrow>
   po_monitor a = Some s \<Longrightarrow> po_monitor b \<noteq> Some s"
  using sockets_boundD(2) [of w d a s] sockets_boundD(2) [of w e b s] by auto

lemma monitor_not_readers:
  "sockets_bound w \<Longrightarrow> repository_at w d = Some a \<Longrightarrow> reader_socket_of w r = Some s \<Longrightarrow> po_monitor a \<noteq> Some s"
  using sockets_boundD(2) [of w d a s] sockets_boundD(1) [of w r s] by auto

lemma reader_sockets_differ:
  "sockets_bound w \<Longrightarrow> reader_socket_of w r = Some s \<Longrightarrow> q \<noteq> r \<Longrightarrow> reader_socket_of w q \<noteq> Some s"
  using sockets_boundD(1) [of w r s] sockets_boundD(1) [of w q s] by auto

lemma repositories_bound_copied:
  assumes b: "repositories_bound w" and new: "repository_at w d = None" and old: "repository_at w other = Some ob"
    "po_sync_target ob = None"
    and w': "repository_at w' = (repository_at w)(d \<mapsto> copy, other \<mapsto> rest)" "lldp_at w' = lldp_at w"
    and none: "po_sync_target copy = None" "po_sync_target rest = None"
  shows "repositories_bound w'"
proof (rule repositories_boundI)
  fix l lob e assume "lldp_at w' l = Some lob" "lo_repository lob = Some e"
  then show "\<exists>dob. repository_at w' e = Some dob \<and> po_sync_target dob = Some l"
    using repositories_boundD(1) [OF b, of l lob e] new old by (auto simp: w')
next
  fix e dob assume "repository_at w' e = Some dob" "\<not> repository_held w' e"
  then show "po_sync_target dob = None"
    using repositories_boundD(2) [OF b, of e dob] none by (auto simp: repository_held_def w' split: if_splits)
qed

lemma reader_unheld_copied:
  assumes "repository_at w d = None" "repository_at w other = Some ob"
    and w': "repository_at w' = (repository_at w)(d \<mapsto> copy, other \<mapsto> rest)" and same: "readers_of copy = readers_of ob"
    and free: "\<not> reader_held w' r" and ne: "d \<noteq> other"
  shows "\<not> reader_held w r"
proof
  assume "reader_held w r"
  then obtain e eob where e: "repository_at w e = Some eob" "r \<in> set (readers_of eob)" by (auto simp: reader_held_def)
  have "r \<notin> set (readers_of copy)" using free ne unfolding reader_held_def w' by (metis fun_upd_other fun_upd_same)
  then have "e \<noteq> other" using e assms(2) same by auto
  then have "repository_at w' e = Some eob" using e assms(1) by (auto simp: w')
  then show False using free e(2) unfolding reader_held_def by blast
qed

lemma bound_DeviceRepository_move_construct [inv_intros]:
  assumes "bound w" and fresh: "repository_at w d = None" and free: "free_repository w other"
  shows "bound (DeviceRepository_move_construct d other w)"
proof -
  from assms(1) have b: "sockets_bound w" "readers_bound w" "repositories_bound w"
    by (simp_all add: bound_def)
  from free_repositoryE [OF assms(1) free] obtain ob where
    ob: "repository_at w other = Some ob" "po_sync_target ob = None" "\<not> repository_held w other" .
  from fresh ob(1) have ne: "d \<noteq> other" by auto
  let ?ob = "ob\<lparr>po_sync_target := None\<rparr>"
  let ?w = "put_repository other (repository_moved_out ob) (put_repository other (ob\<lparr>po_monitor := None,
     po_device_reader := None, po_ip_reader := None, po_devices := []\<rparr>) (put_repository d ?ob w))"
  have eq: "DeviceRepository_move_construct d other w = BindCallbacks d ?w"
    by (simp add: DeviceRepository_move_construct_def ob Let_def ClearCallbacks_nothing [where
        ob = "ob\<lparr>po_monitor := None, po_device_reader := None, po_ip_reader := None, po_devices := []\<rparr>"])
  show ?thesis
    unfolding eq
  proof (rule bound_BindCallbacks [where ob = ?ob])
    show "repository_at ?w d = Some ?ob" using ne by simp
  next
    fix r t assume "reader_socket_of ?w r = Some t"
    then show "socket_callback ?w t = Some (Reader_target r) \<and> po_monitor ?ob \<noteq> Some t"
      using sockets_boundD(1) [OF b(1), of r t] monitor_not_readers [OF b(1) ob(1), of r t] by simp
  next
    fix e eob t assume "e \<noteq> d" "repository_at ?w e = Some eob" "po_monitor eob = Some t"
    then show "socket_callback ?w t = Some (Repository_target e) \<and> po_monitor ?ob \<noteq> Some t"
      using sockets_boundD(2) [OF b(1), of e eob t] monitors_differ [OF b(1) _ ob(1), of e eob t]
      by (auto split: if_splits)
  next
    fix e eob r assume "e \<noteq> d" "repository_at ?w e = Some eob" "r \<in> set (readers_of eob)"
    then show "(\<exists>rob. reader_at ?w r = Some rob \<and> targets_are (Some e) rob) \<and> r \<notin> set (readers_of ?ob)"
      using readers_boundD(1) [OF b(2), of e eob r] one_repository [OF b(2) _ ob(1), of e eob r]
      by (auto split: if_splits)
  next
    fix r assume "r \<in> set (readers_of ?ob)"
    then show "reader_at ?w r \<noteq> None" using readers_boundD(1) [OF b(2) ob(1), of r] by auto
  next
    fix r rob assume r: "reader_at ?w r = Some rob" "\<not> reader_held ?w r"
    have "\<not> reader_held w r"
      by (rule reader_unheld_copied [OF fresh ob(1) _ _ r(2) ne, where copy = ?ob]) (simp_all add: readers_of_def)
    then show "targets_are None rob" using r readers_boundD(2) [OF b(2)] by simp
  next
    show "repositories_bound ?w"
      by (rule repositories_bound_copied [OF b(3) fresh ob(1,2), where copy = ?ob and rest = "repository_moved_out ob"])
        (simp_all add: repository_moved_out_def ob(2))
  qed
qed

lemma DeviceRepository_destroy_parts:
  assumes "repository_at w d = Some ob"
  shows "repository_at (DeviceRepository_destroy d w) = (repository_at w)(d := None)"
    and "reader_at (DeviceRepository_destroy d w) r
       = (if r \<in> set (readers_of ob) then None else reader_at w r)"
    and "socket_callback (DeviceRepository_destroy d w) s
       = (if po_monitor ob = Some s \<or> (\<exists>r\<in>set (readers_of ob). reader_socket_of w r = Some s)
          then None else socket_callback w s)"
    and "lldp_at (DeviceRepository_destroy d w) = lldp_at w"
proof -
  have sock: "reader_socket_of (ClearCallbacks d w) r = reader_socket_of w r" for r
    by (cases "reader_at w r") (simp_all add: reader_socket_of_def ClearCallbacks_parts [OF assms])
  note parts = fold_Reader_destroy ClearCallbacks_parts [OF assms] sock
  show "repository_at (DeviceRepository_destroy d w) = (repository_at w)(d := None)"
    "reader_at (DeviceRepository_destroy d w) r = (if r \<in> set (readers_of ob) then None else reader_at w r)"
    "socket_callback (DeviceRepository_destroy d w) s
       = (if po_monitor ob = Some s \<or> (\<exists>r\<in>set (readers_of ob). reader_socket_of w r = Some s)
          then None else socket_callback w s)"
    "lldp_at (DeviceRepository_destroy d w) = lldp_at w"
    by (simp_all add: DeviceRepository_destroy_def assms Let_def parts)
qed

lemma destroyed_repository_bound:
  assumes "sockets_bound w" "readers_bound w" and ob: "repository_at w d = Some ob"
  shows "sockets_bound (DeviceRepository_destroy d w)" and "readers_bound (DeviceRepository_destroy d w)"
proof -
  note b = assms(1,2)
  let ?v = "DeviceRepository_destroy d w"
  note parts = DeviceRepository_destroy_parts [OF ob]
  have sock: "reader_socket_of ?v r = (if r \<in> set (readers_of ob) then None else reader_socket_of w r)" for r
    by (simp add: reader_socket_of_def parts(2))
  show "sockets_bound ?v"
  proof (rule sockets_boundI)
    fix r s assume "reader_socket_of ?v r = Some s"
    then have r: "r \<notin> set (readers_of ob)" "reader_socket_of w r = Some s"
      by (auto simp: sock split: if_splits)
    then have "\<forall>q\<in>set (readers_of ob). reader_socket_of w q \<noteq> Some s"
      using reader_sockets_differ [OF b(1) r(2)] by metis
    then show "socket_callback ?v s = Some (Reader_target r)"
      using sockets_boundD(1) [OF b(1) r(2)] monitor_not_readers [OF b(1) ob r(2)] by (auto simp: parts(3))
  next
    fix e eob s assume "repository_at ?v e = Some eob" and s: "po_monitor eob = Some s"
    then have e: "e \<noteq> d" "repository_at w e = Some eob" by (auto simp: parts(1) split: if_splits)
    then have "\<forall>q\<in>set (readers_of ob). reader_socket_of w q \<noteq> Some s" "po_monitor ob \<noteq> Some s"
      using monitor_not_readers [OF b(1) e(2)] monitors_differ [OF b(1) e(2) ob e(1) s] s by blast+
    then show "socket_callback ?v s = Some (Repository_target e)"
      using sockets_boundD(2) [OF b(1) e(2) s] by (auto simp: parts(3))
  qed
  show "readers_bound ?v"
  proof (rule readers_boundI)
    fix e eob r assume "repository_at ?v e = Some eob" and r: "r \<in> set (readers_of eob)"
    then have e: "e \<noteq> d" "repository_at w e = Some eob" by (auto simp: parts(1) split: if_splits)
    then have "r \<notin> set (readers_of ob)" using one_repository [OF b(2) e(2) ob r] by blast
    then show "\<exists>rob. reader_at ?v r = Some rob \<and> targets_are (Some e) rob"
      using readers_boundD(1) [OF b(2) e(2) r] by (simp add: parts(2))
  next
    fix r rob assume r: "reader_at ?v r = Some rob" "\<not> reader_held ?v r"
    have "\<not> reader_held w r"
    proof
      assume "reader_held w r"
      then obtain e eob where e: "repository_at w e = Some eob" "r \<in> set (readers_of eob)"
        by (auto simp: reader_held_def)
      with r(1) ob have "e \<noteq> d" by (auto simp: parts(2) split: if_splits)
      with e have "repository_at ?v e = Some eob" by (simp add: parts(1))
      with r(2) e(2) show False unfolding reader_held_def by blast
    qed
    then show "targets_are None rob"
      using r(1) readers_boundD(2) [OF b(2)] by (simp add: parts(2) split: if_splits)
  qed
qed

lemma bound_DeviceRepository_destroy [inv_intros]:
  assumes "bound w" "free_repository w d"
  shows "bound (DeviceRepository_destroy d w)"
proof -
  from assms(1) have b: "sockets_bound w" "readers_bound w" "repositories_bound w"
    by (simp_all add: bound_def)
  from free_repositoryE [OF assms] obtain ob where
    ob: "repository_at w d = Some ob" "\<not> repository_held w d" by blast
  note parts = DeviceRepository_destroy_parts [OF ob(1)]
  have "repositories_bound (DeviceRepository_destroy d w)"
  proof (rule repositories_boundI)
    fix l lob e assume "lldp_at (DeviceRepository_destroy d w) l = Some lob" "lo_repository lob = Some e"
    then show "\<exists>dob. repository_at (DeviceRepository_destroy d w) e = Some dob \<and> po_sync_target dob = Some l"
      using repositories_boundD(1) [OF b(3), of l lob e] ob(2) by (auto simp: parts repository_held_def)
  next
    fix e dob assume "repository_at (DeviceRepository_destroy d w) e = Some dob"
      "\<not> repository_held (DeviceRepository_destroy d w) e"
    then show "po_sync_target dob = None"
      using repositories_boundD(2) [OF b(3), of e dob] by (auto simp: parts repository_held_def split: if_splits)
  qed
  then show ?thesis
    using destroyed_repository_bound [OF b(1,2) ob(1)] by (simp add: bound_def)
qed


text \<open>Assignment does what destroying the target and moving into its place would do.\<close>

lemma closed_sockets_kept:
  "closed_sockets (fold (set_targets t) rs w) = closed_sockets w"
  "closed_sockets (fold Reader_destroy rs w) = closed_sockets w"
  "closed_sockets (BindCallbacks d w) = closed_sockets w"
  "closed_sockets (ClearCallbacks d w) = closed_sockets w"
  "closed_sockets (put_repository d ob w) = closed_sockets w"
proof -
  show targets: "closed_sockets (fold (set_targets t) rs w) = closed_sockets w" for t rs w
    by (induction rs arbitrary: w) (simp_all add: set_targets_def)
  have "closed_sockets (Reader_destroy r w) = closed_sockets w" for r w
    by (cases "reader_socket_of w r") (simp_all add: Reader_destroy_def ClearCallback_def)
  then show "closed_sockets (fold Reader_destroy rs w) = closed_sockets w"
    by (induction rs arbitrary: w) simp_all
  show "closed_sockets (BindCallbacks d w) = closed_sockets w"
    "closed_sockets (ClearCallbacks d w) = closed_sockets w"
    by (auto simp: BindCallbacks_def ClearCallbacks_def if_set_def SetCallback_def ClearCallback_def
        targets split: option.splits)
  show "closed_sockets (put_repository d ob w) = closed_sockets w"
    by (simp add: put_repository_def)
qed

lemma assign_is_destroy_and_move:
  assumes old: "repository_at w d = Some old" "po_sync_target old = None"
    and ob: "repository_at w other = Some ob" "po_sync_target ob = None" and ne: "d \<noteq> other"
  shows "DeviceRepository_move_assign d other w
    = DeviceRepository_move_construct d other (DeviceRepository_destroy d w)" (is "?l = ?r")
proof -
  let ?c = "ClearCallbacks other (ClearCallbacks d w)"
  let ?x = "fold Reader_destroy (readers_of old) ?c"
  let ?assigned = "put_repository other (repository_moved_out ob) (put_repository d (ob\<lparr>po_sync_target := None\<rparr>) ?x)"
  let ?y = "DeviceRepository_destroy d w"
  let ?moved = "put_repository other (repository_moved_out ob) (put_repository other (ob\<lparr>po_monitor := None,
     po_device_reader := None, po_ip_reader := None, po_devices := []\<rparr>)
     (put_repository d (ob\<lparr>po_sync_target := None\<rparr>) ?y))"
  note d_parts = ClearCallbacks_parts [OF old(1)]
  have c_ob: "repository_at (ClearCallbacks d w) other = Some ob" by (simp add: d_parts ob)
  note o_parts = ClearCallbacks_parts [OF c_ob]
  note y_parts = DeviceRepository_destroy_parts [OF old(1)]
  have y_ob: "repository_at ?y other = Some ob" using ob ne by (simp add: y_parts)
  have l: "?l = BindCallbacks d ?assigned" by (simp add: DeviceRepository_move_assign_def old ob Let_def)
  have r: "?r = BindCallbacks d ?moved"
    using ne by (simp add: DeviceRepository_move_construct_def y_ob Let_def ClearCallbacks_nothing [where
        ob = "ob\<lparr>po_monitor := None, po_device_reader := None, po_ip_reader := None, po_devices := []\<rparr>"])
  have l0: "repository_at ?assigned d = Some (ob\<lparr>po_sync_target := None\<rparr>)" using ne by simp
  have r0: "repository_at ?moved d = Some (ob\<lparr>po_sync_target := None\<rparr>)" using ne by simp
  note l_parts = BindCallbacks_parts [OF l0] and r_parts = BindCallbacks_parts [OF r0]
  have sock: "reader_socket_of ?c q = reader_socket_of w q" for q
    by (cases "reader_at w q") (simp_all add: reader_socket_of_def o_parts(1) d_parts(1))
  show ?thesis
    unfolding l r
  proof (rule binding_world.equality)
    show "reader_at (BindCallbacks d ?assigned) = reader_at (BindCallbacks d ?moved)"
    proof
      fix q show "reader_at (BindCallbacks d ?assigned) q = reader_at (BindCallbacks d ?moved) q"
        by (cases "reader_at w q") (simp_all add: l_parts(1) r_parts(1) y_parts fold_Reader_destroy o_parts d_parts)
    qed
    show "socket_callback (BindCallbacks d ?assigned) = socket_callback (BindCallbacks d ?moved)"
      by (rule ext) (simp add: l_parts(2) r_parts(2) y_parts fold_Reader_destroy o_parts d_parts sock)
    show "repository_at (BindCallbacks d ?assigned) = repository_at (BindCallbacks d ?moved)"
      using ne by (simp add: l_parts(3) r_parts(3) y_parts fold_Reader_destroy o_parts d_parts fun_eq_iff)
    show "lldp_at (BindCallbacks d ?assigned) = lldp_at (BindCallbacks d ?moved)"
      by (simp add: l_parts(4) r_parts(4) y_parts fold_Reader_destroy o_parts d_parts)
    show "closed_sockets (BindCallbacks d ?assigned) = closed_sockets (BindCallbacks d ?moved)"
      by (simp add: closed_sockets_kept DeviceRepository_destroy_def old Let_def)
  qed simp
qed

lemma bound_DeviceRepository_move_assign [inv_intros]:
  assumes "bound w" "free_repository w d" "free_repository w other" "d \<noteq> other"
  shows "bound (DeviceRepository_move_assign d other w)"
proof -
  obtain old where old: "repository_at w d = Some old" "po_sync_target old = None"
    using free_repositoryE [OF assms(1,2)] by blast
  obtain ob where ob: "repository_at w other = Some ob" "po_sync_target ob = None"
    using free_repositoryE [OF assms(1,3)] by blast
  note parts = DeviceRepository_destroy_parts [OF old(1)]
  have "free_repository (DeviceRepository_destroy d w) other"
    using assms(3,4) by (simp add: free_repository_def repository_held_def parts)
  then show ?thesis
    using assms bound_DeviceRepository_destroy bound_DeviceRepository_move_construct parts(1)
    by (simp add: assign_is_destroy_and_move [OF old ob assms(4)])
qed

subsection \<open>LLDP repositories keep the invariant\<close>

lemma set_sync_target_parts:
  "repository_at (set_sync_target t d w)
     = (repository_at w)(d := map_option (\<lambda>ob. ob\<lparr>po_sync_target := t\<rparr>) (repository_at w d))"
  "reader_at (set_sync_target t d w) = reader_at w"
  "socket_callback (set_sync_target t d w) = socket_callback w"
  "lldp_at (set_sync_target t d w) = lldp_at w"
  by (simp_all add: set_sync_target_def)

lemma put_lldp_parts [simp]:
  "lldp_at (put_lldp l ob w) = (lldp_at w)(l \<mapsto> ob)"
  "repository_at (put_lldp l ob w) = repository_at w"
  "reader_at (put_lldp l ob w) = reader_at w"
  "socket_callback (put_lldp l ob w) = socket_callback w"
  by (simp_all add: put_lldp_def)

text \<open>The bindings below the LLDP repositories do not depend on them or on the captured \<open>this\<close>.\<close>

lemma lower_bindings_cong:
  assumes "reader_at v = reader_at w" "socket_callback v = socket_callback w"
    and dom: "\<And>d. (repository_at v d = None) = (repository_at w d = None)"
    and same: "\<And>d a b. repository_at v d = Some a \<Longrightarrow> repository_at w d = Some b \<Longrightarrow>
       po_monitor a = po_monitor b \<and> readers_of a = readers_of b"
    and b: "sockets_bound w" "readers_bound w"
  shows "sockets_bound v" "readers_bound v"
proof -
  have ex: "\<exists>b. repository_at w d = Some b \<and> po_monitor a = po_monitor b \<and> readers_of a = readers_of b"
    if "repository_at v d = Some a" for d a
    using that dom [of d] same [OF that] by (cases "repository_at w d") auto
  have held: "reader_held v r" if "reader_held w r" for r
  proof -
    from that obtain d b where d: "repository_at w d = Some b" "r \<in> set (readers_of b)"
      by (auto simp: reader_held_def)
    with dom [of d] obtain a where "repository_at v d = Some a" by auto
    then show ?thesis using same [OF _ d(1)] d(2) by (fastforce simp: reader_held_def)
  qed
  have sock: "reader_socket_of v = reader_socket_of w" by (simp add: reader_socket_of_def assms(1) fun_eq_iff)
  show "sockets_bound v"
  proof (rule sockets_boundI)
    fix r s assume "reader_socket_of v r = Some s"
    then show "socket_callback v s = Some (Reader_target r)"
      using sockets_boundD(1) [OF b(1)] by (simp add: sock assms(2))
  next
    fix d a s assume "repository_at v d = Some a" "po_monitor a = Some s"
    then show "socket_callback v s = Some (Repository_target d)"
      using ex [of d a] sockets_boundD(2) [OF b(1), of d] by (auto simp: assms(2))
  qed
  show "readers_bound v"
  proof (rule readers_boundI)
    fix d a r assume "repository_at v d = Some a" "r \<in> set (readers_of a)"
    then show "\<exists>rob. reader_at v r = Some rob \<and> targets_are (Some d) rob"
      using ex [of d a] readers_boundD(1) [OF b(2), of d] by (auto simp: assms(1))
  next
    fix r rob assume "reader_at v r = Some rob" "\<not> reader_held v r"
    then show "targets_are None rob" using held [of r] readers_boundD(2) [OF b(2), of r rob] by (auto simp: assms(1))
  qed
qed


lemma lower_bindings_set_sync_target:
  assumes "sockets_bound w" "readers_bound w"
  shows "sockets_bound (set_sync_target t d w)" "readers_bound (set_sync_target t d w)"
proof -
  have dom: "(repository_at (set_sync_target t d w) e = None) = (repository_at w e = None)" for e
    by (simp add: set_sync_target_parts)
  have same: "po_monitor a = po_monitor b \<and> readers_of a = readers_of b"
    if "repository_at (set_sync_target t d w) e = Some a" "repository_at w e = Some b" for e a b
    using that by (auto simp: set_sync_target_parts split: if_splits)
  show "sockets_bound (set_sync_target t d w)" "readers_bound (set_sync_target t d w)"
    by (rule lower_bindings_cong [OF set_sync_target_parts(2,3) dom same assms]; assumption)+
qed

lemma lower_bindings_lldp:
  assumes "reader_at v = reader_at w" "socket_callback v = socket_callback w" "repository_at v = repository_at w"
    and "sockets_bound w" "readers_bound w"
  shows "sockets_bound v" "readers_bound v"
  using assms by (simp_all add: sockets_bound_def readers_bound_def reader_socket_of_def reader_held_def)

lemma repository_heldI:
  "lldp_at w l = Some ob \<Longrightarrow> lo_repository ob = Some d \<Longrightarrow> repository_held w d"
  by (auto simp: repository_held_def)

lemma bound_LldpRepository_construct [inv_intros]:
  assumes "bound w" and fresh: "lldp_at w l = None" and free: "free_repository w d"
    and v: "LldpRepository_construct l eth (Some d) w = Inr v"
  shows "bound v"
proof -
  from assms(1) have b: "sockets_bound w" "readers_bound w" "repositories_bound w"
    by (simp_all add: bound_def)
  from free_repositoryE [OF assms(1) free] obtain ob where
    ob: "repository_at w d = Some ob" "po_sync_target ob = None" "\<not> repository_held w d" .
  let ?p = "put_lldp l \<lparr>lo_socket = eth, lo_current_state = [], lo_repository = Some d\<rparr> w"
  have v: "v = set_sync_target (Some l) d ?p"
    using v by (simp add: LldpRepository_construct_def SetSyncCallback_this_def)
  have "sockets_bound ?p" "readers_bound ?p" by (rule lower_bindings_lldp [OF _ _ _ b(1,2)]; simp)+
  then have "sockets_bound v" "readers_bound v" by (simp_all add: v lower_bindings_set_sync_target)
  moreover have "repositories_bound v"
  proof (rule repositories_boundI)
    fix k lob e assume "lldp_at v k = Some lob" "lo_repository lob = Some e"
    then show "\<exists>dob. repository_at v e = Some dob \<and> po_sync_target dob = Some k"
      using repositories_boundD(1) [OF b(3), of k lob e] ob
      by (auto simp: v set_sync_target_parts repository_held_def split: if_splits)
  next
    fix e dob assume e: "repository_at v e = Some dob" "\<not> repository_held v e"
    have "lldp_at v l = Some \<lparr>lo_socket = eth, lo_current_state = [], lo_repository = Some d\<rparr>"
      by (simp add: v set_sync_target_parts)
    from repository_heldI [OF this, of d] e(2) have "e \<noteq> d" by auto
    moreover have "\<not> repository_held w e"
    proof
      assume "repository_held w e"
      then obtain k lob where k: "lldp_at w k = Some lob" "lo_repository lob = Some e"
        by (auto simp: repository_held_def)
      with fresh have "lldp_at v k = Some lob" by (auto simp: v set_sync_target_parts)
      with e(2) k(2) show False by (auto simp: repository_held_def)
    qed
    ultimately show "po_sync_target dob = None"
      using e(1) repositories_boundD(2) [OF b(3), of e dob] by (simp add: v set_sync_target_parts)
  qed
  ultimately show ?thesis by (simp add: bound_def)
qed

text \<open>
  What move construction and assignment share: \<open>l\<close> holds nothing, or what it held is gone, and
  takes the repository of \<open>other\<close> over.
\<close>

lemma bound_handed_over:
  assumes b: "sockets_bound w" "readers_bound w" and ne: "l \<noteq> other"
    and other: "lldp_at w other = Some ob" "lo_repository ob = Some d"
    and held: "\<And>k lob e. k \<noteq> l \<Longrightarrow> lldp_at w k = Some lob \<Longrightarrow> lo_repository lob = Some e \<Longrightarrow>
       \<exists>dob. repository_at w e = Some dob \<and> po_sync_target dob = Some k"
    and unheld: "\<And>e dob. repository_at w e = Some dob \<Longrightarrow>
       \<forall>k lob. k \<noteq> l \<longrightarrow> lldp_at w k = Some lob \<longrightarrow> lo_repository lob \<noteq> Some e \<Longrightarrow> po_sync_target dob = None"
    and v: "SetSyncCallback_this l (put_lldp other (ob\<lparr>lo_socket := - 1, lo_repository := None\<rparr>)
       (put_lldp l (ob\<lparr>lo_current_state := st\<rparr>) w)) = Inr v"
  shows "bound v"
proof -
  let ?p = "put_lldp other (ob\<lparr>lo_socket := - 1, lo_repository := None\<rparr>)
       (put_lldp l (ob\<lparr>lo_current_state := st\<rparr>) w)"
  have v: "v = set_sync_target (Some l) d ?p"
    using v ne other by (simp add: SetSyncCallback_this_def)
  have "sockets_bound ?p" "readers_bound ?p" by (rule lower_bindings_lldp [OF _ _ _ b]; simp)+
  then have "sockets_bound v" "readers_bound v" by (simp_all add: v lower_bindings_set_sync_target)
  moreover have "repositories_bound v"
  proof (rule repositories_boundI)
    fix k lob e assume k: "lldp_at v k = Some lob" "lo_repository lob = Some e"
    show "\<exists>dob. repository_at v e = Some dob \<and> po_sync_target dob = Some k"
    proof (cases "k = l")
      case True
      with k ne other have "e = d" by (auto simp: v set_sync_target_parts)
      with True show ?thesis
        using held [OF ne [symmetric] other] by (auto simp: v set_sync_target_parts)
    next
      case False
      with k ne have w: "lldp_at w k = Some lob" and "k \<noteq> other"
        by (auto simp: v set_sync_target_parts split: if_splits)
      from held [OF False w k(2)] obtain dob where
        dob: "repository_at w e = Some dob" "po_sync_target dob = Some k" by blast
      with held [OF ne [symmetric] other] \<open>k \<noteq> other\<close> have "e \<noteq> d" by auto
      with dob show ?thesis by (simp add: v set_sync_target_parts)
    qed
  next
    fix e dob assume e: "repository_at v e = Some dob" "\<not> repository_held v e"
    have "lldp_at v l = Some (ob\<lparr>lo_current_state := st\<rparr>)" using ne by (simp add: v set_sync_target_parts)
    from repository_heldI [OF this, of d] e(2) other have "e \<noteq> d" by auto
    have "\<forall>k lob. k \<noteq> l \<longrightarrow> lldp_at w k = Some lob \<longrightarrow> lo_repository lob \<noteq> Some e"
    proof (intro allI impI notI)
      fix k lob assume k: "k \<noteq> l" "lldp_at w k = Some lob" "lo_repository lob = Some e"
      with other \<open>e \<noteq> d\<close> have "k \<noteq> other" by auto
      with k have "lldp_at v k = Some lob" by (simp add: v set_sync_target_parts)
      with e(2) k(3) show False by (auto simp: repository_held_def)
    qed
    then show "po_sync_target dob = None"
      using e(1) unheld [of e dob] \<open>e \<noteq> d\<close> by (simp add: v set_sync_target_parts)
  qed
  ultimately show ?thesis by (simp add: bound_def)
qed


lemma SetSyncCallback_this_Inr:
  "SetSyncCallback_this l w = Inr v \<Longrightarrow> \<exists>ob d. lldp_at w l = Some ob \<and> lo_repository ob = Some d"
  by (cases "lldp_at w l") (auto simp: SetSyncCallback_this_def split: option.splits)

lemma bound_LldpRepository_move_construct [inv_intros]:
  assumes "bound w" and fresh: "lldp_at w l = None" and other: "lldp_at w other \<noteq> None"
    and v: "LldpRepository_move_construct l other w = Inr v"
  shows "bound v"
proof -
  from assms(1) have b: "sockets_bound w" "readers_bound w" "repositories_bound w"
    by (simp_all add: bound_def)
  from other obtain ob where ob: "lldp_at w other = Some ob" by auto
  with fresh have ne: "l \<noteq> other" by auto
  from v have v: "SetSyncCallback_this l (put_lldp other (ob\<lparr>lo_socket := - 1, lo_repository := None\<rparr>)
       (put_lldp l (ob\<lparr>lo_current_state := []\<rparr>) w)) = Inr v"
    by (simp add: LldpRepository_move_construct_def ob)
  from SetSyncCallback_this_Inr [OF this] ne obtain d where d: "lo_repository ob = Some d" by auto
  show ?thesis
  proof (rule bound_handed_over [OF b(1,2) ne ob d _ _ v])
    fix k lob e assume "k \<noteq> l" "lldp_at w k = Some lob" "lo_repository lob = Some e"
    then show "\<exists>dob. repository_at w e = Some dob \<and> po_sync_target dob = Some k"
      using repositories_boundD(1) [OF b(3)] by blast
  next
    fix e dob assume "repository_at w e = Some dob"
      "\<forall>k lob. k \<noteq> l \<longrightarrow> lldp_at w k = Some lob \<longrightarrow> lo_repository lob \<noteq> Some e"
    moreover from this(2) have "\<not> repository_held w e"
      unfolding repository_held_def using fresh by (metis option.distinct(1))
    ultimately show "po_sync_target dob = None"
      using repositories_boundD(2) [OF b(3), of e dob] by simp
  qed
qed

lemma close_socket_parts [simp]:
  "lldp_at (close_socket n w) = lldp_at w" "repository_at (close_socket n w) = repository_at w"
  "reader_at (close_socket n w) = reader_at w" "socket_callback (close_socket n w) = socket_callback w"
  by (simp_all add: close_socket_def)

text \<open>Destroying the repository an LLDP repository holds disturbs only its own binding.\<close>

lemma held_repository_destroyed:
  assumes b: "sockets_bound w" "readers_bound w" "repositories_bound w"
    and l: "lldp_at w l = Some lob"
  defines "v \<equiv> if_set (lo_repository lob) DeviceRepository_destroy w"
  shows "sockets_bound v" "readers_bound v" "lldp_at v = lldp_at w"
    and "\<And>k kob e. k \<noteq> l \<Longrightarrow> lldp_at w k = Some kob \<Longrightarrow> lo_repository kob = Some e \<Longrightarrow>
       \<exists>dob. repository_at v e = Some dob \<and> po_sync_target dob = Some k"
    and "\<And>e dob. repository_at v e = Some dob \<Longrightarrow>
       \<forall>k kob. k \<noteq> l \<longrightarrow> lldp_at w k = Some kob \<longrightarrow> lo_repository kob \<noteq> Some e \<Longrightarrow> po_sync_target dob = None"
proof -
  have repo: "repository_at v e = (if lo_repository lob = Some e then None else repository_at w e)" for e
  proof (cases "lo_repository lob")
    case (Some d)
    from repositories_boundD(1) [OF b(3) l Some] obtain ob where "repository_at w d = Some ob" by blast
    then show ?thesis using Some by (simp add: v_def DeviceRepository_destroy_parts)
  qed (simp add: v_def)
  have "sockets_bound v \<and> readers_bound v \<and> lldp_at v = lldp_at w"
  proof (cases "lo_repository lob")
    case (Some d)
    from repositories_boundD(1) [OF b(3) l Some] obtain ob where "repository_at w d = Some ob" by blast
    then show ?thesis
      using Some destroyed_repository_bound [OF b(1,2)] by (simp add: v_def DeviceRepository_destroy_parts)
  qed (simp add: v_def b)
  then show "sockets_bound v" "readers_bound v" "lldp_at v = lldp_at w" by simp_all
  show "\<exists>dob. repository_at v e = Some dob \<and> po_sync_target dob = Some k"
    if "k \<noteq> l" "lldp_at w k = Some kob" "lo_repository kob = Some e" for k kob e
    using that one_lldp [OF b(3) that(2) l that(3)] repositories_boundD(1) [OF b(3) that(2,3)] by (auto simp: repo)
  show "po_sync_target dob = None" if e: "repository_at v e = Some dob"
    "\<forall>k kob. k \<noteq> l \<longrightarrow> lldp_at w k = Some kob \<longrightarrow> lo_repository kob \<noteq> Some e" for e dob
  proof -
    from e(1) have w: "repository_at w e = Some dob" "lo_repository lob \<noteq> Some e" by (auto simp: repo split: if_splits)
    have "\<not> repository_held w e"
    proof
      assume "repository_held w e"
      then obtain k kob where k: "lldp_at w k = Some kob" "lo_repository kob = Some e"
        by (auto simp: repository_held_def)
      with w(2) l have "k \<noteq> l" by auto
      with e(2) k show False by blast
    qed
    then show ?thesis using repositories_boundD(2) [OF b(3) w(1)] by simp
  qed
qed

lemma DeviceRepository_destroy_cong:
  assumes "repository_at v = repository_at w" "reader_at v = reader_at w" "socket_callback v = socket_callback w"
    "closed_sockets v = closed_sockets w"
  shows "DeviceRepository_destroy d v = (DeviceRepository_destroy d w)\<lparr>lldp_at := lldp_at v\<rparr>"
proof (cases "repository_at w d")
  case None
  with assms show ?thesis by (simp add: DeviceRepository_destroy_def)
next
  case (Some ob)
  with assms(1) have v: "repository_at v d = Some ob" by simp
  note parts = DeviceRepository_destroy_parts [OF Some] DeviceRepository_destroy_parts [OF v]
  show ?thesis
  proof (rule binding_world.equality)
    show "socket_callback (DeviceRepository_destroy d v) = socket_callback ((DeviceRepository_destroy d w)\<lparr>lldp_at := lldp_at v\<rparr>)"
      by (rule ext) (simp add: parts assms reader_socket_of_def)
    show "reader_at (DeviceRepository_destroy d v) = reader_at ((DeviceRepository_destroy d w)\<lparr>lldp_at := lldp_at v\<rparr>)"
      by (rule ext) (simp add: parts assms)
    show "closed_sockets (DeviceRepository_destroy d v) = closed_sockets ((DeviceRepository_destroy d w)\<lparr>lldp_at := lldp_at v\<rparr>)"
      by (simp add: closed_sockets_kept DeviceRepository_destroy_def Some v Let_def assms)
  qed (simp_all add: parts assms)
qed

lemma destroy_forgets_sync_target:
  "DeviceRepository_destroy d (set_sync_target t d w) = DeviceRepository_destroy d w"
proof (cases "repository_at w d")
  case None
  then have "set_sync_target t d w = w"
    by (intro binding_world.equality) (auto simp: set_sync_target_def)
  then show ?thesis by simp
next
  case (Some ob)
  then have v: "repository_at (set_sync_target t d w) d = Some (ob\<lparr>po_sync_target := t\<rparr>)"
    by (simp add: set_sync_target_parts)
  note parts = DeviceRepository_destroy_parts [OF Some] DeviceRepository_destroy_parts [OF v] set_sync_target_parts
  show ?thesis
  proof (rule binding_world.equality)
    show "socket_callback (DeviceRepository_destroy d (set_sync_target t d w)) = socket_callback (DeviceRepository_destroy d w)"
      by (rule ext) (simp add: parts reader_socket_of_def)
    show "reader_at (DeviceRepository_destroy d (set_sync_target t d w)) = reader_at (DeviceRepository_destroy d w)"
      by (rule ext) (simp add: parts)
    show "closed_sockets (DeviceRepository_destroy d (set_sync_target t d w)) = closed_sockets (DeviceRepository_destroy d w)"
      by (simp add: closed_sockets_kept DeviceRepository_destroy_def Some v Let_def) (simp add: set_sync_target_def)
  qed (simp_all add: parts)
qed

lemma bound_LldpRepository_destroy [inv_intros]:
  assumes "bound w" and l: "lldp_at w l \<noteq> None"
  shows "bound (LldpRepository_destroy l w)"
proof -
  from assms(1) have b: "sockets_bound w" "readers_bound w" "repositories_bound w"
    by (simp_all add: bound_def)
  from l obtain lob where lob: "lldp_at w l = Some lob" by auto
  define v where "v = if_set (lo_repository lob) DeviceRepository_destroy w"
  note gone = held_repository_destroyed [OF b lob, folded v_def]
  let ?v = "LldpRepository_destroy l w"
  have eq: "?v = (close_socket (lo_socket lob) v)\<lparr>lldp_at := (lldp_at v)(l := None)\<rparr>"
    by (cases "lo_repository lob")
      (simp_all add: LldpRepository_destroy_def lob v_def Let_def destroy_forgets_sync_target)
  have "sockets_bound ?v" "readers_bound ?v"
    by (rule lower_bindings_lldp [OF _ _ _ gone(1,2)]; simp add: eq)+
  moreover have "repositories_bound ?v"
  proof (rule repositories_boundI)
    fix k kob e assume "lldp_at ?v k = Some kob" "lo_repository kob = Some e"
    then show "\<exists>dob. repository_at ?v e = Some dob \<and> po_sync_target dob = Some k"
      using gone(4) [of k kob e] by (simp add: eq gone(3) split: if_splits)
  next
    fix e dob assume e: "repository_at ?v e = Some dob" "\<not> repository_held ?v e"
    then have "\<forall>k kob. k \<noteq> l \<longrightarrow> lldp_at w k = Some kob \<longrightarrow> lo_repository kob \<noteq> Some e"
      by (auto simp: repository_held_def eq gone(3) split: if_splits)
    then show "po_sync_target dob = None" using gone(5) e(1) by (simp add: eq)
  qed
  ultimately show ?thesis by (simp add: bound_def)
qed

lemma bound_LldpRepository_move_assign [inv_intros]:
  assumes "bound w" and l: "lldp_at w l \<noteq> None" and other: "lldp_at w other \<noteq> None" and ne: "l \<noteq> other"
    and v: "LldpRepository_move_assign l other w = Inr v"
  shows "bound v"
proof -
  from assms(1) have b: "sockets_bound w" "readers_bound w" "repositories_bound w"
    by (simp_all add: bound_def)
  from l other obtain lob ob where lob: "lldp_at w l = Some lob" and ob: "lldp_at w other = Some ob" by auto
  define c where "c = close_socket (lo_socket lob) w"
  have c: "sockets_bound c" "readers_bound c" "repositories_bound c"
    using b lower_bindings_lldp [of c w] repositories_bound_cong [of c w] by (simp_all add: c_def)
  have c_lob: "lldp_at c l = Some lob" and c_ob: "lldp_at c other = Some ob" by (simp_all add: c_def lob ob)
  define g where "g = if_set (lo_repository lob) DeviceRepository_destroy c"
  note gone = held_repository_destroyed [OF c c_lob, folded g_def]
  let ?puts = "\<lambda>w. put_lldp other (ob\<lparr>lo_socket := - 1, lo_repository := None\<rparr>)
       (put_lldp l (ob\<lparr>lo_current_state := lo_current_state lob\<rparr>) w)"
  have "if_set (lo_repository lob) DeviceRepository_destroy (?puts c) = ?puts g"
  proof (cases "lo_repository lob")
    case (Some d)
    have "DeviceRepository_destroy d (?puts c) = (DeviceRepository_destroy d c)\<lparr>lldp_at := lldp_at (?puts c)\<rparr>"
      by (rule DeviceRepository_destroy_cong) (simp_all, simp add: put_lldp_def)
    moreover have "lldp_at (DeviceRepository_destroy d c) = lldp_at c" using gone(3) Some by (simp add: g_def)
    ultimately show ?thesis using Some by (simp add: g_def put_lldp_def)
  qed (simp add: g_def)
  then have v: "SetSyncCallback_this l (?puts g) = Inr v"
    using v by (simp add: LldpRepository_move_assign_def lob ob Let_def flip: c_def)
  from SetSyncCallback_this_Inr [OF v] ne obtain d where d: "lo_repository ob = Some d" by auto
  have g_ob: "lldp_at g other = Some ob" by (simp add: gone(3) c_ob)
  show ?thesis
    using bound_handed_over [OF gone(1,2) ne g_ob d _ _ v] gone(4,5) by (simp add: gone(3))
qed


subsection \<open>Every reachable world is bound\<close>

lemma bound_Reader_move_construct [inv_intros]:
  "bound w \<Longrightarrow> reader_at w r = None \<Longrightarrow> free_reader w other \<Longrightarrow> bound (Reader_move_construct r other w)"
  unfolding Reader_move_construct_def
  by (rule bound_moved_reader) (auto simp: bound_def free_reader_def unknown_reader_not_held)

lemma bound_DeviceReader_move_assign [inv_intros]:
  "bound w \<Longrightarrow> free_reader w r \<Longrightarrow> free_reader w other \<Longrightarrow> r \<noteq> other \<Longrightarrow>
   bound (DeviceReader_move_assign r other w)"
  unfolding DeviceReader_move_assign_def by (rule bound_moved_reader) (simp_all add: free_reader_def)

lemma IpReader_move_assign_none:
  assumes "reader_socket_of w other = None" "r \<noteq> other"
  shows "IpReader_move_assign r other w = DeviceReader_move_assign r other w"
proof -
  have "reader_socket_of (move_reader_members r other w) r = None"
    using assms by (simp add: reader_socket_of_def move_reader_parts)
  then show ?thesis by (simp add: IpReader_move_assign_def DeviceReader_move_assign_def BindReaderSocketCallback_def)
qed

lemma bound_IpReader_move_assign [inv_intros]:
  "bound w \<Longrightarrow> free_reader w r \<Longrightarrow> free_reader w other \<Longrightarrow> r \<noteq> other \<Longrightarrow> reader_socket_of w other = None \<Longrightarrow>
   bound (IpReader_move_assign r other w)"
  by (simp add: IpReader_move_assign_none bound_DeviceReader_move_assign)

lemma bound_binding_step: "binding_step w v \<Longrightarrow> bound w \<Longrightarrow> bound v"
  by (induction rule: binding_step.induct) (blast intro: inv_intros | simp add: inv_intros)+

lemma bound_no_objects: "bound no_objects"
  by (simp add: bound_def sockets_bound_def readers_bound_def repositories_bound_def
      no_objects_def reader_socket_of_def)

lemma binding_reachable_bound: "binding_reachable w \<Longrightarrow> bound w"
  unfolding binding_reachable_def
  by (induction rule: rtranclp_induct) (auto intro: bound_no_objects bound_binding_step)

subsection \<open>The callbacks follow the owners\<close>

inductive_simps owned_by_reader [simp]: "owned_by w (Reader_object r) k"
inductive_simps owned_by_repository [simp]: "owned_by w (Repository_object d) k"
inductive_simps owned_by_lldp [simp]: "owned_by w (Lldp_object l) k"

text \<open>From an object upwards to one that nothing owns.\<close>

definition owner_chain :: "binding_world \<Rightarrow> object_id list \<Rightarrow> bool" where
  "owner_chain w os \<longleftrightarrow> os \<noteq> [] \<and> successively (owned_by w) os \<and> (\<forall>k. \<not> owned_by w (last os) k)"

lemma called_from_bound_repository:
  assumes "bound w" "repository_at w d = Some ob"
  shows "\<exists>os. called_from_repository w d = Inr (Repository_object d # os) \<and>
    owner_chain w (Repository_object d # os)"
proof (cases "repository_held w d")
  case True
  then obtain l lob where l: "lldp_at w l = Some lob" "lo_repository lob = Some d"
    by (auto simp: repository_held_def)
  with assms have "po_sync_target ob = Some l"
    using repositories_boundD(1) [of w l lob d] by (auto simp: bound_def)
  then show ?thesis using assms(2) l by (auto simp: called_from_repository_def owner_chain_def)
next
  case False
  with assms have "po_sync_target ob = None" using repositories_boundD(2) [of w d ob] by (simp add: bound_def)
  then show ?thesis using assms(2) False
    by (auto simp: called_from_repository_def owner_chain_def repository_held_def)
qed

lemma called_from_bound_reader:
  assumes "bound w" "reader_at w r = Some rob"
    and target: "target \<in> {ro_update_target, ro_end_target, ro_errored_target}"
  shows "\<exists>os. called_from_reader target w r = Inr (Reader_object r # os) \<and> owner_chain w (Reader_object r # os)"
proof (cases "reader_held w r")
  case True
  then obtain d ob where d: "repository_at w d = Some ob" "r \<in> set (readers_of ob)"
    by (auto simp: reader_held_def)
  with assms have "targets_are (Some d) rob"
    using readers_boundD(1) [of w d ob r] by (auto simp: bound_def)
  then have "target rob = Some d" using target by (auto simp: targets_are_def)
  moreover from called_from_bound_repository [OF assms(1) d(1)] obtain os where
    "called_from_repository w d = Inr (Repository_object d # os)" "owner_chain w (Repository_object d # os)" by blast
  ultimately show ?thesis using assms(2) d by (auto simp: called_from_reader_def owner_chain_def)
next
  case False
  with assms have "targets_are None rob" using readers_boundD(2) [of w r rob] by (simp add: bound_def)
  then have "target rob = None" using target by (auto simp: targets_are_def)
  then show ?thesis using assms(2) False
    by (auto simp: called_from_reader_def owner_chain_def reader_held_def)
qed

text \<open>C13: After any history of constructions, moves, assignments and destructions of readers and
  repositories, each constructed with the sockets, readers or repository it is to own and assigned from
  another object, a message on a socket that an object holds calls exactly that object, its owner and
  the owner's owner in turn, through whichever callback of a reader; no closure over a destroyed
  object is ever called.  The one operation left out is the assignment from an address reader that
  holds a socket, which breaks this, as is shown below.
\<close>

theorem callbacks_follow_owners:
  assumes "binding_reachable w" and "holds_socket w obj s"
    and "target \<in> {ro_update_target, ro_end_target, ro_errored_target}"
  shows "\<exists>os. called_from_socket target w s = Inr (obj # os) \<and> owner_chain w (obj # os)"
proof -
  from assms(1) have b: "bound w" by (rule binding_reachable_bound)
  show ?thesis
  proof (cases obj)
    case (Reader_object r)
    with assms(2) obtain rob where r: "reader_at w r = Some rob" "reader_socket_of w r = Some s"
      by (cases "reader_at w r") (auto simp: reader_socket_of_def)
    with b have "socket_callback w s = Some (Reader_target r)" by (simp add: bound_def sockets_boundD(1))
    then show ?thesis
      using called_from_bound_reader [OF b r(1) assms(3)] Reader_object by (simp add: called_from_socket_def)
  next
    case (Repository_object d)
    with assms(2) obtain ob where d: "repository_at w d = Some ob" "po_monitor ob = Some s" by auto
    with b have "socket_callback w s = Some (Repository_target d)"
      using sockets_boundD(2) [of w d ob s] by (simp add: bound_def)
    then show ?thesis
      using called_from_bound_repository [OF b d(1)] Repository_object by (simp add: called_from_socket_def)
  qed (use assms(2) in simp)
qed

definition example_world :: binding_world where
  "example_world = DeviceRepository_construct 0 (Some 5) (Some 0) (Some 0) False
     (Reader_construct (Ip_reader_at 0) (Some 7) (Reader_construct (Device_reader_at 0) (Some 6) no_objects))"

lemma binding_reachable_example: "binding_reachable example_world"
proof -
  let ?w1 = "Reader_construct (Device_reader_at 0) (Some 6) no_objects"
  let ?w2 = "Reader_construct (Ip_reader_at 0) (Some 7) ?w1"
  have s1: "binding_step no_objects ?w1"
    by (rule new_reader) (simp_all add: no_objects_def socket_held_def reader_socket_of_def)
  have s2: "binding_step ?w1 ?w2"
    by (rule new_reader) (simp_all add: Reader_construct_parts no_objects_def socket_held_def reader_socket_of_def
        reader_moved_out_def)
  have s3: "binding_step ?w2 example_world"
    unfolding example_world_def
    by (rule new_repository) (simp_all add: Reader_construct_parts no_objects_def socket_held_def
        reader_socket_of_def free_reader_def reader_held_def reader_moved_out_def)
  from s1 have "binding_step\<^sup>*\<^sup>* no_objects ?w1" by (rule r_into_rtranclp)
  from rtranclp.rtrancl_into_rtrancl [OF rtranclp.rtrancl_into_rtrancl [OF this s2] s3]
  show ?thesis unfolding binding_reachable_def .
qed

theorem callbacks_follow_owners_witness:
  "\<exists>os. called_from_socket ro_end_target example_world 7 = Inr (Reader_object (Ip_reader_at 0) # os) \<and>
     owner_chain example_world (Reader_object (Ip_reader_at 0) # os)"
proof (rule callbacks_follow_owners [OF binding_reachable_example])
  let ?w = "Reader_construct (Ip_reader_at 0) (Some 7) (Reader_construct (Device_reader_at 0) (Some 6) no_objects)"
  have "repository_at (put_repository 0 (repository_members (Some 5) (Some 0) (Some 0) False) ?w) 0
    = Some (repository_members (Some 5) (Some 0) (Some 0) False)" by simp
  from BindCallbacks_parts(1) [OF this, of "Ip_reader_at 0"]
  show "holds_socket example_world (Reader_object (Ip_reader_at 0)) 7"
    by (simp add: example_world_def DeviceRepository_construct_def reader_socket_of_def Reader_construct_parts
        reader_moved_out_def)
qed simp

text \<open>C32: Assigning one address reader to another leaves the callback of the socket it takes over on
  the reader it came from: once that one is destroyed, the next message of the kernel runs a member
  of a destroyed object.
\<close>

theorem assigned_address_reader_dangles:
  assumes "reader_socket_of w (Ip_reader_at other) = Some s"
    and "socket_callback w s = Some (Reader_target (Ip_reader_at other))" and "r \<noteq> other"
  shows "let w' = Reader_destroy (Ip_reader_at other)
      (IpReader_move_assign (Ip_reader_at r) (Ip_reader_at other) w)
    in reader_socket_of w' (Ip_reader_at r) = Some s \<and> called_from_socket target w' s = Inl Use_after_free"
proof -
  let ?m = "move_reader_members (Ip_reader_at r) (Ip_reader_at other) w"
  have "reader_socket_of ?m (Ip_reader_at other) = None"
    by (simp add: reader_socket_of_def move_reader_parts reader_moved_out_def)
  then show ?thesis
    using assms by (simp add: IpReader_move_assign_def Reader_destroy_parts reader_socket_of_def
        move_reader_parts called_from_socket_def called_from_reader_def Let_def)
qed

theorem assigned_address_reader_dangles_witness:
  "let w = Reader_construct (Ip_reader_at 2) (Some 7) (Reader_construct (Ip_reader_at 1) (Some 6) no_objects);
       w' = Reader_destroy (Ip_reader_at 2) (IpReader_move_assign (Ip_reader_at 1) (Ip_reader_at 2) w)
   in reader_socket_of w' (Ip_reader_at 1) = Some 7 \<and> called_from_socket ro_update_target w' 7 = Inl Use_after_free"
  unfolding Let_def
  by (rule assigned_address_reader_dangles [unfolded Let_def])
    (simp_all add: Reader_construct_parts reader_socket_of_def reader_moved_out_def)

end
