(* ===== verification/Service_Creation.thy ===== *)
theory Service_Creation
  imports Callback_Binding
begin

section \<open>Creating the service's sockets, readers and repositories\<close>

text \<open>
  The \<open>Create\<close> functions of \<open>netlink_monitor.cc\<close>, \<open>device_reader.cc\<close>, \<open>ip_reader.cc\<close>,
  \<open>device_repository.cc\<close> and \<open>lldp_repository.cc\<close>, composed as the server composes them.  Each makes
  its object as a temporary, moves it to where it stays and destroys the temporary, and gives up
  what it has made so far when a step fails.  In the address space of each class a temporary is at
  0, the object made from it at 1, and the repository of \<open>main\<close> at 2.
\<close>

text \<open>
  What the kernel and the event manager answer when a netlink socket is made: the results of
  \<open>socket\<close> and \<open>bind\<close> with the \<open>errno\<close> of their failure, the address the allocator gives, and the
  result of \<open>EventManager::Add\<close>.
\<close>

record socket_answers =
  sa_socket :: int
  sa_socket_errno :: int
  sa_bind :: int
  sa_bind_errno :: int
  sa_address :: nat
  sa_add :: "int + u64"

definition NetlinkSocket_Create :: "socket_answers \<Rightarrow> binding_world \<Rightarrow> (int + nat) \<times> binding_world" where
  "NetlinkSocket_Create a w =
     (if sa_socket a < 0 then (Inl (sa_socket_errno a), w)
      else if sa_bind a < 0 then (Inl (sa_bind_errno a), close_socket (sa_socket a) w)
      else (Inr (sa_address a), ClearCallback (sa_address a) w))"

definition DeviceReader_Create :: "socket_answers \<Rightarrow> binding_world \<Rightarrow> (int + nat) \<times> binding_world" where
  "DeviceReader_Create a w =
     (case NetlinkSocket_Create a w of (Inl err, w) \<Rightarrow> (Inl err, w)
      | (Inr device_socket, w) \<Rightarrow>
        (case sa_add a of Inl err \<Rightarrow> (Inl err, w)
         | Inr _ \<Rightarrow>
           let w = Reader_construct (Device_reader_at 0) (Some device_socket) w;
               w = Reader_move_construct (Device_reader_at 1) (Device_reader_at 0) w
           in (Inr 1, Reader_destroy (Device_reader_at 0) w)))"

definition IpReader_Create :: "socket_answers \<Rightarrow> binding_world \<Rightarrow> (int + nat) \<times> binding_world" where
  "IpReader_Create a w =
     (case NetlinkSocket_Create a w of (Inl err, w) \<Rightarrow> (Inl err, w)
      | (Inr netlink_socket, w) \<Rightarrow>
        (case sa_add a of Inl err \<Rightarrow> (Inl err, w)
         | Inr _ \<Rightarrow>
           let w = Reader_construct (Ip_reader_at 0) (Some netlink_socket) w;
               w = Reader_move_construct (Ip_reader_at 1) (Ip_reader_at 0) w
           in (Inr 1, Reader_destroy (Ip_reader_at 0) w)))"

text \<open>The answers for the monitor, the device reader and the address reader, in this order.\<close>

type_synonym three_sockets = "socket_answers \<times> socket_answers \<times> socket_answers"

definition DeviceRepository_Create ::
  "three_sockets \<Rightarrow> bool \<Rightarrow> binding_world \<Rightarrow> (int + nat) \<times> binding_world" where
  "DeviceRepository_Create = (\<lambda>(m, d, i) verbose w.
     (case NetlinkSocket_Create m w of (Inl err, w) \<Rightarrow> (Inl err, w)
      | (Inr monitor_socket, w) \<Rightarrow>
        (case sa_add m of Inl err \<Rightarrow> (Inl err, w)
         | Inr _ \<Rightarrow>
           (case DeviceReader_Create d w of (Inl err, w) \<Rightarrow> (Inl err, w)
            | (Inr dr, w) \<Rightarrow>
              (case IpReader_Create i w of
                 (Inl err, w) \<Rightarrow> (Inl err, Reader_destroy (Device_reader_at dr) w)
               | (Inr ir, w) \<Rightarrow>
                 let w = DeviceRepository_construct 0 (Some monitor_socket) (Some dr) (Some ir) verbose w;
                     w = DeviceRepository_move_construct 1 0 w
                 in (Inr 1, DeviceRepository_destroy 0 w))))))"

text \<open>The last arguments are the result of \<open>socket\<close> for the packet socket and its \<open>errno\<close>.\<close>

definition LldpRepository_Create ::
  "three_sockets \<Rightarrow> bool \<Rightarrow> int \<Rightarrow> int \<Rightarrow> binding_world \<Rightarrow> ((int + nat) \<times> binding_world) cpp" where
  "LldpRepository_Create sockets verbose eth_fd err w =
     (case DeviceRepository_Create sockets verbose w of (Inl err, w) \<Rightarrow> Inr (Inl err, w)
      | (Inr d, w) \<Rightarrow>
        if eth_fd < 0 then Inr (Inl err, DeviceRepository_destroy d w)
        else bind_cpp (LldpRepository_construct 0 eth_fd (Some d) w) (\<lambda>w.
             bind_cpp (LldpRepository_move_construct 1 0 w) (\<lambda>w. Inr (Inr 1, LldpRepository_destroy 0 w))))"

text \<open>\<open>unwrapOrLog\<close> moves the value out of its parameter; with an error the program exits.\<close>

definition main_repository ::
  "three_sockets \<Rightarrow> bool \<Rightarrow> int \<Rightarrow> int \<Rightarrow> binding_world \<Rightarrow> ((int + nat) \<times> binding_world) cpp" where
  "main_repository sockets verbose eth_fd err w =
     bind_cpp (LldpRepository_Create sockets verbose eth_fd err w) (\<lambda>(result, w).
       case result of Inl err \<Rightarrow> Inr (Inl err, w)
       | Inr l \<Rightarrow> bind_cpp (LldpRepository_move_construct 2 l w) (\<lambda>w. Inr (Inr 2, LldpRepository_destroy l w)))"

subsection \<open>What is created\<close>

definition answers_ok :: "socket_answers \<Rightarrow> bool" where
  "answers_ok a \<longleftrightarrow> 0 \<le> sa_socket a \<and> 0 \<le> sa_bind a \<and> (\<exists>h. sa_add a = Inr h)"

lemma NetlinkSocket_Create_ok:
  "answers_ok a \<Longrightarrow> NetlinkSocket_Create a w = (Inr (sa_address a), ClearCallback (sa_address a) w)"
  by (simp add: NetlinkSocket_Create_def answers_ok_def)

definition reader_with :: "nat \<Rightarrow> reader_object" where
  "reader_with s = reader_moved_out\<lparr>ro_socket := Some s\<rparr>"

lemma made_reader:
  assumes "r \<noteq> t"
  shows "Reader_destroy t (Reader_move_construct r t (Reader_construct t (Some s) w))
    = w\<lparr>socket_callback := (socket_callback w)(s \<mapsto> Reader_target r),
        reader_at := (reader_at w)(r \<mapsto> reader_with s, t := None)\<rparr>"
  using assms
  by (simp add: Reader_destroy_def Reader_move_construct_def Reader_construct_def BindReaderSocketCallback_def
      move_reader_members_def reader_socket_of_def SetCallback_def reader_with_def reader_moved_out_def
      fun_upd_twist)

lemma DeviceReader_Create_ok:
  "answers_ok a \<Longrightarrow> DeviceReader_Create a w = (Inr 1,
     w\<lparr>socket_callback := (socket_callback w)(sa_address a \<mapsto> Reader_target (Device_reader_at 1)),
       reader_at := (reader_at w)(Device_reader_at 1 \<mapsto> reader_with (sa_address a), Device_reader_at 0 := None)\<rparr>)"
  by (simp add: DeviceReader_Create_def NetlinkSocket_Create_ok)
    (auto simp: answers_ok_def made_reader Let_def ClearCallback_def)

lemma IpReader_Create_ok:
  "answers_ok a \<Longrightarrow> IpReader_Create a w = (Inr 1,
     w\<lparr>socket_callback := (socket_callback w)(sa_address a \<mapsto> Reader_target (Ip_reader_at 1)),
       reader_at := (reader_at w)(Ip_reader_at 1 \<mapsto> reader_with (sa_address a), Ip_reader_at 0 := None)\<rparr>)"
  by (simp add: IpReader_Create_def NetlinkSocket_Create_ok)
    (auto simp: answers_ok_def made_reader Let_def ClearCallback_def)

text \<open>The world once everything is made and moved, with the repository of \<open>main\<close> at \<open>l\<close>.\<close>

definition connected :: "nat \<Rightarrow> nat \<Rightarrow> nat \<Rightarrow> nat \<Rightarrow> bool \<Rightarrow> binding_world" where
  "connected ms ds is d verbose =
     \<lparr>socket_callback = [ms \<mapsto> Repository_target d, ds \<mapsto> Reader_target (Device_reader_at 1),
        is \<mapsto> Reader_target (Ip_reader_at 1)],
      reader_at = [Device_reader_at 1 \<mapsto> targets_set (Some d) (reader_with ds),
        Ip_reader_at 1 \<mapsto> targets_set (Some d) (reader_with is)],
      repository_at = [d \<mapsto> repository_members (Some ms) (Some 1) (Some 1) verbose],
      lldp_at = Map.empty, closed_sockets = []\<rparr>"

text \<open>A world with the three netlink objects and nothing else.\<close>

definition unconnected :: "nat \<Rightarrow> nat \<Rightarrow> nat \<Rightarrow> binding_world" where
  "unconnected ms ds is =
     \<lparr>socket_callback = [ds \<mapsto> Reader_target (Device_reader_at 1), is \<mapsto> Reader_target (Ip_reader_at 1)],
      reader_at = [Device_reader_at 1 \<mapsto> reader_with ds, Ip_reader_at 1 \<mapsto> reader_with is],
      repository_at = Map.empty, lldp_at = Map.empty, closed_sockets = []\<rparr>"

lemma constructed_repository:
  assumes "ms \<noteq> ds" "ms \<noteq> is" "ds \<noteq> is"
  shows "DeviceRepository_construct d (Some ms) (Some 1) (Some 1) verbose (unconnected ms ds is)
    = connected ms ds is d verbose"
  using assms
  by (simp add: DeviceRepository_construct_def BindCallbacks_def put_repository_def readers_of_def
      set_targets_def SetCallback_def unconnected_def connected_def repository_members_def)
    (auto simp: fun_eq_iff)

lemma moved_repository:
  assumes "d \<noteq> e" "ms \<noteq> ds" "ms \<noteq> is" "ds \<noteq> is"
  shows "DeviceRepository_destroy d (DeviceRepository_move_construct e d (connected ms ds is d verbose))
    = connected ms ds is e verbose"
  using assms
  by (simp add: DeviceRepository_move_construct_def DeviceRepository_destroy_def BindCallbacks_def
      ClearCallbacks_def put_repository_def readers_of_def repository_moved_out_def Let_def
      set_targets_def SetCallback_def connected_def repository_members_def)
    (auto simp: fun_eq_iff)

lemma created_repository:
  assumes "answers_ok m" "answers_ok d" "answers_ok i"
    and "distinct [sa_address m, sa_address d, sa_address i]"
  shows "DeviceRepository_Create (m, d, i) verbose no_objects
    = (Inr 1, connected (sa_address m) (sa_address d) (sa_address i) 1 verbose)"
proof -
  let ?w = "unconnected (sa_address m) (sa_address d) (sa_address i)"
  obtain v where v: "DeviceReader_Create d (ClearCallback (sa_address m) no_objects) = (Inr 1, v)"
    "IpReader_Create i v = (Inr 1, ?w)"
    using assms(4) by (simp add: DeviceReader_Create_ok IpReader_Create_ok assms(2,3) ClearCallback_def no_objects_def
        unconnected_def)
  moreover obtain h where "sa_add m = Inr h" using assms(1) by (auto simp: answers_ok_def)
  ultimately show ?thesis
    using assms(4) constructed_repository [of "sa_address m" "sa_address d" "sa_address i" 0 verbose]
      moved_repository [of 0 1 "sa_address m" "sa_address d" "sa_address i" verbose]
    by (simp add: DeviceRepository_Create_def NetlinkSocket_Create_ok assms(1) Let_def del: One_nat_def)
qed


definition service :: "nat \<Rightarrow> nat \<Rightarrow> nat \<Rightarrow> int \<Rightarrow> nat \<Rightarrow> bool \<Rightarrow> binding_world" where
  "service ms ds is eth l verbose = (set_sync_target (Some l) 1 (connected ms ds is 1 verbose))
     \<lparr>lldp_at := [l \<mapsto> \<lparr>lo_socket = eth, lo_current_state = [], lo_repository = Some 1\<rparr>]\<rparr>"

lemma constructed_service:
  "LldpRepository_construct l eth (Some 1) (connected ms ds is 1 verbose) = Inr (service ms ds is eth l verbose)"
  by (simp add: LldpRepository_construct_def SetSyncCallback_this_def put_lldp_def set_sync_target_def
      connected_def service_def)

lemma moved_service:
  assumes "l \<noteq> k"
  shows "bind_cpp (LldpRepository_move_construct k l (service ms ds is eth l verbose))
      (\<lambda>w. Inr (LldpRepository_destroy l w)) = Inr (service ms ds is eth k verbose)"
  using assms
  by (simp add: LldpRepository_move_construct_def SetSyncCallback_this_def put_lldp_def set_sync_target_def
      connected_def service_def LldpRepository_destroy_def close_socket_def Let_def)

lemma moved_service_then:
  assumes "l \<noteq> k"
  shows "bind_cpp (LldpRepository_move_construct k l (service ms ds is eth l verbose))
      (\<lambda>w. Inr (x, LldpRepository_destroy l w)) = Inr (x, service ms ds is eth k verbose)"
  using moved_service [OF assms, of ms ds "is" eth verbose] by auto

lemma main_repository_made:
  assumes "answers_ok m" "answers_ok d" "answers_ok i"
    and "distinct [sa_address m, sa_address d, sa_address i]" "0 \<le> eth_fd"
  shows "main_repository (m, d, i) verbose eth_fd err no_objects
    = Inr (Inr 2, service (sa_address m) (sa_address d) (sa_address i) eth_fd 2 verbose)"
proof -
  let ?w = "\<lambda>l. service (sa_address m) (sa_address d) (sa_address i) eth_fd l verbose"
  have "LldpRepository_Create (m, d, i) verbose eth_fd err no_objects = Inr (Inr 1, ?w 1)"
    using assms(5) moved_service_then [of 0 1]
    by (simp add: LldpRepository_Create_def created_repository [OF assms(1-4)] constructed_service
        del: One_nat_def bind_cpp_eq_Inr)
  then show ?thesis
    using moved_service_then [of 1 2] by (simp add: main_repository_def del: One_nat_def bind_cpp_eq_Inr)
qed

text \<open>Which sockets' messages reach which objects in it.\<close>

lemma service_calls:
  assumes "ms \<noteq> ds" "ms \<noteq> is" "ds \<noteq> is" and "target \<in> {ro_update_target, ro_end_target, ro_errored_target}"
  shows "called_from_socket target (service ms ds is eth l verbose) ms = Inr [Repository_object 1, Lldp_object l]"
    and "called_from_socket target (service ms ds is eth l verbose) ds
       = Inr [Reader_object (Device_reader_at 1), Repository_object 1, Lldp_object l]"
    and "called_from_socket target (service ms ds is eth l verbose) is
       = Inr [Reader_object (Ip_reader_at 1), Repository_object 1, Lldp_object l]"
  using assms
  by (auto simp: called_from_socket_def called_from_reader_def called_from_repository_def
      service_def connected_def set_sync_target_def repository_members_def)

text \<open>C15: When every system call and registration succeeds, the server's repository is made without
  undefined behaviour and ends up at its place in \<open>main\<close> with the temporaries gone: a message on the
  monitor, the device or the address socket calls the reader of that socket, the device repository
  and the repository of \<open>main\<close>, in this order.
\<close>

theorem created_service_is_connected:
  assumes "answers_ok m" and "answers_ok d" and "answers_ok i"
    and "distinct [sa_address m, sa_address d, sa_address i]" and "0 \<le> eth_fd"
    and "target \<in> {ro_update_target, ro_end_target, ro_errored_target}"
  shows "\<exists>w. main_repository (m, d, i) verbose eth_fd err no_objects = Inr (Inr 2, w) \<and>
    called_from_socket target w (sa_address m) = Inr [Repository_object 1, Lldp_object 2] \<and>
    called_from_socket target w (sa_address d)
      = Inr [Reader_object (Device_reader_at 1), Repository_object 1, Lldp_object 2] \<and>
    called_from_socket target w (sa_address i)
      = Inr [Reader_object (Ip_reader_at 1), Repository_object 1, Lldp_object 2] \<and>
    dom (reader_at w) = {Device_reader_at 1, Ip_reader_at 1} \<and> dom (repository_at w) = {1} \<and>
    dom (lldp_at w) = {2} \<and> closed_sockets w = []"
proof -
  let ?w = "\<lambda>l. service (sa_address m) (sa_address d) (sa_address i) eth_fd l verbose"
  have "main_repository (m, d, i) verbose eth_fd err no_objects = Inr (Inr 2, ?w 2)"
    by (rule main_repository_made [OF assms(1-5)])
  moreover have "dom (reader_at (?w 2)) = {Device_reader_at 1, Ip_reader_at 1}" "dom (repository_at (?w 2)) = {1}"
    "dom (lldp_at (?w 2)) = {2}" "closed_sockets (?w 2) = []"
    by (auto simp: service_def connected_def set_sync_target_def)
  ultimately show ?thesis
    using service_calls [of "sa_address m" "sa_address d" "sa_address i" target eth_fd 2 verbose] assms(4,6) by auto
qed

definition example_answers :: "nat \<Rightarrow> socket_answers" where
  "example_answers n = \<lparr>sa_socket = int n, sa_socket_errno = 0, sa_bind = 0, sa_bind_errno = 0,
     sa_address = n, sa_add = Inr 1\<rparr>"

theorem created_service_is_connected_witness:
  "\<exists>w. main_repository (example_answers 5, example_answers 6, example_answers 7) False 8 0 no_objects
      = Inr (Inr 2, w) \<and>
    called_from_socket ro_update_target w 6
      = Inr [Reader_object (Device_reader_at 1), Repository_object 1, Lldp_object 2]"
  using created_service_is_connected [of "example_answers 5" "example_answers 6" "example_answers 7" 8 ro_update_target
      False 0]
  by (auto simp: answers_ok_def example_answers_def)

text \<open>The error of the first call or registration that fails, in the order of the calls.\<close>

definition socket_error :: "socket_answers \<Rightarrow> int option" where
  "socket_error a = (if sa_socket a < 0 then Some (sa_socket_errno a)
     else if sa_bind a < 0 then Some (sa_bind_errno a)
     else case sa_add a of Inl e \<Rightarrow> Some e | Inr _ \<Rightarrow> None)"

definition first_error :: "three_sockets \<Rightarrow> int \<Rightarrow> int \<Rightarrow> int option" where
  "first_error = (\<lambda>(m, d, i) eth_fd err.
     (case socket_error m of Some e \<Rightarrow> Some e | None \<Rightarrow>
     (case socket_error d of Some e \<Rightarrow> Some e | None \<Rightarrow>
     (case socket_error i of Some e \<Rightarrow> Some e | None \<Rightarrow> if eth_fd < 0 then Some err else None))))"

lemma socket_error_None: "socket_error a = None \<longleftrightarrow> answers_ok a"
  by (auto simp: socket_error_def answers_ok_def split: sum.splits)

text \<open>No reader or repository lives, and no socket holds a callback.\<close>

definition nothing_lives :: "binding_world \<Rightarrow> bool" where
  "nothing_lives w \<longleftrightarrow> reader_at w = Map.empty \<and> repository_at w = Map.empty \<and> lldp_at w = Map.empty \<and>
     socket_callback w = Map.empty"

lemma NetlinkSocket_Create_fails:
  assumes "socket_error a = Some e" "nothing_lives w"
  shows "(\<exists>v. NetlinkSocket_Create a w = (Inl e, v) \<and> nothing_lives v) \<or>
    (\<exists>v. NetlinkSocket_Create a w = (Inr (sa_address a), v) \<and> sa_add a = Inl e \<and> nothing_lives v)"
  using assms
  by (auto simp: socket_error_def NetlinkSocket_Create_def close_socket_def ClearCallback_def nothing_lives_def
      split: if_splits sum.splits)

lemma DeviceReader_Create_fails:
  assumes "socket_error a = Some e" "nothing_lives w"
  shows "\<exists>v. DeviceReader_Create a w = (Inl e, v) \<and> nothing_lives v"
  using NetlinkSocket_Create_fails [OF assms] by (auto simp: DeviceReader_Create_def)

lemma IpReader_Create_fails:
  assumes "socket_error a = Some e"
  shows "\<exists>v. IpReader_Create a w = (Inl e, v) \<and> reader_at v = reader_at w \<and>
    repository_at v = repository_at w \<and> lldp_at v = lldp_at w \<and>
    (\<forall>s. socket_callback v s = None \<or> socket_callback v s = socket_callback w s)"
  using assms
  by (auto simp: IpReader_Create_def socket_error_def NetlinkSocket_Create_def close_socket_def ClearCallback_def
      split: if_splits sum.splits)

lemma DeviceRepository_Create_fails:
  assumes "socket_error m = Some e \<or> answers_ok m \<and> (socket_error d = Some e \<or> answers_ok d \<and> socket_error i = Some e)"
  shows "\<exists>v. DeviceRepository_Create (m, d, i) verbose no_objects = (Inl e, v) \<and> nothing_lives v"
proof -
  have start: "nothing_lives no_objects" "nothing_lives (ClearCallback (sa_address m) no_objects)"
    by (simp_all add: nothing_lives_def no_objects_def ClearCallback_def)
  consider "socket_error m = Some e" | "answers_ok m" "socket_error d = Some e"
    | "answers_ok m" "answers_ok d" "socket_error i = Some e" using assms by blast
  then show ?thesis
  proof cases
    case 1
    then show ?thesis
      using NetlinkSocket_Create_fails [OF 1 start(1)] by (auto simp: DeviceRepository_Create_def)
  next
    case 2
    then show ?thesis
      using DeviceReader_Create_fails [OF 2(2) start(2)]
      by (auto simp: DeviceRepository_Create_def NetlinkSocket_Create_ok answers_ok_def)
  next
    case 3
    obtain v where v: "DeviceReader_Create d (ClearCallback (sa_address m) no_objects) = (Inr 1, v)"
      "reader_at v = [Device_reader_at 1 \<mapsto> reader_with (sa_address d)]" "repository_at v = Map.empty"
      "lldp_at v = Map.empty" "socket_callback v = [sa_address d \<mapsto> Reader_target (Device_reader_at 1)]"
      by (simp add: DeviceReader_Create_ok 3(2) ClearCallback_def no_objects_def)
    from IpReader_Create_fails [OF 3(3), of v] obtain u where
      u: "IpReader_Create i v = (Inl e, u)" "reader_at u = reader_at v" "repository_at u = repository_at v"
        "lldp_at u = lldp_at v" and calls: "\<And>s. socket_callback u s = None \<or> socket_callback u s = socket_callback v s" by blast
    have "socket_callback (Reader_destroy (Device_reader_at 1) u) s = None" for s
      using calls [of s] by (auto simp: Reader_destroy_parts reader_socket_of_def u v reader_with_def)
    then have "nothing_lives (Reader_destroy (Device_reader_at 1) u)"
      using u by (auto simp: nothing_lives_def Reader_destroy_parts v fun_eq_iff)
    moreover obtain h where "sa_add m = Inr h" using 3(1) by (auto simp: answers_ok_def)
    ultimately show ?thesis
      using u(1) v(1) 3(1) by (simp add: DeviceRepository_Create_def NetlinkSocket_Create_ok)
  qed
qed

text \<open>C16: When a call or registration fails, creation returns the error of the first one that does; no
  reader or repository made on the way survives, no socket is left with a callback, and no undefined
  behaviour occurs.
\<close>

theorem failed_creation_leaves_nothing:
  assumes "first_error (m, d, i) eth_fd err = Some e"
    and "distinct [sa_address m, sa_address d, sa_address i]"
  shows "\<exists>w. main_repository (m, d, i) verbose eth_fd err no_objects = Inr (Inl e, w) \<and> nothing_lives w"
proof (cases "answers_ok m \<and> answers_ok d \<and> answers_ok i")
  case True
  then have "eth_fd < 0" "err = e" using assms(1)
    by (auto simp: first_error_def simp flip: socket_error_None split: if_splits)
  moreover have "nothing_lives (DeviceRepository_destroy 1
      (connected (sa_address m) (sa_address d) (sa_address i) 1 verbose))"
  proof -
    let ?w = "connected (sa_address m) (sa_address d) (sa_address i) 1 verbose"
    have o: "repository_at ?w 1 = Some (repository_members (Some (sa_address m)) (Some 1) (Some 1) verbose)"
      by (simp add: connected_def)
    show ?thesis
      unfolding nothing_lives_def fun_eq_iff DeviceRepository_destroy_parts [OF o]
      by (simp add: connected_def reader_socket_of_def reader_with_def readers_of_def repository_members_def)
  qed
  ultimately show ?thesis
    using created_repository [OF _ _ _ assms(2), of verbose] True
    by (simp add: main_repository_def LldpRepository_Create_def del: One_nat_def)
next
  case False
  have "socket_error m = Some e \<or> answers_ok m \<and> (socket_error d = Some e \<or> answers_ok d \<and> socket_error i = Some e)"
    using assms(1) False by (auto simp: first_error_def simp flip: socket_error_None split: option.splits)
  from DeviceRepository_Create_fails [OF this, of verbose] show ?thesis
    by (auto simp: main_repository_def LldpRepository_Create_def)
qed

theorem failed_creation_leaves_nothing_witness:
  "\<exists>w. main_repository (example_answers 5, example_answers 6, (example_answers 7)\<lparr>sa_add := Inl 12\<rparr>) False 8 0
      no_objects = Inr (Inl 12, w) \<and> nothing_lives w"
  by (rule failed_creation_leaves_nothing) (simp_all add: first_error_def socket_error_def example_answers_def)

end
