(* ===== verification/Service_Lock.thy ===== *)
theory Service_Lock
  imports Platform
begin

section \<open>One service at a time\<close>

text \<open>
  \<open>ClientListenSocket::Create\<close> is what should keep a second service from starting: it locks the file
  \<open>/run/ndisc/ndisc.lock\<close> and then puts its socket at \<open>/run/ndisc/ndisc.sock\<close>.  Both are held by
  \<open>DeletingOwnedFileDescriptor\<close> objects, which remove the file of their path when they are destroyed.
  The directory has the two names, each with the file (inode) it leads to; a lock belongs to the
  file, not to the name.  The results of the system calls that can fail for other reasons are
  parameters: zero or \<open>errno\<close>.
\<close>

definition EWOULDBLOCK :: int where "EWOULDBLOCK = 11"

record run_directory =
  lock_name :: "nat option"    \<comment> \<open>the file \<open>SOCKET_LOCK\<close> leads to\<close>
  socket_name :: "nat option"  \<comment> \<open>the socket \<open>SOCKET_PATH\<close> leads to\<close>
  locked :: "nat list"         \<comment> \<open>the files that are locked, each by the service that holds it\<close>
  next_inode :: nat

record call_results =
  open_errno :: int
  flock_errno :: int  \<comment> \<open>of a file that is not locked\<close>
  socket_errno :: int
  bind_errno :: int
  listen_errno :: int

text \<open>A service that runs: the lock file and the socket it holds.\<close>

record ClientListenSocket =
  lock_socket :: nat
  listener_socket :: nat

text \<open>\<open>open\<close> with \<open>O_CREAT\<close>, and \<open>bind\<close>, which needs the name to be free.\<close>

definition open_lock :: "run_directory \<Rightarrow> nat \<times> run_directory" where
  "open_lock d =
     (case lock_name d of Some i \<Rightarrow> (i, d)
      | None \<Rightarrow> (next_inode d, d\<lparr>lock_name := Some (next_inode d), next_inode := next_inode d + 1\<rparr>))"

definition bind_socket :: "run_directory \<Rightarrow> nat \<times> run_directory" where
  "bind_socket d = (next_inode d, d\<lparr>socket_name := Some (next_inode d), next_inode := next_inode d + 1\<rparr>)"

text \<open>The destructors of the two members: the name is removed, and closing a file releases its lock.\<close>

definition destroy_lock_socket :: "run_directory \<Rightarrow> run_directory" where
  "destroy_lock_socket d = d\<lparr>lock_name := None\<rparr>"

definition close_lock :: "nat \<Rightarrow> run_directory \<Rightarrow> run_directory" where
  "close_lock i d = d\<lparr>locked := filter (\<lambda>j. j \<noteq> i) (locked d)\<rparr>"

definition destroy_listener :: "run_directory \<Rightarrow> run_directory" where
  "destroy_listener d = d\<lparr>socket_name := None\<rparr>"

text \<open>\<open>createDataSocket\<close>, which begins by removing the name of the socket.\<close>

definition createDataSocket :: "call_results \<Rightarrow> run_directory \<Rightarrow> (int + nat) \<times> run_directory" where
  "createDataSocket r d =
     (let d = d\<lparr>socket_name := None\<rparr>
      in if socket_errno r \<noteq> 0 then (Inl (socket_errno r), d)
         else if bind_errno r \<noteq> 0 then (Inl (bind_errno r), d)
         else case bind_socket d of (s, d) \<Rightarrow>
           if listen_errno r \<noteq> 0 then (Inl (listen_errno r), destroy_listener d) else (Inr s, d))"

definition ClientListenSocket_Create ::
  "call_results \<Rightarrow> run_directory \<Rightarrow> (int + ClientListenSocket) \<times> run_directory" where
  "ClientListenSocket_Create r d =
     (if open_errno r \<noteq> 0 then (Inl (open_errno r), d)
      else case open_lock d of (lock, d) \<Rightarrow>
        if lock \<in> set (locked d) then (Inl EWOULDBLOCK, destroy_lock_socket d)
        else if flock_errno r \<noteq> 0 then (Inl (flock_errno r), destroy_lock_socket d)
        else
          let d = d\<lparr>locked := lock # locked d\<rparr>
          in case createDataSocket r d of
               (Inl err, d) \<Rightarrow> (Inl err, close_lock lock (destroy_lock_socket d))
             | (Inr s, d) \<Rightarrow> (Inr \<lparr>lock_socket = lock, listener_socket = s\<rparr>, d))"

definition ClientListenSocket_destroy :: "ClientListenSocket \<Rightarrow> run_directory \<Rightarrow> run_directory" where
  "ClientListenSocket_destroy c d =
     close_lock (lock_socket c) (destroy_lock_socket (destroy_listener d))"

text \<open>The socket a client that connects reaches.\<close>

definition reached_socket :: "run_directory \<Rightarrow> nat option" where
  "reached_socket d = socket_name d"

subsection \<open>Histories\<close>

text \<open>Files in use have numbers below the next one.\<close>

definition directory_ok :: "run_directory \<Rightarrow> bool" where
  "directory_ok d \<longleftrightarrow> (\<forall>i. lock_name d = Some i \<longrightarrow> i < next_inode d) \<and>
     (\<forall>i. socket_name d = Some i \<longrightarrow> i < next_inode d) \<and> (\<forall>i \<in> set (locked d). i < next_inode d)"

lemma Create_started:
  assumes "directory_ok d" "ClientListenSocket_Create r d = (Inr c, d')"
  shows "lock_name d' = Some (lock_socket c)" "socket_name d' = Some (listener_socket c)"
    "locked d' = lock_socket c # locked d" "lock_socket c \<notin> set (locked d)"
    "lock_socket c < next_inode d'" "listener_socket c < next_inode d'" "\<forall>i \<in> set (locked d). i < next_inode d'"
  using assms
  by (auto simp: ClientListenSocket_Create_def createDataSocket_def open_lock_def bind_socket_def Let_def
      directory_ok_def split: if_splits option.splits prod.splits sum.splits)

lemma Create_refused:
  assumes "lock_name d = Some i" "i \<in> set (locked d)" "open_errno r = 0"
  shows "ClientListenSocket_Create r d = (Inl EWOULDBLOCK, d\<lparr>lock_name := None\<rparr>)"
  using assms by (simp add: ClientListenSocket_Create_def open_lock_def destroy_lock_socket_def)

definition all_calls_succeed :: call_results where
  "all_calls_succeed = \<lparr>open_errno = 0, flock_errno = 0, socket_errno = 0, bind_errno = 0, listen_errno = 0\<rparr>"

lemma Create_without_lock_file:
  assumes "lock_name d = None" "next_inode d \<notin> set (locked d)"
  shows "ClientListenSocket_Create all_calls_succeed d =
     (Inr \<lparr>lock_socket = next_inode d, listener_socket = next_inode d + 1\<rparr>,
      d\<lparr>lock_name := Some (next_inode d), socket_name := Some (next_inode d + 1),
        locked := next_inode d # locked d, next_inode := next_inode d + 2\<rparr>)"
  using assms
  by (simp add: ClientListenSocket_Create_def createDataSocket_def open_lock_def bind_socket_def Let_def
      all_calls_succeed_def)

subsection \<open>Properties\<close>

text \<open>C26: While a service runs, the next one that starts is refused; but on its way out it removes the
  lock file of the first, so that the one after it starts beside the first: both hold a lock, on
  different files, and the clients that connect from then on reach only the second service.\<close>
theorem refused_start_defeats_the_lock:
  assumes "directory_ok d" and "ClientListenSocket_Create r1 d = (Inr first, d1)" and "open_errno r2 = 0"
  shows "\<exists>d2 d3 second. ClientListenSocket_Create r2 d1 = (Inl EWOULDBLOCK, d2) \<and> lock_name d2 = None \<and>
    ClientListenSocket_Create all_calls_succeed d2 = (Inr second, d3) \<and>
    lock_socket first \<noteq> lock_socket second \<and> {lock_socket first, lock_socket second} \<subseteq> set (locked d3) \<and>
    reached_socket d1 = Some (listener_socket first) \<and> reached_socket d3 = Some (listener_socket second) \<and>
    listener_socket first \<noteq> listener_socket second"
proof -
  note first = Create_started [OF assms(1,2)]
  let ?d2 = "d1\<lparr>lock_name := None\<rparr>"
  have "ClientListenSocket_Create r2 d1 = (Inl EWOULDBLOCK, ?d2)"
    using first(1,3) assms(3) by (intro Create_refused) auto
  moreover have "next_inode ?d2 \<notin> set (locked ?d2)" using first(3,5,7) by auto
  ultimately show ?thesis
    using Create_without_lock_file [of ?d2] first(1-3,5,6) by (auto simp: reached_socket_def)
qed

theorem refused_start_defeats_the_lock_witness:
  "\<exists>d2 d3 second. ClientListenSocket_Create all_calls_succeed
       \<lparr>lock_name = Some 0, socket_name = Some 1, locked = [0], next_inode = 2\<rparr> = (Inl EWOULDBLOCK, d2) \<and>
     ClientListenSocket_Create all_calls_succeed d2 = (Inr second, d3) \<and> {0, lock_socket second} \<subseteq> set (locked d3) \<and>
     reached_socket d3 = Some (listener_socket second) \<and> lock_socket second \<noteq> 0"
proof -
  let ?d = "\<lparr>lock_name = None, socket_name = None, locked = [], next_inode = 0\<rparr>"
  have "ClientListenSocket_Create all_calls_succeed ?d = (Inr \<lparr>lock_socket = 0, listener_socket = 1\<rparr>,
      \<lparr>lock_name = Some 0, socket_name = Some 1, locked = [0], next_inode = 2\<rparr>)" by code_simp
  moreover have "directory_ok ?d" by (simp add: directory_ok_def)
  moreover have "open_errno all_calls_succeed = 0" by (simp add: all_calls_succeed_def)
  ultimately show ?thesis using refused_start_defeats_the_lock by fastforce
qed

end
