(* ===== verification/Owned_File_Descriptor.thy ===== *)
theory Owned_File_Descriptor
  imports Prelude
begin

section \<open>Ownership of descriptors\<close>

text \<open>
  \<open>owned_file_descriptor.cc\<close>: objects that own a descriptor, close it when they are destroyed or
  assigned to, and pass it on when they are moved; the deleting kind also removes the file of its
  path.  Objects are addressed by numbers; what the operating system is asked is logged, the
  newest entry first.
\<close>

datatype fd_object =
  OwnedFileDescriptor (fd: int)
| DeletingOwnedFileDescriptor (fd: int) (path: string)

datatype os_entry = Opened int | Closed int | Unlinked string

record fd_state =
  objects :: "nat \<rightharpoonup> fd_object"
  os_log :: "os_entry list"

definition IsValid :: "fd_object \<Rightarrow> bool" where
  "IsValid ob \<longleftrightarrow> 0 \<le> fd ob"

definition put_object :: "nat \<Rightarrow> fd_object \<Rightarrow> fd_state \<Rightarrow> fd_state" where
  "put_object p ob st = st\<lparr>objects := (objects st)(p \<mapsto> ob)\<rparr>"

definition close_valid :: "int \<Rightarrow> fd_state \<Rightarrow> fd_state" where
  "close_valid n st = (if 0 \<le> n then st\<lparr>os_log := Closed n # os_log st\<rparr> else st)"

subsection \<open>Operations\<close>

text \<open>A descriptor the system returned, or the negative result of a failed call.\<close>

definition Owned_construct :: "nat \<Rightarrow> int \<Rightarrow> fd_state \<Rightarrow> fd_state" where
  "Owned_construct p n st =
     put_object p (OwnedFileDescriptor n) (if 0 \<le> n then st\<lparr>os_log := Opened n # os_log st\<rparr> else st)"

definition Owned_move_construct :: "nat \<Rightarrow> nat \<Rightarrow> int \<Rightarrow> fd_state \<Rightarrow> fd_state" where
  "Owned_move_construct p other n st =
     put_object other (OwnedFileDescriptor (- 1)) (put_object p (OwnedFileDescriptor n) st)"

definition Owned_move_assign :: "nat \<Rightarrow> int \<Rightarrow> nat \<Rightarrow> int \<Rightarrow> fd_state \<Rightarrow> fd_state" where
  "Owned_move_assign p n other m st =
     put_object other (OwnedFileDescriptor (- 1)) (put_object p (OwnedFileDescriptor m) (close_valid n st))"

definition Owned_destroy :: "nat \<Rightarrow> int \<Rightarrow> fd_state \<Rightarrow> fd_state" where
  "Owned_destroy p n st = (close_valid n st)\<lparr>objects := (objects st)(p := None)\<rparr>"

text \<open>The deleting class: its descriptor is a member of the other class, moved with its operations.\<close>

definition Deleting_construct :: "nat \<Rightarrow> nat \<Rightarrow> int \<Rightarrow> string \<Rightarrow> fd_state \<Rightarrow> fd_state" where
  "Deleting_construct p other n file st =
     put_object other (OwnedFileDescriptor (- 1)) (put_object p (DeletingOwnedFileDescriptor n file) st)"

definition Deleting_move_construct :: "nat \<Rightarrow> nat \<Rightarrow> int \<Rightarrow> string \<Rightarrow> fd_state \<Rightarrow> fd_state" where
  "Deleting_move_construct p other n file st =
     put_object other (DeletingOwnedFileDescriptor (- 1) '''') (put_object p (DeletingOwnedFileDescriptor n file) st)"

definition Deleting_move_assign :: "nat \<Rightarrow> int \<Rightarrow> nat \<Rightarrow> int \<Rightarrow> string \<Rightarrow> fd_state \<Rightarrow> fd_state" where
  "Deleting_move_assign p n other m file st =
     put_object other (DeletingOwnedFileDescriptor (- 1) '''')
       (put_object p (DeletingOwnedFileDescriptor m file) (close_valid n st))"

definition Deleting_destroy :: "nat \<Rightarrow> int \<Rightarrow> string \<Rightarrow> fd_state \<Rightarrow> fd_state" where
  "Deleting_destroy p n file st =
     (close_valid n (if 0 \<le> n then st\<lparr>os_log := Unlinked file # os_log st\<rparr> else st))
       \<lparr>objects := (objects st)(p := None)\<rparr>"

subsection \<open>Histories\<close>

datatype fd_event =
  Construct nat int
| Move_construct nat nat  \<comment> \<open>a new object from another of its class\<close>
| Construct_deleting nat nat string
| Move_assign nat nat
| Destroy nat

text \<open>
  What C++ lets a program write: a constructor runs where no object lives, an operation on objects
  that live and have the class it belongs to.  Anything else does nothing here.
\<close>

fun fd_step :: "fd_event \<Rightarrow> fd_state \<Rightarrow> fd_state" where
  "fd_step (Construct p n) st = (if objects st p = None then Owned_construct p n st else st)"
| "fd_step (Move_construct p other) st =
     (case (objects st p, objects st other) of
        (None, Some (OwnedFileDescriptor n)) \<Rightarrow> Owned_move_construct p other n st
      | (None, Some (DeletingOwnedFileDescriptor n file)) \<Rightarrow> Deleting_move_construct p other n file st
      | _ \<Rightarrow> st)"
| "fd_step (Construct_deleting p other file) st =
     (case (objects st p, objects st other) of
        (None, Some (OwnedFileDescriptor n)) \<Rightarrow> Deleting_construct p other n file st
      | _ \<Rightarrow> st)"
| "fd_step (Move_assign p other) st =
     (case (objects st p, objects st other) of
        (Some (OwnedFileDescriptor n), Some (OwnedFileDescriptor m)) \<Rightarrow> Owned_move_assign p n other m st
      | (Some (DeletingOwnedFileDescriptor n _), Some (DeletingOwnedFileDescriptor m file)) \<Rightarrow>
          Deleting_move_assign p n other m file st
      | _ \<Rightarrow> st)"
| "fd_step (Destroy p) st =
     (case objects st p of
        None \<Rightarrow> st
      | Some (OwnedFileDescriptor n) \<Rightarrow> Owned_destroy p n st
      | Some (DeletingOwnedFileDescriptor n file) \<Rightarrow> Deleting_destroy p n file st)"

text \<open>The descriptors the system considers open after a log, newest entry first.\<close>

fun is_open :: "int \<Rightarrow> os_entry list \<Rightarrow> bool" where
  "is_open n [] \<longleftrightarrow> False"
| "is_open n (Opened m # l) \<longleftrightarrow> m = n \<or> is_open n l"
| "is_open n (Closed m # l) \<longleftrightarrow> m \<noteq> n \<and> is_open n l"
| "is_open n (Unlinked _ # l) \<longleftrightarrow> is_open n l"

text \<open>Only an open descriptor is ever closed.\<close>

fun closes_ok :: "os_entry list \<Rightarrow> bool" where
  "closes_ok [] \<longleftrightarrow> True"
| "closes_ok (Opened m # l) \<longleftrightarrow> closes_ok l"
| "closes_ok (Closed m # l) \<longleftrightarrow> is_open m l \<and> closes_ok l"
| "closes_ok (Unlinked _ # l) \<longleftrightarrow> closes_ok l"

text \<open>The system hands out no descriptor that is open.\<close>

fun possible :: "fd_event \<Rightarrow> fd_state \<Rightarrow> bool" where
  "possible (Construct p n) st \<longleftrightarrow> \<not> is_open n (os_log st)"
| "possible _ st \<longleftrightarrow> True"

definition fd_run :: "fd_event list \<Rightarrow> fd_state" where
  "fd_run es = fold (\<lambda>e st. if possible e st then fd_step e st else st) es \<lparr>objects = Map.empty, os_log = []\<rparr>"

subsection \<open>Each open descriptor has one owner\<close>

text \<open>What an object owns, and the invariant between owners and log.\<close>

definition owns :: "fd_state \<Rightarrow> nat \<Rightarrow> int option" where
  "owns st p = Option.bind (objects st p) (\<lambda>ob. if 0 \<le> fd ob then Some (fd ob) else None)"

definition owned_once :: "(nat \<Rightarrow> int option) \<Rightarrow> os_entry list \<Rightarrow> bool" where
  "owned_once own l \<longleftrightarrow> closes_ok l \<and> (\<forall>n. is_open n l \<longleftrightarrow> (\<exists>p. own p = Some n)) \<and>
     (\<forall>p q n. own p = Some n \<longrightarrow> own q = Some n \<longrightarrow> p = q)"

lemma owned_onceD:
  assumes "owned_once own l"
  shows "closes_ok l" and "\<And>n. is_open n l \<longleftrightarrow> (\<exists>p. own p = Some n)"
    and "\<And>p q n. own p = Some n \<Longrightarrow> own q = Some n \<Longrightarrow> p = q"
  using assms unfolding owned_once_def by blast+

lemma owned_onceI:
  assumes "closes_ok l" and "\<And>n. is_open n l \<longleftrightarrow> (\<exists>p. own p = Some n)"
    and "\<And>p q n. own p = Some n \<Longrightarrow> own q = Some n \<Longrightarrow> p = q"
  shows "owned_once own l"
  unfolding owned_once_def using assms by blast

lemma owned_once_open:
  assumes inv: "owned_once own l" and p: "own p = None" and n: "\<not> is_open n l"
  shows "owned_once (own(p \<mapsto> n)) (Opened n # l)"
proof -
  have "(\<exists>q. (own(p \<mapsto> n)) q = Some m) \<longleftrightarrow> n = m \<or> (\<exists>q. own q = Some m)" for m
    using p by (metis fun_upd_apply option.distinct(1) option.inject)
  moreover have "q = r" if "(own(p \<mapsto> n)) q = Some m" "(own(p \<mapsto> n)) r = Some m" for q r m
    using that n owned_onceD(2) [OF inv, of n] owned_onceD(3) [OF inv, of q m r] by (auto split: if_splits)
  ultimately show ?thesis
    by (intro owned_onceI) (simp_all only: closes_ok.simps is_open.simps owned_onceD(1,2) [OF inv])
qed

lemma owned_once_release:
  assumes inv: "owned_once own l"
  shows "owned_once (own(p := None)) (case own p of None \<Rightarrow> l | Some n \<Rightarrow> Closed n # l)"
proof (cases "own p")
  case None
  then have "own(p := None) = own" by auto
  then show ?thesis using inv None by simp
next
  case (Some n)
  have one: "own q = Some n \<longleftrightarrow> q = p" for q
    using Some owned_onceD(3) [OF inv] by blast
  have "(\<exists>q. (own(p := None)) q = Some m) \<longleftrightarrow> n \<noteq> m \<and> (\<exists>q. own q = Some m)" for m
  proof (cases "n = m")
    case True
    then show ?thesis using one by auto
  next
    case False
    then show ?thesis using Some by (metis fun_upd_apply option.distinct(1) option.inject)
  qed
  moreover have "q = r" if "(own(p := None)) q = Some m" "(own(p := None)) r = Some m" for q r m
    using that owned_onceD(3) [OF inv, of q m r] by (auto split: if_splits)
  moreover have "is_open n l" using owned_onceD(2) [OF inv] Some by blast
  ultimately have "owned_once (own(p := None)) (Closed n # l)"
    using owned_onceD(1) [OF inv] by (intro owned_onceI) (simp_all only: closes_ok.simps is_open.simps owned_onceD(2) [OF inv])
  then show ?thesis using Some by simp
qed

lemma owned_once_transfer:
  assumes inv: "owned_once own l" and p: "own p = None" and "p \<noteq> q"
  shows "owned_once (own(p := own q, q := None)) l"
proof -
  have own': "(own(p := own q, q := None)) r = Some n \<longleftrightarrow>
      (r = p \<and> own q = Some n) \<or> (r \<noteq> q \<and> own r = Some n)" for r n
    using p \<open>p \<noteq> q\<close> by auto
  have ex: "(\<exists>r. (own(p := own q, q := None)) r = Some n) \<longleftrightarrow> (\<exists>r. own r = Some n)" for n
    unfolding own' by metis
  have one: "r = t" if "(own(p := own q, q := None)) r = Some n" "(own(p := own q, q := None)) t = Some n" for r t n
    using that p owned_onceD(3) [OF inv] unfolding own' by blast
  show ?thesis
    by (rule owned_onceI [OF owned_onceD(1) [OF inv] trans [OF owned_onceD(2) [OF inv] ex [symmetric]] one])
qed

lemma owned_once_unlink: "owned_once own l \<Longrightarrow> owned_once own (Unlinked file # l)"
  by (simp add: owned_once_def)

lemma owns_put: "owns (put_object p ob st) = (owns st)(p := if 0 \<le> fd ob then Some (fd ob) else None)"
  by (auto simp: owns_def put_object_def fun_eq_iff)

lemma owns_close [simp]: "owns (close_valid n st) = owns st"
  by (simp add: owns_def close_valid_def fun_eq_iff)

lemma owns_log [simp]: "owns (st\<lparr>os_log := l\<rparr>) = owns st"
  by (simp add: owns_def fun_eq_iff)

lemma owns_drop [simp]: "owns (st\<lparr>objects := (objects st')(p := None)\<rparr>) = (owns st')(p := None)"
  by (simp add: owns_def fun_eq_iff)

lemma os_log_put [simp]: "os_log (put_object p ob st) = os_log st"
  by (simp add: put_object_def)

lemma owns_object: "objects st p = Some ob \<Longrightarrow> owns st p = (if 0 \<le> fd ob then Some (fd ob) else None)"
  by (simp add: owns_def)

lemma owns_none: "objects st p = None \<Longrightarrow> owns st p = None"
  by (simp add: owns_def)

text \<open>A move, with or without a release of what the target owned.\<close>

lemma fd_step_owned_once:
  assumes inv: "owned_once (owns st) (os_log st)" and "possible e st"
  shows "owned_once (owns (fd_step e st)) (os_log (fd_step e st))"
proof (cases e)
  case (Construct p n)
  have same: "(owns st)(p := None) = owns st" if "objects st p = None"
    using owns_none [OF that] by auto
  show ?thesis
    using assms owns_none [of st p] owned_once_open [OF inv, of p n] same
    by (auto simp: Construct Owned_construct_def owns_put)
next
  case (Move_construct p q)
  then show ?thesis
    using inv owned_once_transfer [OF inv, of p q] owns_none [of st p] owns_object [of st q]
    by (cases "p = q") (auto simp: Owned_move_construct_def Deleting_move_construct_def owns_put
        split: option.splits fd_object.splits)
next
  case (Construct_deleting p q name)
  then show ?thesis
    using inv owned_once_transfer [OF inv, of p q] owns_none [of st p] owns_object [of st q]
    by (cases "p = q") (auto simp: Deleting_construct_def owns_put split: option.splits fd_object.splits)
next
  case (Move_assign p q)
  let ?l = "case owns st p of None \<Rightarrow> os_log st | Some n \<Rightarrow> Closed n # os_log st"
  note rel = owned_once_release [OF inv, of p]
  have tr: "p \<noteq> q \<Longrightarrow> owned_once ((owns st)(p := owns st q, q := None)) ?l"
    using owned_once_transfer [OF rel, of p q] by simp
  show ?thesis
    using inv rel tr owns_object [of st p] owns_object [of st q]
    by (cases "p = q") (auto simp: Move_assign Owned_move_assign_def Deleting_move_assign_def owns_put close_valid_def
        split: option.splits fd_object.splits)
next
  case (Destroy p)
  then show ?thesis
    using inv owned_once_release [OF inv, of p] owns_object [of st p]
      owned_once_release [OF owned_once_unlink [OF inv], of p]
    by (auto simp: Owned_destroy_def Deleting_destroy_def close_valid_def split: option.splits fd_object.splits)
qed

lemma fd_run_owned_once: "owned_once (owns (fd_run es)) (os_log (fd_run es))"
proof -
  have "owned_once (owns st) (os_log st) \<Longrightarrow>
      owned_once (owns (fold (\<lambda>e st. if possible e st then fd_step e st else st) es st))
        (os_log (fold (\<lambda>e st. if possible e st then fd_step e st else st) es st))" for st
    by (induction es arbitrary: st) (auto simp: fd_step_owned_once)
  moreover have "owned_once (owns \<lparr>objects = Map.empty, os_log = []\<rparr>) []"
    by (simp add: owned_once_def owns_def)
  ultimately show ?thesis by (simp add: fd_run_def)
qed

subsection \<open>Properties\<close>

text \<open>C35: In every history of constructing, moving, assigning (also to itself) and destroying the two
  kinds of owners, a descriptor is closed only while it is open, so never twice, and it is open
  exactly while there is one and only one object that owns it: none is leaked when its owner goes.\<close>
theorem descriptors_closed_exactly_once:
  "closes_ok (os_log (fd_run es)) \<and>
   (\<forall>n. is_open n (os_log (fd_run es)) \<longleftrightarrow>
      (\<exists>!p. \<exists>ob. objects (fd_run es) p = Some ob \<and> IsValid ob \<and> fd ob = n))"
proof -
  note inv = owned_onceD [OF fd_run_owned_once [of es]]
  have owns: "owns (fd_run es) p = Some n \<longleftrightarrow>
      (\<exists>ob. objects (fd_run es) p = Some ob \<and> IsValid ob \<and> fd ob = n)" for p n
    by (auto simp: owns_def IsValid_def bind_eq_Some_conv)
  have "is_open n (os_log (fd_run es)) \<longleftrightarrow> (\<exists>!p. owns (fd_run es) p = Some n)" for n
    using inv(2,3) by blast
  then show ?thesis using inv(1) unfolding owns by blast
qed

end
