(* ===== verification/Text_Output.thy ===== *)
theory Text_Output
  imports Clock_Handler Client
begin

section \<open>What is printed\<close>

text \<open>
  The text that \<open>lldp.hh\<close>, \<open>clock_handler.cc\<close> and \<open>client_main.cc\<close> print: addresses and port
  identifiers, the tables of the service and the table of the client.  A printing function is the
  string it appends to standard output; \<open>inet_ntop\<close>, which the sources call for IP addresses, is
  a parameter that takes the address family and the bytes.  The second half reads the client's table back.
\<close>

text \<open>Bytes printed as they are.\<close>

definition raw :: "bytes \<Rightarrow> string" where
  "raw bs = map (\<lambda>b. char_of (unat b)) bs"

definition tab :: char where "tab = CHR 0x09"
definition newline :: char where "newline = CHR 0x0A"

text \<open>\<open>std::hex\<close> with width 2 and fill \<open>0\<close>, and decimal numbers.\<close>

definition hex_digit :: "nat \<Rightarrow> char" where
  "hex_digit n = ''0123456789abcdef'' ! n"

definition hex2 :: "byte \<Rightarrow> string" where
  "hex2 b = [hex_digit (unat b div 16), hex_digit (unat b mod 16)]"

fun decimal :: "nat \<Rightarrow> string" where
  "decimal n = (if n < 10 then [hex_digit n] else decimal (n div 10) @ [hex_digit (n mod 10)])"

declare decimal.simps [simp del]

type_synonym inet_ntop = "byte \<Rightarrow> bytes \<Rightarrow> string"

subsection \<open>Addresses and ports\<close>

definition logMac :: "bytes \<Rightarrow> string" where
  "logMac mac = hex2 (mac ! 0) @ concat (map (\<lambda>i. '':'' @ hex2 (mac ! i)) [1..<ETH_ALEN])"

definition logIpv4 :: "inet_ntop \<Rightarrow> bytes option \<Rightarrow> string" where
  "logIpv4 ntop ipv4 = (case ipv4 of Some a \<Rightarrow> ntop AF_INET a | None \<Rightarrow> ''None'')"

definition logIpv6 :: "inet_ntop \<Rightarrow> bytes option \<Rightarrow> string" where
  "logIpv6 ntop ipv6 = (case ipv6 of Some a \<Rightarrow> ntop AF_INET6 a | None \<Rightarrow> ''None'')"

definition logPort :: "inet_ntop \<Rightarrow> bytes \<Rightarrow> string" where
  "logPort ntop port =
     (if port = [] then ''Missing''
      else if port ! 0 = PORT_TLV_SUBTYPE_MAC \<and> length port = 1 + ETH_ALEN then logMac (drop 1 port)
      else if port ! 0 = PORT_TLV_SUBTYPE_LOCAL then raw (drop 1 port)
      else if port ! 0 = PORT_TLV_SUBTYPE_NET \<and> 1 < length port then
        if port ! 1 = MANAGEMENT_TLV_ADDRESS_SUBTYPE_MAC \<and> length port = 1 + 1 + ETH_ALEN
        then logMac (drop 2 port)
        else if port ! 1 = MANAGEMENT_TLV_ADDRESS_SUBTYPE_IPV4 \<and> length port = 1 + 1 + sizeof_in_addr
        then ntop AF_INET (drop 2 port)
        else if port ! 1 = MANAGEMENT_TLV_ADDRESS_SUBTYPE_IPV6 \<and> length port = 1 + 1 + sizeof_in6_addr
        then ntop AF_INET6 (drop 2 port)
        else concat (map (\<lambda>port_byte. hex2 port_byte @ '' '') port)
      else [])"

definition logPortType :: "bytes \<Rightarrow> string" where
  "logPortType port =
     (if port = [] then ''Missing...''
      else if port ! 0 = PORT_TLV_SUBTYPE_MAC then ''MAC''
      else if port ! 0 = PORT_TLV_SUBTYPE_LOCAL then ''LOCAL''
      else if port ! 0 = PORT_TLV_SUBTYPE_NET then
        ''NET('' @
        (if length port < 2 then ''INVALID''
         else if port ! 1 = MANAGEMENT_TLV_ADDRESS_SUBTYPE_MAC then ''MAC''
         else if port ! 1 = MANAGEMENT_TLV_ADDRESS_SUBTYPE_IPV4 then ''IPv4''
         else if port ! 1 = MANAGEMENT_TLV_ADDRESS_SUBTYPE_IPV6 then ''IPv6''
         else ''UNKNOWN('' @ decimal (unat (port ! 1)) @ '')'') @ '')''
      else ''UNKNOWN'')"

subsection \<open>The tables of the service\<close>

definition CLEAR_SCREEN :: string where
  "CLEAR_SCREEN = CHR 0x1B # ''[2J''"

definition dumpDevice :: "inet_ntop \<Rightarrow> DeviceData \<Rightarrow> string" where
  "dumpDevice ntop device =
     decimal (unat (if_index device)) @ [tab] @
     (case interface_name device of Some name \<Rightarrow> raw name | None \<Rightarrow> ''---'') @ [tab] @
     (if \<not> device_operational device then ''Device down'' @ [newline]
      else
        (case mac_address device of Some mac \<Rightarrow> logMac mac | None \<Rightarrow> ''None'') @ [tab] @
        logIpv4 ntop (ipv4_address device) @ [tab] @ logIpv6 ntop (ipv6_address device) @ [newline])"

definition dumpNeighbourEntry :: "inet_ntop \<Rightarrow> NeighbourEntry \<Rightarrow> string" where
  "dumpNeighbourEntry ntop neighbour =
     logPort ntop (ne_port_id neighbour) @ [tab] @
     decimal (unat (ne_time_to_live neighbour)) @ [tab] @
     logIpv4 ntop (ne_ipv4_address neighbour) @ [tab] @ logIpv6 ntop (ne_ipv6_address neighbour) @ [tab]"

definition DumpInfo :: "inet_ntop \<Rightarrow> bytes \<Rightarrow> ClockHandler \<Rightarrow> string" where
  "DumpInfo ntop my_id clock =
     CLEAR_SCREEN @ ''My Id: '' @ raw my_id @ [newline] @ ''Device data:'' @ [newline] @
     ''IDX'' @ [tab] @ ''Name'' @ [tab] @ ''MAC'' @ [tab] @ ''IPv4'' @ [tab] @ ''IPv6'' @ [tab] @ [newline] @
     concat (map (\<lambda>(idx, sender). dumpDevice ntop (device_data sender)) (current_state (lldp_repository clock))) @
     [newline, newline] @
     ''Found '' @ decimal (length (neighbour_list clock)) @ '' chassis'' @ [newline] @
     [newline, newline] @ ''Neighbours:'' @ [newline] @
     ''Chassis'' @ [tab] @ ''Port'' @ [tab] @ ''TTL'' @ [tab] @ ''IPv4'' @ [tab] @ ''IPv6'' @ [tab] @ [newline] @
     concat (map (\<lambda>(chassis, port_map).
       concat (map (\<lambda>(port, neighbour). raw chassis @ [tab] @ dumpNeighbourEntry ntop neighbour @ [newline]) port_map))
       (neighbour_list clock))"

subsection \<open>The table of the client\<close>

definition client_fields :: "inet_ntop \<Rightarrow> NeighbourDeviceData \<Rightarrow> string list" where
  "client_fields ntop v =
     [raw (nd_chassis v),
      (case nd_local_interface_name v of Some name \<Rightarrow> raw name | None \<Rightarrow> ''Missing''),
      logPortType (nd_port v), logPort ntop (nd_port v),
      logIpv4 ntop (nd_ipv4_address v), logIpv6 ntop (nd_ipv6_address v)]"

text \<open>Every field but the last is followed by a tabulator, the last by the end of the line.\<close>

fun print_row :: "string list \<Rightarrow> string" where
  "print_row [] = [newline]"
| "print_row [f] = f @ [newline]"
| "print_row (f # g # fs) = f @ [tab] @ print_row (g # fs)"

definition dumpNeighbourData :: "inet_ntop \<Rightarrow> neighbour_devices \<Rightarrow> string" where
  "dumpNeighbourData ntop device_map =
     ''Chassis'' @ [tab] @ ''Local interface'' @ [tab] @ ''Port type'' @ [tab] @ ''Port'' @ [tab] @ ''Ip'' @ [tab] @
     ''Ipv6'' @ [newline] @
     concat (map (\<lambda>(key, v). print_row (client_fields ntop v)) device_map) @ [newline]"

subsection \<open>Reading the table back\<close>

fun split_on :: "char \<Rightarrow> string \<Rightarrow> string list" where
  "split_on c [] = [[]]"
| "split_on c (x # xs) =
     (if x = c then [] # split_on c xs
      else case split_on c xs of [] \<Rightarrow> [[x]] | f # fs \<Rightarrow> (x # f) # fs)"

text \<open>The lines of a text, each with the fields between tabulators.\<close>

definition read_table :: "string \<Rightarrow> string list list" where
  "read_table s = map (split_on tab) (split_on newline s)"

lemma split_on_append: "c \<notin> set a \<Longrightarrow> split_on c (a @ c # s) = a # split_on c s"
  by (induction a) auto

lemma split_on_single: "c \<notin> set a \<Longrightarrow> split_on c a = [a]"
  by (induction a) auto

text \<open>Fields without the separators.\<close>

definition clean :: "string \<Rightarrow> bool" where
  "clean s \<longleftrightarrow> tab \<notin> set s \<and> newline \<notin> set s"

fun row :: "string list \<Rightarrow> string" where
  "row [] = []"
| "row [f] = f"
| "row (f # g # fs) = f @ tab # row (g # fs)"

lemma print_row: "print_row fs = row fs @ [newline]"
  by (induction fs rule: row.induct) simp_all

lemma row_no_newline: "list_all clean fs \<Longrightarrow> newline \<notin> set (row fs)"
  by (induction fs rule: row.induct) (auto simp: clean_def tab_def newline_def)

lemma split_row: "fs \<noteq> [] \<Longrightarrow> list_all clean fs \<Longrightarrow> split_on tab (row fs) = fs"
  by (induction fs rule: row.induct) (auto simp: clean_def split_on_single split_on_append)

lemma read_table_row:
  "fs \<noteq> [] \<Longrightarrow> list_all clean fs \<Longrightarrow> read_table (print_row fs @ s) = fs # read_table s"
  by (simp add: read_table_def print_row split_on_append row_no_newline split_row)

lemma read_table_rows:
  "(\<And>x. x \<in> set xs \<Longrightarrow> f x \<noteq> [] \<and> list_all clean (f x)) \<Longrightarrow>
   read_table (concat (map (\<lambda>x. print_row (f x)) xs) @ s) = map f xs @ read_table s"
  by (induction xs) (simp_all add: read_table_row)

lemma clean_append [simp]: "clean (a @ b) \<longleftrightarrow> clean a \<and> clean b"
  by (auto simp: clean_def)

lemma clean_Nil [simp]: "clean []"
  by (simp add: clean_def)

lemma clean_Cons: "clean (c # s) \<longleftrightarrow> c \<noteq> tab \<and> c \<noteq> newline \<and> clean s"
  by (auto simp: clean_def)

lemma clean_concat: "clean (concat xs) \<longleftrightarrow> list_all clean xs"
  by (induction xs) simp_all

lemma hex_digit_clean: "n < 16 \<Longrightarrow> hex_digit n \<noteq> tab \<and> hex_digit n \<noteq> newline"
proof -
  assume "n < 16"
  then have "hex_digit n \<in> set ''0123456789abcdef''"
    unfolding hex_digit_def by (intro nth_mem) simp
  then show ?thesis by (auto simp: tab_def newline_def)
qed

lemma clean_hex2 [simp]: "clean (hex2 b)"
proof -
  have "unat b < 256" using unsigned_less [of b, where 'a = nat] by simp
  then have "unat b div 16 < 16" by (simp add: less_mult_imp_div_less)
  then show ?thesis using hex_digit_clean by (simp add: hex2_def clean_Cons)
qed

lemma clean_logMac [simp]: "clean (logMac mac)"
  by (simp add: logMac_def clean_concat list_all_iff clean_Cons tab_def newline_def)

lemma clean_decimal [simp]: "clean (decimal n)"
proof (induction n rule: decimal.induct)
  case (1 n)
  have "n mod 10 < 16" by (rule less_trans [of _ 10]) simp_all
  then show ?case
    using 1 hex_digit_clean [of n] hex_digit_clean [of "n mod 10"]
    by (cases "n < 10") (simp_all add: decimal.simps [of n] clean_Cons)
qed

text \<open>Bytes that print as a single field.\<close>

definition plain :: "bytes \<Rightarrow> bool" where
  "plain bs \<longleftrightarrow> 9 \<notin> set bs \<and> 10 \<notin> set bs"

lemma char_of_byte: "char_of (unat (b :: byte)) = c \<longleftrightarrow> unat b = of_char c"
proof -
  have "unat b < 2 ^ 8" using unsigned_less [of b, where 'a = nat] by simp
  then show ?thesis by (simp add: char_of_eq_iff take_bit_nat_eq_self)
qed

lemma clean_raw: "clean (raw bs) \<longleftrightarrow> plain bs"
proof -
  have "unat b = 9 \<longleftrightarrow> b = 9" "unat b = 10 \<longleftrightarrow> b = 10" for b :: byte
    using word_unat_eq_iff [of b 9] word_unat_eq_iff [of b 10] by simp_all
  moreover have "char_of (unat b) = tab \<longleftrightarrow> unat b = 9" "char_of (unat b) = newline \<longleftrightarrow> unat b = 10" for b :: byte
    by (simp_all add: char_of_byte tab_def newline_def)
  ultimately have "clean (raw (b # bs)) \<longleftrightarrow> b \<noteq> 9 \<and> b \<noteq> 10 \<and> clean (raw bs)" for b bs
    by (simp add: raw_def clean_Cons)
  then show ?thesis
    by (induction bs) (auto simp: plain_def, simp_all add: raw_def)
qed

lemma clean_logPort:
  assumes "\<And>f a. clean (ntop f a)" and "port \<noteq> [] \<longrightarrow> port ! 0 = PORT_TLV_SUBTYPE_LOCAL \<longrightarrow> plain (drop 1 port)"
  shows "clean (logPort ntop port)"
  using assms
  by (auto simp: logPort_def clean_raw clean_concat list_all_iff clean_Cons tab_def newline_def)

lemma clean_logPortType [simp]: "clean (logPortType port)"
  by (simp add: logPortType_def clean_Cons tab_def newline_def)

text \<open>A neighbour whose texts contain no separator.\<close>

definition printable :: "NeighbourDeviceData \<Rightarrow> bool" where
  "printable v \<longleftrightarrow> plain (nd_chassis v) \<and>
     (case nd_local_interface_name v of None \<Rightarrow> True | Some name \<Rightarrow> plain name) \<and>
     (nd_port v \<noteq> [] \<longrightarrow> nd_port v ! 0 = PORT_TLV_SUBTYPE_LOCAL \<longrightarrow> plain (drop 1 (nd_port v)))"

lemma clean_client_fields:
  assumes ntop: "\<And>f a. clean (ntop f a)" and v: "printable v"
  shows "list_all clean (client_fields ntop v)"
  using v clean_logPort [OF ntop, of "nd_port v"] ntop
  by (auto simp: client_fields_def printable_def clean_raw logIpv4_def logIpv6_def clean_Cons tab_def newline_def
      split: option.split)

lemma dumpNeighbourData_eq:
  "dumpNeighbourData ntop m =
     print_row [''Chassis'', ''Local interface'', ''Port type'', ''Port'', ''Ip'', ''Ipv6''] @
     concat (map (\<lambda>x. print_row (client_fields ntop (snd x))) m) @ [newline]"
  by (simp add: dumpNeighbourData_def case_prod_beta')

text \<open>Bytes that print as a given text.\<close>

definition bytes_of :: "string \<Rightarrow> bytes" where
  "bytes_of s = map (\<lambda>c. of_nat (of_char c)) s"

lemma raw_bytes_of [simp]: "raw (bytes_of s) = s"
proof -
  have "char_of (unat (of_nat (of_char c) :: byte)) = c" for c :: char
    unfolding char_of_byte by (simp add: unsigned_of_nat take_bit_nat_eq_self)
  then show ?thesis by (simp add: raw_def bytes_of_def comp_def map_idI)
qed

lemma raw_append [simp]: "raw (a @ b) = raw a @ raw b"
  by (simp add: raw_def)

subsection \<open>Properties\<close>

text \<open>C36: The table the client prints can be read back: when no chassis, interface name or local port
  identifier contains a tabulator or an end of line, splitting the text into lines and fields gives
  the heading, then six fields for each neighbour in order, and two empty lines.\<close>
theorem client_table_reads_back:
  assumes "\<forall>f a. clean (ntop f a)" and "\<forall>(key, v) \<in> set device_map. printable v"
  shows "read_table (dumpNeighbourData ntop device_map) =
    [''Chassis'', ''Local interface'', ''Port type'', ''Port'', ''Ip'', ''Ipv6''] #
    map (\<lambda>(key, v). client_fields ntop v) device_map @ [[[]], [[]]]"
proof -
  have "client_fields ntop (snd x) \<noteq> [] \<and> list_all clean (client_fields ntop (snd x))" if "x \<in> set device_map" for x
  proof
    have "printable (snd x)" using assms(2) that by (simp add: case_prod_beta)
    then show "list_all clean (client_fields ntop (snd x))" using clean_client_fields assms(1) by blast
  qed (simp add: client_fields_def)
  then have "read_table (concat (map (\<lambda>x. print_row (client_fields ntop (snd x))) device_map) @ [newline]) =
      map (\<lambda>x. client_fields ntop (snd x)) device_map @ read_table [newline]"
    by (rule read_table_rows)
  moreover have "list_all clean [''Chassis'', ''Local interface'', ''Port type'', ''Port'', ''Ip'', ''Ipv6'']"
    by (simp add: clean_Cons tab_def newline_def)
  ultimately show ?thesis
    unfolding dumpNeighbourData_eq by (subst read_table_row) (simp_all add: read_table_def case_prod_beta')
qed

text \<open>A chassis identifier is printed as it was received, so a neighbour can show as any two: for all
  neighbours \<open>a\<close> and \<open>b\<close> there is one whose table is, byte for byte, the table of both.\<close>
theorem one_neighbour_shows_as_two:
  "dumpNeighbourData ntop [(k, b\<lparr>nd_chassis := bytes_of (print_row (client_fields ntop a)) @ nd_chassis b\<rparr>)] =
   dumpNeighbourData ntop [(i, a), (j, b)]"
  by (simp add: dumpNeighbourData_def client_fields_def)

text \<open>A client with two neighbours, one reached over a port that is a MAC address.\<close>

definition example_ntop :: inet_ntop where
  "example_ntop family address = ''10.0.0.1''"

definition example_neighbours :: neighbour_devices where
  "example_neighbours =
     [(0, \<lparr>nd_chassis = [7, 65], nd_port = [3, 0, 27, 33, 1, 2, 255], nd_local_interface_name = Some [101, 116, 104, 48],
         nd_ipv4_address = Some [10, 0, 0, 1], nd_ipv6_address = None\<rparr>),
      (1, \<lparr>nd_chassis = [7, 66], nd_port = [7, 112, 49], nd_local_interface_name = None,
         nd_ipv4_address = None, nd_ipv6_address = None\<rparr>)]"

theorem client_table_reads_back_witness:
  "read_table (dumpNeighbourData example_ntop example_neighbours) =
    [[''Chassis'', ''Local interface'', ''Port type'', ''Port'', ''Ip'', ''Ipv6''],
     [[CHR 0x07, CHR ''A''], ''eth0'', ''MAC'', ''00:1b:21:01:02:ff'', ''10.0.0.1'', ''None''],
     [[CHR 0x07, CHR ''B''], ''Missing'', ''LOCAL'', ''p1'', ''None'', ''None''],
     [[]], [[]]]"
proof -
  have ntop: "\<forall>f a. clean (example_ntop f a)"
    by (simp add: example_ntop_def clean_Cons tab_def newline_def)
  have ok: "\<forall>(key, v) \<in> set example_neighbours. printable v"
    by (simp add: example_neighbours_def printable_def plain_def PORT_TLV_SUBTYPE_LOCAL_def)
  have fields: "map (\<lambda>(key, v). client_fields example_ntop v) example_neighbours =
      [[[CHR 0x07, CHR ''A''], ''eth0'', ''MAC'', ''00:1b:21:01:02:ff'', ''10.0.0.1'', ''None''],
       [[CHR 0x07, CHR ''B''], ''Missing'', ''LOCAL'', ''p1'', ''None'', ''None'']]"
    by code_simp
  show ?thesis using client_table_reads_back [OF ntop ok] unfolding fields by simp
qed

end
