(* ===== verification/Server_Handlers.thy ===== *)
theory Server_Handlers
  imports Client_Service
begin

section \<open>The server's handlers\<close>

text \<open>
  The first half of \<open>server_main.cc\<close>: the creation of the five handlers, their registration with the
  event manager in \<open>initializeHandlers\<close>, and their removal when the main loop has ended.  The results
  of the system calls that create descriptors are parameters; \<open>unwrapOrLog\<close> ends the program with
  the message and the error when one fails, which is the value \<open>Inl\<close>.
\<close>

definition POLLIN :: u32 where "POLLIN = 1"

subsection \<open>Creation\<close>

text \<open>The result of a system call that returns a descriptor, and \<open>errno\<close> after it.\<close>

type_synonym call_result = "int \<times> int"

definition EventManager_Create :: "call_result \<Rightarrow> int + EventManager" where
  "EventManager_Create = (\<lambda>(epfd, err). if epfd < 0 then Inl err else Inr EventManager_new)"

definition EthernetLldpMonitor_Create :: "call_result \<Rightarrow> int + nat" where
  "EthernetLldpMonitor_Create = (\<lambda>(socket_fd, err). if socket_fd < 0 then Inl err else Inr (nat socket_fd))"

definition ClientRepository_Create :: "call_result \<Rightarrow> int + nat" where
  "ClientRepository_Create = (\<lambda>(socket, err). if socket < 0 then Inl err else Inr (nat socket))"

text \<open>The timer is created and then set to expire every second.\<close>

definition ClockHandler_Create :: "call_result \<Rightarrow> call_result \<Rightarrow> int + nat" where
  "ClockHandler_Create = (\<lambda>(socket_fd, err) (set_result, set_err).
     if socket_fd = - 1 then Inl err else if set_result = - 1 then Inl set_err else Inr (nat socket_fd))"

text \<open>\<open>SIGINT\<close> and \<open>SIGTERM\<close> are blocked first, so that they are read from a descriptor.\<close>

definition InterruptHandler_Create :: "call_result \<Rightarrow> call_result \<Rightarrow> int + nat" where
  "InterruptHandler_Create = (\<lambda>(mask_result, mask_err) (socket, err).
     if mask_result = - 1 then Inl mask_err else if socket = - 1 then Inl err else Inr (nat socket))"

text \<open>\<open>unwrapOrLog\<close>, with what the program does with the value it returns.\<close>

type_synonym 'a or_exit = "(string \<times> int) + 'a"

definition unwrapOrLog :: "int + 'a \<Rightarrow> string \<Rightarrow> ('a \<Rightarrow> 'b or_exit) \<Rightarrow> 'b or_exit" where
  "unwrapOrLog value message k = (case value of Inl err \<Rightarrow> Inl (message, err) | Inr x \<Rightarrow> k x)"

subsection \<open>Registration\<close>

text \<open>The five results in the order in which the handlers are created.\<close>

record created_handlers =
  created_monitor :: "int + nat"
  created_dtr :: "int + nat"
  created_dtls :: "int + nat"
  created_clock :: "int + nat"
  created_interrupt :: "int + nat"

fun add_handlers :: "epoll_ctl \<Rightarrow> nat \<Rightarrow> nat list \<Rightarrow> world \<Rightarrow> world or_exit" where
  "add_handlers epoll m [] w = Inr w"
| "add_handlers epoll m (handler # hs) w =
     (case EventManager_Add epoll m handler w of (result, w) \<Rightarrow>
        unwrapOrLog result ''Failed to add event handler to event manager'' (\<lambda>_. add_handlers epoll m hs w))"

definition initializeHandlers ::
  "epoll_ctl \<Rightarrow> nat \<Rightarrow> created_handlers \<Rightarrow> world \<Rightarrow> (nat list \<times> world) or_exit" where
  "initializeHandlers epoll manager created w =
     unwrapOrLog (created_monitor created) ''Failed to create ethernet lldp monitor'' (\<lambda>fd.
     case EventHandler_new fd EPOLLIN w of (monitor_handler, w) \<Rightarrow>
     unwrapOrLog (created_dtr created) ''Failed to create ClientRepository'' (\<lambda>fd.
     case EventHandler_new fd EPOLLIN w of (dtr, w) \<Rightarrow>
     unwrapOrLog (created_dtls created) ''Failed to create ClientListenSocket'' (\<lambda>fd.
     case EventHandler_new fd EPOLLIN w of (dtls, w) \<Rightarrow>
     unwrapOrLog (created_clock created) ''Failed to create ClockHandler'' (\<lambda>fd.
     case EventHandler_new fd EPOLLIN w of (clock, w) \<Rightarrow>
     unwrapOrLog (created_interrupt created) ''Failed to create InterruptHandler'' (\<lambda>fd.
     case EventHandler_new fd POLLIN w of (interrupt_handler, w) \<Rightarrow>
       let handlers = [clock, monitor_handler, dtr, dtls, interrupt_handler]
       in case add_handlers epoll manager handlers w of
            Inl e \<Rightarrow> Inl e
          | Inr w \<Rightarrow> Inr (handlers, w))))))"

text \<open>The loop after the main loop.\<close>

fun remove_handlers :: "epoll_ctl \<Rightarrow> nat \<Rightarrow> nat list \<Rightarrow> world \<Rightarrow> world or_exit" where
  "remove_handlers epoll m [] w = Inr w"
| "remove_handlers epoll m (handler # hs) w =
     (case EventManager_Remove_handler epoll m handler w of (result, w) \<Rightarrow>
        unwrapOrLog result ''Failed to remove event from event manager'' (\<lambda>_. remove_handlers epoll m hs w))"

subsection \<open>Registered handlers\<close>

text \<open>Handlers that live and are registered with the manager \<open>m\<close>.\<close>

definition registered_with :: "nat \<Rightarrow> world \<Rightarrow> nat \<Rightarrow> bool" where
  "registered_with m w p \<longleftrightarrow> (\<exists>h. handlers w p = Some h \<and> event_manager h = Some m)"

lemma call_epoll_handlers:
  "call_epoll epoll m op fd w = (r, v) \<Longrightarrow> handlers v = handlers w"
  by (auto simp: call_epoll_def split: prod.splits)

lemma Add_handlers:
  assumes "EventManager_Add epoll m p w = (Inr k, v)" "handlers w p = Some h" "event_manager h = None"
  shows "handlers v = (handlers w)(p \<mapsto> h\<lparr>event_manager := Some m, handle := k\<rparr>)"
  using assms call_epoll_handlers
  by (fastforce simp: EventManager_Add_def detached_def Let_def split: prod.splits if_splits)

lemma add_handlers_registers:
  assumes d: "documented epoll" and c: "coherent w" and n: "counters_ok n w" "n + length hs + 2 < 2 ^ 64"
    and free: "\<forall>p \<in> set hs. \<exists>h. handlers w p = Some h \<and> event_manager h = None" and "distinct hs"
    and v: "add_handlers epoll m hs w = Inr v"
  shows "coherent v \<and> counters_ok (n + length hs) v \<and> (\<forall>p. registered_with m v p \<longleftrightarrow> p \<in> set hs \<or> registered_with m w p) \<and>
    (\<forall>p. map_option handler_socket (handlers v p) = map_option handler_socket (handlers w p))"
  using c n free \<open>distinct hs\<close> v
proof (induction hs arbitrary: w n)
  case (Cons p hs)
  obtain r u where u: "EventManager_Add epoll m p w = (r, u)" by (cases "EventManager_Add epoll m p w")
  with Cons.prems(6) obtain k where r: "r = Inr k" and rest: "add_handlers epoll m hs u = Inr v"
    by (auto simp: unwrapOrLog_def split: sum.splits)
  obtain h where h: "handlers w p = Some h" "event_manager h = None" using Cons.prems(4) by auto
  have hu: "handlers u = (handlers w)(p \<mapsto> h\<lparr>event_manager := Some m, handle := k\<rparr>)"
    by (rule Add_handlers [OF u [unfolded r] h])
  have inv: "coherent u" "counters_ok (Suc n) u"
    using Add_invariants [OF d Cons.prems(1,2), of m p] Cons.prems(3) u by simp_all
  have free: "\<forall>q \<in> set hs. \<exists>h. handlers u q = Some h \<and> event_manager h = None"
    using Cons.prems(4,5) by (auto simp: hu)
  have "Suc n + length hs + 2 < 2 ^ 64" using Cons.prems(3) by simp
  from Cons.IH [OF inv this free _ rest] Cons.prems(5)
  have "coherent v" "counters_ok (n + length (p # hs)) v"
    "\<forall>q. registered_with m v q \<longleftrightarrow> q \<in> set hs \<or> registered_with m u q"
    "\<forall>q. map_option handler_socket (handlers v q) = map_option handler_socket (handlers u q)" by simp_all
  moreover have "registered_with m u q \<longleftrightarrow> q = p \<or> registered_with m w q" for q
    using h by (auto simp: registered_with_def hu)
  ultimately show ?case using h by (auto simp: hu)
qed simp

lemma remove_handlers_removes:
  assumes d: "documented epoll" and "coherent w" "\<forall>p \<in> set hs. registered_with m w p" "distinct hs"
  shows "\<exists>v. remove_handlers epoll m hs w = Inr v \<and> coherent v \<and>
    (\<forall>p. registered_with m v p \<longleftrightarrow> p \<notin> set hs \<and> registered_with m w p) \<and>
    (\<forall>p. map_option handler_socket (handlers v p) = map_option handler_socket (handlers w p))"
  using assms(2-)
proof (induction hs arbitrary: w)
  case (Cons p hs)
  then obtain h where h: "handlers w p = Some h" "event_manager h = Some m" by (auto simp: registered_with_def)
  obtain u where u: "EventManager_Remove epoll m (handle h) w = (Inr (), u)" "coherent u"
      "handlers u = (handlers w)(p \<mapsto> h\<lparr>event_manager := None, handle := 0\<rparr>)"
    using Remove_live [OF d Cons.prems(1) h] by blast
  have reg: "registered_with m u q \<longleftrightarrow> q \<noteq> p \<and> registered_with m w q" for q
    by (auto simp: registered_with_def u(3))
  obtain v where v: "remove_handlers epoll m hs u = Inr v" "coherent v"
      "\<forall>q. registered_with m v q \<longleftrightarrow> q \<notin> set hs \<and> registered_with m u q"
      "\<forall>q. map_option handler_socket (handlers v q) = map_option handler_socket (handlers u q)"
    using Cons.IH [OF u(2)] Cons.prems(2,3) by (auto simp: reg)
  have "remove_handlers epoll m (p # hs) w = Inr v"
    using h u(1) v(1) by (simp add: EventManager_Remove_handler_def unwrapOrLog_def)
  then show ?case using v(2-) h by (auto simp: reg u(3))
qed simp


text \<open>The five handlers constructed one after the other.\<close>

fun construct_all :: "(nat \<times> u32) list \<Rightarrow> world \<Rightarrow> world" where
  "construct_all [] w = w"
| "construct_all ((fd, events) # fs) w = construct_all fs (snd (EventHandler_new fd events w))"

lemma construct_all_world:
  assumes "coherent w" "counters_ok n w" "distinct (map fst fs)" "set (map fst fs) \<inter> open_descriptors w = {}"
  shows "coherent (construct_all fs w) \<and> counters_ok n (construct_all fs w) \<and>
    (\<forall>i < length fs. \<exists>h. handlers (construct_all fs w) (next_address w + i) = Some h \<and>
       event_manager h = None \<and> handler_socket h = fst (fs ! i)) \<and>
    (\<forall>p. p < next_address w \<longrightarrow> handlers (construct_all fs w) p = handlers w p)"
  using assms
proof (induction fs arbitrary: w)
  case (Cons f fs)
  obtain fd ev where f: "f = (fd, ev)" by (cases f)
  let ?u = "snd (EventHandler_new fd ev w)"
  have u: "handlers ?u = (handlers w)(next_address w \<mapsto> \<lparr>event_manager = None, handle = 0, handler_socket = fd,
      handler_events = ev\<rparr>)" "next_address ?u = Suc (next_address w)"
      "open_descriptors ?u = insert fd (open_descriptors w)" "counters_ok n ?u = counters_ok n w"
    by (simp_all add: EventHandler_new_def counters_ok_def)
  have "coherent ?u" using Cons.prems(1,4) f by (intro new_handler_coherent) auto
  then have IH: "coherent (construct_all fs ?u) \<and> counters_ok n (construct_all fs ?u) \<and>
    (\<forall>i < length fs. \<exists>h. handlers (construct_all fs ?u) (next_address ?u + i) = Some h \<and>
       event_manager h = None \<and> handler_socket h = fst (fs ! i)) \<and>
    (\<forall>p. p < next_address ?u \<longrightarrow> handlers (construct_all fs ?u) p = handlers ?u p)"
    using Cons.prems f by (intro Cons.IH) (auto simp: u)
  have "\<exists>h. handlers (construct_all fs ?u) (next_address w + i) = Some h \<and>
       event_manager h = None \<and> handler_socket h = fst ((f # fs) ! i)" if "i < length (f # fs)" for i
  proof (cases i)
    case 0
    have "handlers (construct_all fs ?u) (next_address w) = handlers ?u (next_address w)"
      using IH by (simp add: u(2))
    then show ?thesis using 0 f by (simp add: u(1))
  next
    case (Suc j)
    then show ?thesis using IH that by (auto simp: u(2))
  qed
  moreover have "handlers (construct_all fs ?u) p = handlers w p" if "p < next_address w" for p
    using IH that by (simp add: u(1,2))
  ultimately show ?case using IH f by simp
qed simp

lemma initializeHandlers_eq:
  assumes "created = \<lparr>created_monitor = Inr monitor_fd, created_dtr = Inr dtr_fd, created_dtls = Inr dtls_fd,
     created_clock = Inr clock_fd, created_interrupt = Inr interrupt_fd\<rparr>"
  shows "initializeHandlers epoll m created w =
    (let a = next_address w; hs = [a + 3, a, a + 1, a + 2, a + 4] in
     case add_handlers epoll m hs (construct_all [(monitor_fd, EPOLLIN), (dtr_fd, EPOLLIN), (dtls_fd, EPOLLIN),
         (clock_fd, EPOLLIN), (interrupt_fd, POLLIN)] w) of
       Inl e \<Rightarrow> Inl e | Inr w \<Rightarrow> Inr (hs, w))"
proof -
  have new: "fst (EventHandler_new fd ev w) = next_address w"
    "next_address (snd (EventHandler_new fd ev w)) = Suc (next_address w)" for fd ev w
    by (simp_all add: EventHandler_new_def)
  show ?thesis
    by (simp add: assms initializeHandlers_def unwrapOrLog_def case_prod_beta new Let_def eval_nat_numeral split: sum.split
        del: add_handlers.simps)
qed

subsection \<open>Properties\<close>

text \<open>
  \<open>initializeHandlers\<close> in a coherent world: the handlers it returns, in the order of their vector, live,
  are registered and have the descriptors they were created with.
\<close>

lemma initializeHandlers_registers:
  assumes "documented epoll" and "coherent w" "counters_ok n w" "n + 8 < 2 ^ 64"
    and "distinct [clock_fd, monitor_fd, dtr_fd, dtls_fd, interrupt_fd]"
    and "set [clock_fd, monitor_fd, dtr_fd, dtls_fd, interrupt_fd] \<inter> open_descriptors w = {}"
    and "initializeHandlers epoll m \<lparr>created_monitor = Inr monitor_fd, created_dtr = Inr dtr_fd,
        created_dtls = Inr dtls_fd, created_clock = Inr clock_fd, created_interrupt = Inr interrupt_fd\<rparr> w
      = Inr (hs, v)"
  shows "coherent v \<and> length hs = 5 \<and> distinct hs \<and>
    (\<forall>i < 5. \<exists>h. handlers v (hs ! i) = Some h \<and> event_manager h = Some m \<and>
       handler_socket h = [clock_fd, monitor_fd, dtr_fd, dtls_fd, interrupt_fd] ! i)"
proof -
  let ?a = "next_address w"
  let ?fs = "[(monitor_fd, EPOLLIN), (dtr_fd, EPOLLIN), (dtls_fd, EPOLLIN), (clock_fd, EPOLLIN), (interrupt_fd, POLLIN)]"
  let ?fds = "[clock_fd, monitor_fd, dtr_fd, dtls_fd, interrupt_fd]"
  define c where "c = construct_all ?fs w"
  have "coherent c \<and> counters_ok n c \<and>
    (\<forall>i < length ?fs. \<exists>h. handlers c (?a + i) = Some h \<and> event_manager h = None \<and> handler_socket h = fst (?fs ! i)) \<and>
    (\<forall>p. p < ?a \<longrightarrow> handlers c p = handlers w p)"
    unfolding c_def by (rule construct_all_world) (use assms(2-6) in auto)
  then have inv: "coherent c" "counters_ok n c"
    and at: "\<And>i. i < 5 \<Longrightarrow> \<exists>h. handlers c (?a + i) = Some h \<and> event_manager h = None \<and> handler_socket h = fst (?fs ! i)"
    by simp_all
  have hs: "hs = [?a + 3, ?a, ?a + 1, ?a + 2, ?a + 4]" and v: "add_handlers epoll m hs c = Inr v"
    using assms(7) unfolding initializeHandlers_eq [OF refl] c_def by (auto simp: Let_def split: sum.splits)
  have socket: "\<exists>h. handlers c (hs ! i) = Some h \<and> event_manager h = None \<and> handler_socket h = ?fds ! i" if "i < 5" for i
    using that at [of 0] at [of 1] at [of 2] at [of 3] at [of 4]
    by (auto simp: hs less_Suc_eq eval_nat_numeral)
  have len: "length hs = 5" "distinct hs" by (simp_all add: hs)
  have "\<forall>p \<in> set hs. \<exists>h. handlers c p = Some h \<and> event_manager h = None"
    using socket len(1) by (metis in_set_conv_nth)
  from add_handlers_registers [OF assms(1) inv _ this len(2) v] assms(4) len(1)
  have V: "coherent v" "\<forall>p. registered_with m v p \<longleftrightarrow> p \<in> set hs \<or> registered_with m c p"
    "\<forall>p. map_option handler_socket (handlers v p) = map_option handler_socket (handlers c p)" by simp_all
  have "\<exists>h. handlers v (hs ! i) = Some h \<and> event_manager h = Some m \<and> handler_socket h = ?fds ! i" if "i < 5" for i
  proof -
    have "registered_with m v (hs ! i)" using V(2) that len(1) by simp
    moreover have "map_option handler_socket (handlers v (hs ! i)) = Some (?fds ! i)"
      using V(3) socket [OF that] by auto
    ultimately show ?thesis by (auto simp: registered_with_def)
  qed
  then show ?thesis using V(1) len by blast
qed

text \<open>And once they are removed no descriptor of theirs is watched.\<close>

lemma removed_handlers_not_watched:
  assumes "documented epoll" and "coherent v" and "distinct hs"
    and reg: "\<And>i. i < length hs \<Longrightarrow> \<exists>h. handlers v (hs ! i) = Some h \<and> event_manager h = Some m \<and> handler_socket h = fds ! i"
  shows "\<exists>u. remove_handlers epoll m hs v = Inr u \<and>
    (\<forall>i < length hs. epoll_interest (managers u m) (fds ! i) = None)"
proof -
  have "\<forall>p \<in> set hs. registered_with m v p" using reg by (metis in_set_conv_nth registered_with_def)
  from remove_handlers_removes [OF assms(1,2) this assms(3)] obtain u where
    u: "remove_handlers epoll m hs v = Inr u" "coherent u"
      "\<forall>p. registered_with m u p \<longleftrightarrow> p \<notin> set hs \<and> registered_with m v p"
      "\<forall>p. map_option handler_socket (handlers u p) = map_option handler_socket (handlers v p)" by blast
  have "epoll_interest (managers u m) (fds ! i) = None" if i: "i < length hs" for i
  proof (rule unregistered_not_watched [OF u(2)])
    fix q g assume q: "handlers u q = Some g" "handler_socket g = fds ! i"
    obtain h where h: "handlers u (hs ! i) = Some h" "handler_socket h = fds ! i"
      using u(4) [rule_format, of "hs ! i"] reg [OF i] by auto
    have "q = hs ! i" using coherent_socket [OF u(2) q(1) h(1)] q(2) h(2) by simp
    then have "\<not> registered_with m u q" using u(3) i by simp
    then show "event_manager g \<noteq> Some m" using q(1) by (simp add: registered_with_def)
  qed
  then show ?thesis using u(1) by blast
qed



subsection \<open>Moved handlers\<close>

text \<open>
  The \<open>Create\<close> functions build a handler as a temporary and return it moved: \<open>EventHandler_move\<close> of
  \<open>Event_Handlers\<close>.  What is created so is a new handler, at a later address.
\<close>

lemma moved_temporary:
  assumes "coherent w" "EventHandler_new fd ev w = (p, u)" "EventHandler_move p u = (q, v)"
  shows "handlers v = (handlers w)(q \<mapsto> \<lparr>event_manager = None, handle = 0, handler_socket = fd, handler_events = ev\<rparr>)"
    "q = Suc (next_address w)" "next_address v = Suc q" "managers v = managers w" "open_descriptors v = insert fd (open_descriptors w)"
proof -
  have "handlers w (next_address w) = None"
    using coherent_alive [OF assms(1), of "next_address w"] by (cases "handlers w (next_address w)") auto
  then show "handlers v = (handlers w)(q \<mapsto> \<lparr>event_manager = None, handle = 0, handler_socket = fd, handler_events = ev\<rparr>)"
    "q = Suc (next_address w)" "next_address v = Suc q" "managers v = managers w" "open_descriptors v = insert fd (open_descriptors w)"
    using assms(2,3) by (auto simp: EventHandler_new_def EventHandler_move_def)
qed

text \<open>
  The move copies a registration but the manager is not told: a registered handler that is moved has
  an expired entry in its manager's table, and its descriptor stays watched under this handle.
\<close>

theorem moved_handler_is_lost:
  assumes "coherent w" and "handlers w p = Some h" and "event_manager h = Some m"
  shows "case EventHandler_move p w of (q, v) \<Rightarrow>
    registered_with m v q \<and> handle h \<in> set (expired_handlers m v) \<and> watched v m (handler_socket h) = Some (handle h) \<and>
    (\<forall>k. reg v m k \<noteq> Some q)"
proof -
  let ?q = "next_address w"
  have q: "\<And>i k. reg w i k \<noteq> Some ?q" "p \<noteq> ?q"
    using coherent_address [OF assms(1), of _ _ ?q] coherent_alive [OF assms(1,2)] by auto
  have r: "reg w m (handle h) = Some p" "watched w m (handler_socket h) = Some (handle h)"
    using coherent_handler [OF assms] by simp_all
  then have "(handle h, p) \<in> set (registered_events (managers w m))"
    using om_find_in_set [OF coherent_om_inv [OF assms(1)]] by (simp add: reg_def)
  then show ?thesis
    using q r assms(2,3)
    by (force simp: EventHandler_move_def registered_with_def expired_handlers_def watched_def reg_def)
qed

text \<open>The move assignment drops the registration of its target, without removing it.  Nothing in the
  program assigns a registered handler.\<close>

lemma assigned_handler_keeps_old_entry:
  assumes "coherent w" "handlers w p = Some h" "event_manager h = Some m" "handlers w q = Some g" "event_manager g = Some n"
    and "p \<noteq> q" and "v = EventHandler_move_assign p q w"
  shows "\<exists>f. handlers v p = Some f \<and> event_manager f = Some n \<and> handle f = handle g \<and>
    reg v m (handle h) = Some p \<and> reg v n (handle f) = Some q \<and> \<not> coherent v"
proof -
  have r: "reg w m (handle h) = Some p" "reg w n (handle g) = Some q"
    using coherent_handler [OF assms(1)] assms(2-5) by blast+
  have v: "handlers v p = Some (h\<lparr>event_manager := Some n, handle := handle g\<rparr>)" "reg v = reg w"
    using assms(2,4,5,6) by (simp_all add: assms(7) EventHandler_move_assign_def reg_def fun_eq_iff)
  have "\<not> coherent v"
  proof
    assume "coherent v"
    from coherent_handler [OF this v(1)] have "reg w n (handle g) = Some p" by (simp add: v(2))
    then show False using r(2) assms(6) by simp
  qed
  then show ?thesis using r v by simp
qed

end
