(* ===== verification/Server.thy ===== *)
theory Server
  imports Server_Handlers Clock_Handler
begin

section \<open>The server's main loop\<close>

text \<open>
  The second half of \<open>server_main.cc\<close>: the signal handler, the options and the main loop, over the
  state that the handlers share: the neighbour list and the LLDP repository, which the clock's record
  holds, the receive buffer, the connected clients, the interrupt flag and the environments of the
  components.  An event is what one call of a handler finds; a batch is what one \<open>ProcessEvents\<close>
  dispatches.
\<close>

subsection \<open>Options and signals\<close>

text \<open>The loop over the arguments, the program's name included.\<close>

fun verbose_option :: "string list \<Rightarrow> bool \<Rightarrow> bool" where
  "verbose_option [] verbose = verbose"
| "verbose_option (arg # args) verbose = verbose_option args (if arg = ''-v'' then True else verbose)"

record interrupt_state =
  interrupt_flag :: bool
  signals_blocked :: bool

text \<open>\<open>InterruptHandler::Call\<close> with the success of \<open>read\<close> and of \<open>sigprocmask\<close>.\<close>

definition InterruptHandler_Call :: "bool \<Rightarrow> bool \<Rightarrow> interrupt_state \<Rightarrow> interrupt_state" where
  "InterruptHandler_Call read_ok unblock_ok st =
     (if \<not> read_ok then st
      else st\<lparr>interrupt_flag := True, signals_blocked := signals_blocked st \<and> \<not> unblock_ok\<rparr>)"

subsection \<open>The handlers over the shared state\<close>

record server =
  srv_clock :: ClockHandler
  srv_buffer :: nat
  srv_clients :: client_service
  srv_interrupt :: interrupt_state
  srv_netlink :: nl_env
  srv_link :: link_env

datatype server_event =
  Timer_ready "u64 option"                                   \<comment> \<open>what \<open>read\<close> delivers\<close>
| Frame_ready "bytes option" "(sockaddr_ll \<times> bytes) option"  \<comment> \<open>what the two calls of \<open>recvmsg\<close> deliver\<close>
| Monitor_ready NetlinkPacketView                            \<comment> \<open>one message of each netlink socket\<close>
| Device_ready NetlinkPacketView
| Address_ready NetlinkPacketView
| Client_data nat "bytes option" bool                        \<comment> \<open>a client's handler, its datagram, the write's success\<close>
| Clients_ready bool
| Listener_ready "nat option"
| Signal_ready bool bool

text \<open>The callback bound to the receiver is \<open>lldpFrameParser\<close> on the shared neighbour list.\<close>

definition frame_called ::
  "bytes option \<Rightarrow> (sockaddr_ll \<times> bytes) option \<Rightarrow> nat \<Rightarrow> NeighbourList \<Rightarrow> (nat \<times> NeighbourList) cpp" where
  "frame_called peek recv buffer_size nl =
     (case Monitor_Call buffer_size peek recv of
        (buf, None) \<Rightarrow> Inr (buf, nl)
      | (buf, Some (address, frame)) \<Rightarrow>
          (case lldpFrameParser nl address frame of
             Inl (Undefined why) \<Rightarrow> Inl why | Inl _ \<Rightarrow> Inr (buf, nl) | Inr nl \<Rightarrow> Inr (buf, nl)))"

definition netlink_called :: "repository_event \<Rightarrow> server \<Rightarrow> server" where
  "netlink_called e s =
     (case lldp_repository_step e (lldp_repository (srv_clock s), srv_netlink s, srv_link s) of (repo, nenv, env) \<Rightarrow>
        s\<lparr>srv_clock := (srv_clock s)\<lparr>lldp_repository := repo\<rparr>, srv_netlink := nenv, srv_link := env\<rparr>)"

text \<open>One call of a handler: the packets written to a client, if any, and the state after it.\<close>

fun handler_called ::
  "epoll_ctl \<Rightarrow> nat \<Rightarrow> server_event \<Rightarrow> server \<Rightarrow> ((nat \<times> bytes list) list \<times> server) cpp" where
  "handler_called epoll m (Timer_ready read_result) s =
     (case ClockHandler_Call read_result (srv_clock s, srv_netlink s, srv_link s) of (_, clock, nenv, env) \<Rightarrow>
        Inr ([], s\<lparr>srv_clock := clock, srv_netlink := nenv, srv_link := env\<rparr>))"
| "handler_called epoll m (Frame_ready peek recv) s =
     bind_cpp (frame_called peek recv (srv_buffer s) (neighbour_list (srv_clock s))) (\<lambda>(buf, nl).
       Inr ([], s\<lparr>srv_buffer := buf, srv_clock := (srv_clock s)\<lparr>neighbour_list := nl\<rparr>\<rparr>))"
| "handler_called epoll m (Monitor_ready p) s = Inr ([], netlink_called (Monitor_packet p) s)"
| "handler_called epoll m (Device_ready p) s = Inr ([], netlink_called (Device_packet p) s)"
| "handler_called epoll m (Address_ready p) s = Inr ([], netlink_called (Address_packet p) s)"
| "handler_called epoll m (Client_data p received write_ok) s =
     bind_cpp (client_called p received (current_state (lldp_repository (srv_clock s)))
         (neighbour_list (srv_clock s)) write_ok (srv_clients s)) (\<lambda>(packets, cs).
       Inr ([(p, packets)], s\<lparr>srv_clients := cs\<rparr>))"
| "handler_called epoll m (Clients_ready read_ok) s =
     Inr ([], s\<lparr>srv_clients := ClientRepository_Call epoll read_ok (srv_clients s)\<rparr>)"
| "handler_called epoll m (Listener_ready accepted) s =
     Inr ([], s\<lparr>srv_clients := ClientListenSocket_Call epoll m accepted (srv_clients s)\<rparr>)"
| "handler_called epoll m (Signal_ready read_ok unblock_ok) s =
     Inr ([], s\<lparr>srv_interrupt := InterruptHandler_Call read_ok unblock_ok (srv_interrupt s)\<rparr>)"

fun server_run ::
  "epoll_ctl \<Rightarrow> nat \<Rightarrow> server_event list \<Rightarrow> server \<Rightarrow> ((nat \<times> bytes list) list \<times> server) cpp" where
  "server_run epoll m [] s = Inr ([], s)"
| "server_run epoll m (e # es) s =
     bind_cpp (handler_called epoll m e s) (\<lambda>(out, s).
     bind_cpp (server_run epoll m es s) (\<lambda>(outs, s). Inr (out @ outs, s)))"

text \<open>
  The loop of \<open>main\<close> over the batches that the kernel will report; the ones not consumed are
  returned.  Without batches it would wait on.
\<close>

fun main_loop ::
  "epoll_ctl \<Rightarrow> nat \<Rightarrow> server_event list list \<Rightarrow> server \<Rightarrow>
   ((nat \<times> bytes list) list \<times> server \<times> server_event list list) cpp" where
  "main_loop epoll m batches s =
     (if interrupt_flag (srv_interrupt s) then Inr ([], s, batches)
      else case batches of [] \<Rightarrow> Inr ([], s, [])
      | batch # batches \<Rightarrow>
          bind_cpp (server_run epoll m batch s) (\<lambda>(out, s).
          bind_cpp (main_loop epoll m batches s) (\<lambda>(outs, s, rest). Inr (out @ outs, s, rest))))"

declare main_loop.simps [simp del]

subsection \<open>What the parts of the server see\<close>

text \<open>The events of the LLDP repository and those of the neighbour list among the server's.\<close>

fun repository_events :: "server_event \<Rightarrow> repository_event list" where
  "repository_events (Timer_ready (Some t)) = (if t = 0 then [] else [Clock_tick t])"
| "repository_events (Monitor_ready p) = [Monitor_packet p]"
| "repository_events (Device_ready p) = [Device_packet p]"
| "repository_events (Address_ready p) = [Address_packet p]"
| "repository_events _ = []"

fun neighbour_event :: "server_event \<Rightarrow> nat \<times> NeighbourList \<Rightarrow> (nat \<times> NeighbourList) cpp" where
  "neighbour_event (Timer_ready (Some t)) (buf, nl) = Inr (buf, if t = 0 then nl else NeighbourList_Tick t nl)"
| "neighbour_event (Frame_ready peek recv) (buf, nl) = frame_called peek recv buf nl"
| "neighbour_event _ p = Inr p"

fun neighbour_run :: "server_event list \<Rightarrow> nat \<times> NeighbourList \<Rightarrow> (nat \<times> NeighbourList) cpp" where
  "neighbour_run [] p = Inr p"
| "neighbour_run (e # es) p = bind_cpp (neighbour_event e p) (neighbour_run es)"

definition repository_part :: "server \<Rightarrow> LldpRepository \<times> nl_env \<times> link_env" where
  "repository_part s = (lldp_repository (srv_clock s), srv_netlink s, srv_link s)"

definition neighbour_part :: "server \<Rightarrow> nat \<times> NeighbourList" where
  "neighbour_part s = (srv_buffer s, neighbour_list (srv_clock s))"

lemma netlink_called_parts:
  "repository_part (netlink_called e s) = lldp_repository_step e (repository_part s)"
  "neighbour_part (netlink_called e s) = neighbour_part s"
  "srv_interrupt (netlink_called e s) = srv_interrupt s"
  by (simp_all add: netlink_called_def repository_part_def neighbour_part_def split: prod.split)

lemma handler_called_parts:
  assumes "handler_called epoll m e s = Inr (out, s')"
  shows "repository_part s' = lldp_repository_run (repository_events e) (repository_part s) \<and>
    neighbour_event e (neighbour_part s) = Inr (neighbour_part s')"
proof (cases e)
  case (Timer_ready r)
  then show ?thesis
    using assms
    by (cases r) (auto simp: ClockHandler_Call_def lldp_repository_run_def repository_part_def neighbour_part_def Let_def
        split: prod.splits if_splits)
next
  case (Frame_ready peek recv)
  then show ?thesis
    using assms by (auto simp: lldp_repository_run_def repository_part_def neighbour_part_def)
next
  case (Client_data p received write_ok)
  then show ?thesis
    using assms by (auto simp: lldp_repository_run_def repository_part_def neighbour_part_def)
next
  case (Monitor_ready p)
  then show ?thesis
    using assms by (cases "neighbour_part s") (auto simp: lldp_repository_run_def netlink_called_parts)
next
  case (Device_ready p)
  then show ?thesis
    using assms by (cases "neighbour_part s") (auto simp: lldp_repository_run_def netlink_called_parts)
next
  case (Address_ready p)
  then show ?thesis
    using assms by (cases "neighbour_part s") (auto simp: lldp_repository_run_def netlink_called_parts)
qed (use assms in \<open>auto simp: lldp_repository_run_def repository_part_def neighbour_part_def\<close>)

lemma server_run_append:
  "server_run epoll m (es @ fs) s = bind_cpp (server_run epoll m es s) (\<lambda>(out, s).
     bind_cpp (server_run epoll m fs s) (\<lambda>(outs, s). Inr (out @ outs, s)))"
proof (induction es arbitrary: s)
  case Nil
  show ?case by (cases "server_run epoll m fs s") auto
next
  case (Cons e es)
  show ?case
  proof (cases "handler_called epoll m e s")
    case (Inr r)
    obtain out t where r: "r = (out, t)" by (cases r)
    show ?thesis
      using Inr r Cons.IH [of t]
      by (cases "server_run epoll m es t"; cases "server_run epoll m fs (snd (projr (server_run epoll m es t)))")
        (auto simp: case_prod_beta)
  qed simp
qed

text \<open>Only a signal that could be read sets the flag, and nothing clears it.\<close>

fun is_interrupt :: "server_event \<Rightarrow> bool" where
  "is_interrupt (Signal_ready read_ok _) \<longleftrightarrow> read_ok"
| "is_interrupt _ \<longleftrightarrow> False"

lemma handler_called_interrupt:
  assumes "handler_called epoll m e s = Inr (out, s')"
  shows "interrupt_flag (srv_interrupt s') \<longleftrightarrow> interrupt_flag (srv_interrupt s) \<or> is_interrupt e"
proof (cases e)
  case (Timer_ready r)
  then show ?thesis using assms by (auto split: prod.splits)
qed (use assms in \<open>auto simp: netlink_called_parts InterruptHandler_Call_def\<close>)

lemma server_run_interrupt:
  "server_run epoll m es s = Inr (out, s') \<Longrightarrow>
   interrupt_flag (srv_interrupt s') \<longleftrightarrow> interrupt_flag (srv_interrupt s) \<or> (\<exists>e \<in> set es. is_interrupt e)"
proof (induction es arbitrary: s out)
  case (Cons e es)
  from Cons.prems obtain out1 t out2 where "handler_called epoll m e s = Inr (out1, t)"
    "server_run epoll m es t = Inr (out2, s')" by auto
  then show ?case using handler_called_interrupt Cons.IH by fastforce
qed simp


lemma lldp_repository_run_append:
  "lldp_repository_run (es @ fs) p = lldp_repository_run fs (lldp_repository_run es p)"
  by (simp add: lldp_repository_run_def)

lemma bind_cpp_return_pair: "bind_cpp r (\<lambda>(a, b). Inr (a, b)) = r"
  by (cases r) auto

lemma server_run_parts:
  assumes "server_run epoll m es s = Inr (out, s')"
  shows "repository_part s' = lldp_repository_run (concat (map repository_events es)) (repository_part s) \<and>
    neighbour_run es (neighbour_part s) = Inr (neighbour_part s')"
  using assms
proof (induction es arbitrary: s out)
  case (Cons e es)
  then obtain out1 t out2 where "handler_called epoll m e s = Inr (out1, t)"
    "server_run epoll m es t = Inr (out2, s')" by auto
  then show ?case
    using handler_called_parts [of epoll m e s out1 t] Cons.IH [of t out2] by (simp add: lldp_repository_run_append)
qed (simp add: lldp_repository_run_def)

subsection \<open>Properties\<close>

definition example_server :: server where
  "example_server = \<lparr>srv_clock = example_clock, srv_buffer = 2,
     srv_clients = \<lparr>transport_sockets = [], event_counter = 0, event_world = world_new\<rparr>,
     srv_interrupt = \<lparr>interrupt_flag = False, signals_blocked = True\<rparr>, srv_netlink = example_nl_env,
     srv_link = example_link_env\<rparr>"

text \<open>The server stops when a signal is read.\<close>

lemma main_loop_waits:
  assumes "\<not> interrupt_flag (srv_interrupt s)" "\<forall>batch \<in> set pre. \<forall>e \<in> set batch. \<not> is_interrupt e"
  shows "main_loop epoll m (pre @ rest) s = bind_cpp (server_run epoll m (concat pre) s) (\<lambda>(out, s).
     bind_cpp (main_loop epoll m rest s) (\<lambda>(outs, s, left). Inr (out @ outs, s, left)))"
  using assms
proof (induction pre arbitrary: s)
  case Nil
  show ?case by (cases "main_loop epoll m rest s") auto
next
  case (Cons batch pre)
  show ?case
  proof (cases "server_run epoll m batch s")
    case (Inl e)
    then show ?thesis
      using Cons.prems(1) by (simp add: main_loop.simps [of epoll m "batch # (pre @ rest)" s] server_run_append)
  next
    case (Inr r)
    obtain out t where r: "r = (out, t)" by (cases r)
    have t: "\<not> interrupt_flag (srv_interrupt t)"
      using server_run_interrupt [OF Inr [unfolded r]] Cons.prems by auto
    have "main_loop epoll m (batch # (pre @ rest)) s =
      bind_cpp (main_loop epoll m (pre @ rest) t) (\<lambda>(outs, s, left). Inr (out @ outs, s, left))"
      using Cons.prems(1) Inr r by (simp add: main_loop.simps [of epoll m "batch # (pre @ rest)" s])
    also have "\<dots> = bind_cpp (server_run epoll m (concat pre) t) (\<lambda>(out1, s).
       bind_cpp (main_loop epoll m rest s) (\<lambda>(outs, s, left). Inr (out @ out1 @ outs, s, left)))"
      using Cons.IH [OF t] Cons.prems(2)
      by (cases "server_run epoll m (concat pre) t") (simp_all add: bind_cpp_assoc case_prod_beta')
    also have "\<dots> = bind_cpp (server_run epoll m (concat (batch # pre)) s) (\<lambda>(out, s).
       bind_cpp (main_loop epoll m rest s) (\<lambda>(outs, s, left). Inr (out @ outs, s, left)))"
      using Inr r by (simp add: server_run_append bind_cpp_assoc case_prod_beta')
    finally show ?thesis unfolding append_Cons .
  qed
qed

text \<open>The main loop handles every event of every batch until one in which a signal is read; that batch
  it handles completely, also what follows the signal in it, and no later one.\<close>
theorem server_stops_at_signal:
  assumes "\<not> interrupt_flag (srv_interrupt s)" and "\<forall>batch \<in> set before. \<forall>e \<in> set batch. \<not> is_interrupt e"
    and "\<exists>e \<in> set batch. is_interrupt e"
  shows "main_loop epoll m (before @ batch # later) s =
    bind_cpp (server_run epoll m (concat before @ batch) s) (\<lambda>(out, s). Inr (out, s, later))"
proof -
  have last: "main_loop epoll m (batch # later) t =
      bind_cpp (server_run epoll m batch t) (\<lambda>(out, s). Inr (out, s, later))"
    if "\<not> interrupt_flag (srv_interrupt t)" for t
  proof (cases "server_run epoll m batch t")
    case (Inr r)
    obtain out u where r: "r = (out, u)" by (cases r)
    have "interrupt_flag (srv_interrupt u)"
      using server_run_interrupt [OF Inr [unfolded r]] assms(3) by blast
    then show ?thesis
      using that Inr r
      by (simp add: main_loop.simps [of epoll m "batch # later" t] main_loop.simps [of epoll m later u])
  qed (use that in \<open>simp add: main_loop.simps [of epoll m "batch # later" t]\<close>)
  show ?thesis
  proof (cases "server_run epoll m (concat before) s")
    case (Inr r)
    obtain out t where r: "r = (out, t)" by (cases r)
    have "\<not> interrupt_flag (srv_interrupt t)"
      using server_run_interrupt [OF Inr [unfolded r]] assms(1,2) by auto
    then show ?thesis
      using main_loop_waits [OF assms(1,2), of epoll m "batch # later"] Inr r last [of t]
      by (simp add: server_run_append bind_cpp_assoc case_prod_beta')
  qed (use main_loop_waits [OF assms(1,2), of epoll m "batch # later"] in \<open>simp add: server_run_append\<close>)
qed

theorem server_stops_at_signal_witness:
  "main_loop example_epoll 0 [[Timer_ready (Some 1)], [Signal_ready True True, Timer_ready (Some 2)], [Timer_ready (Some 9)]]
      example_server
    = bind_cpp (server_run example_epoll 0 [Timer_ready (Some 1), Signal_ready True True, Timer_ready (Some 2)] example_server)
        (\<lambda>(out, s). Inr (out, s, [[Timer_ready (Some 9)]]))"
  using server_stops_at_signal [of example_server "[[Timer_ready (Some 1)]]" "[Signal_ready True True, Timer_ready (Some 2)]"
      example_epoll 0 "[[Timer_ready (Some 9)]]"]
  by (simp add: example_server_def del: server_run.simps)

end
