(* ===== verification/Client_Program.thy ===== *)
theory Client_Program
  imports Text_Output
begin

section \<open>The client program\<close>

text \<open>
  \<open>main\<close> of \<open>client_main.cc\<close>: its options, the connection to the service, and the tables it prints,
  once or again and again.  What the kernel answers and which datagrams arrive are parameters; the
  program ends with undefined behaviour when it goes on without a connection.
\<close>

definition DEFAULT_CONTINUOUS_MODE_TIMER :: int where "DEFAULT_CONTINUOUS_MODE_TIMER = 5"

subsection \<open>Options\<close>

text \<open>
  \<open>std::from_chars\<close> for an \<open>int\<close> in base 10: an optional minus sign and the digits after it; the value
  stays as it is when there is no digit or the number does not fit.
\<close>

definition is_digit :: "char \<Rightarrow> bool" where
  "is_digit c \<longleftrightarrow> 48 \<le> (of_char c :: nat) \<and> (of_char c :: nat) \<le> 57"

definition digits_value :: "string \<Rightarrow> nat" where
  "digits_value = foldl (\<lambda>n c. 10 * n + (of_char c - 48)) 0"

definition from_chars :: "string \<Rightarrow> int \<Rightarrow> int" where
  "from_chars s v =
     (let negative = (s \<noteq> [] \<and> hd s = CHR ''-'');
          digits = takeWhile is_digit (if negative then tl s else s);
          number = (if negative then - int (digits_value digits) else int (digits_value digits))
      in if digits = [] then v else if number < - (2 ^ 31) \<or> 2 ^ 31 \<le> number then v else number)"

text \<open>The loop over the arguments, the program's name included: run continuously, and how often.\<close>

fun client_options :: "string list \<Rightarrow> bool \<times> int \<Rightarrow> bool \<times> int" where
  "client_options [] st = st"
| "client_options (arg # args) (run_continuous, timeout) =
     (let run_continuous = (if arg = ''-c'' then True else run_continuous)
      in if arg = ''-t'' then
           (case args of [] \<Rightarrow> (run_continuous, timeout)
            | next_arg # later \<Rightarrow> client_options later (run_continuous, from_chars next_arg timeout))
         else client_options args (run_continuous, timeout))"

subsection \<open>Running\<close>

text \<open>The results of \<open>socket\<close> and \<open>connect\<close>, each with \<open>errno\<close>.\<close>

definition ClientReceiverSocket_Create :: "int \<times> int \<Rightarrow> int \<times> int \<Rightarrow> int + ClientReceiverSocket" where
  "ClientReceiverSocket_Create = (\<lambda>(socket_fd, err) (bind_result, connect_err).
     if socket_fd < 0 then Inl err
     else if bind_result < 0 then Inl connect_err
     else Inr \<lparr>cr_request_id = 1\<rparr>)"

text \<open>
  The first \<open>n\<close> rounds of the loop: the tables printed; \<open>None\<close> when a read blocks for ever because no
  datagram is left.
\<close>

fun client_rounds :: "inet_ntop \<Rightarrow> nat \<Rightarrow> recv_result list \<Rightarrow> ClientReceiverSocket \<Rightarrow> string list option cpp" where
  "client_rounds ntop 0 rs c = Inr (Some [])"
| "client_rounds ntop (Suc n) rs c =
     bind_cpp (snd (GetData rs c)) (\<lambda>res.
       case res of None \<Rightarrow> Inr None
       | Some (device_map, c, rest) \<Rightarrow> bind_cpp (client_rounds ntop n rest c) (\<lambda>tables.
           Inr (map_option (Cons (dumpNeighbourData ntop device_map)) tables)))"

text \<open>The tables with the seconds of sleep after each, an \<open>unsigned int\<close>, if the loop goes on.\<close>

definition client_main ::
  "inet_ntop \<Rightarrow> nat \<Rightarrow> string list \<Rightarrow> int + ClientReceiverSocket \<Rightarrow> recv_result list \<Rightarrow>
   (u32 option \<times> string list option) cpp" where
  "client_main ntop rounds args created rs =
     (case client_options args (False, DEFAULT_CONTINUOUS_MODE_TIMER) of (run_continuous, timeout) \<Rightarrow>
        (case created of Inl _ \<Rightarrow> Inl Empty_dereference
         | Inr c \<Rightarrow>
            if run_continuous
            then bind_cpp (client_rounds ntop rounds rs c) (\<lambda>tables. Inr (Some (word_of_int timeout), tables))
            else bind_cpp (client_rounds ntop 1 rs c) (\<lambda>tables. Inr (None, tables))))"

subsection \<open>Reading numbers back\<close>

lemma of_char_hex_digit: "n < 10 \<Longrightarrow> (of_char (hex_digit n) :: nat) = 48 + n"
  by (cases "n = 0 \<or> n = 1 \<or> n = 2 \<or> n = 3 \<or> n = 4"; cases "n = 5 \<or> n = 6 \<or> n = 7 \<or> n = 8 \<or> n = 9")
    (auto simp: hex_digit_def)

lemma decimal_digits: "\<forall>c \<in> set (decimal n). is_digit c"
proof (induction n rule: decimal.induct)
  case (1 n)
  have "n mod 10 < 10" by simp
  then show ?case
    using 1 by (cases "n < 10") (auto simp: decimal.simps [of n] is_digit_def of_char_hex_digit)
qed

lemma digits_value_decimal: "digits_value (decimal n) = n"
proof (induction n rule: decimal.induct)
  case (1 n)
  have "n mod 10 < 10" by simp
  then show ?case
    using 1 by (cases "n < 10") (auto simp: decimal.simps [of n] digits_value_def of_char_hex_digit)
qed

lemma decimal_not_Nil: "decimal n \<noteq> []"
  by (cases "n < 10") (simp_all add: decimal.simps [of n])

lemma from_chars_decimal: "n < 2 ^ 31 \<Longrightarrow> from_chars (decimal n) v = int n"
proof -
  assume n: "n < 2 ^ 31"
  have "is_digit (hd (decimal n))" using decimal_digits [of n] decimal_not_Nil [of n] by simp
  then have "hd (decimal n) \<noteq> CHR ''-''" by (auto simp: is_digit_def)
  moreover have tw: "takeWhile is_digit (decimal n) = decimal n" using decimal_digits [of n] by simp
  ultimately show ?thesis using n decimal_not_Nil [of n] by (simp add: from_chars_def digits_value_decimal Let_def tw)
qed

lemma client_options_without_t:
  "''-t'' \<notin> set pre \<Longrightarrow> client_options (pre @ args) (run, timeout) = client_options args (run \<or> ''-c'' \<in> set pre, timeout)"
  by (induction pre arbitrary: run) auto

subsection \<open>Properties\<close>

text \<open>The interval after \<open>-t\<close>, printed in decimal, is read back as given, wherever the options stand,
  and the client runs continuously exactly when \<open>-c\<close> is among the other arguments.\<close>
theorem interval_option_read:
  assumes "n < 2 ^ 31" and "''-t'' \<notin> set before" and "''-t'' \<notin> set after"
  shows "client_options (before @ [''-t'', decimal n] @ after) (False, DEFAULT_CONTINUOUS_MODE_TIMER)
    = (''-c'' \<in> set before \<or> ''-c'' \<in> set after, int n)"
  using client_options_without_t [OF assms(3), of "[]" "''-c'' \<in> set before" "int n"]
  by (simp add: client_options_without_t [OF assms(2)] from_chars_decimal [OF assms(1)])

theorem interval_option_read_witness:
  "client_options ([''client''] @ [''-t'', decimal 42] @ [''-c'']) (False, DEFAULT_CONTINUOUS_MODE_TIMER) = (True, 42)"
  using interval_option_read [of 42 "[''client'']" "[''-c'']"] by simp

text \<open>What the service sends to the client in consecutive states, for consecutive requests.\<close>

fun answers_of :: "u16 \<Rightarrow> (senders \<times> NeighbourList) list \<Rightarrow> ClientSenderSocket \<Rightarrow> recv_result list cpp" where
  "answers_of request_id [] s = Inr []"
| "answers_of request_id ((device_info, nl) # states) s =
     bind_cpp (ClientSenderSocket_Call (Some (as_bytes16 request_id)) device_info nl s) (\<lambda>(s, packets, _).
     bind_cpp (answers_of (request_id + 1) states s) (\<lambda>rs. Inr (map (\<lambda>p. (Some p, 0)) packets @ rs)))"

definition showable :: "senders \<Rightarrow> NeighbourList \<Rightarrow> bool" where
  "showable device_info nl \<longleftrightarrow> nl_inv nl \<and> names_ok device_info \<and> length (neighbours_of nl) < 20000 \<and>
     (\<forall>chassis port e. nl_lookup nl (chassis, port) = Some e \<longrightarrow> presentable port e)"

lemma rounds_show_states:
  assumes "\<forall>(device_info, nl) \<in> set states. showable device_info nl"
  shows "\<exists>rs. answers_of (cr_request_id c) states s = Inr rs \<and>
     client_rounds ntop (length states) rs c = Inr (Some (map (\<lambda>(device_info, nl).
       dumpNeighbourData ntop (client_table device_info nl)) states))"
  using assms
proof (induction states arbitrary: c)
  case (Cons st states)
  obtain device_info nl where st: "st = (device_info, nl)" by (cases st)
  have "nl_inv nl" "names_ok device_info" "length (neighbours_of nl) < 20000"
    "\<And>chassis port e. nl_lookup nl (chassis, port) = Some e \<Longrightarrow> presentable port e"
    using Cons.prems st by (auto simp: showable_def)
  from answered_request [OF this, where rid = "cr_request_id c"] obtain packets where
    p: "DumpData (cr_request_id c) device_info nl = Inr packets"
    "\<And>rs rest. map fst rs = map Some packets \<Longrightarrow>
        snd (GetData (rs @ rest) c) = Inr (Some (client_table device_info nl, c\<lparr>cr_request_id := cr_request_id c + 1\<rparr>, rest))"
    by (fastforce simp: prod_eq_iff)
  obtain rs where rs: "answers_of (cr_request_id c + 1) states s = Inr rs"
    "client_rounds ntop (length states) rs (c\<lparr>cr_request_id := cr_request_id c + 1\<rparr>) = Inr (Some (map (\<lambda>(device_info, nl).
       dumpNeighbourData ntop (client_table device_info nl)) states))"
    using Cons.IH [of "c\<lparr>cr_request_id := cr_request_id c + 1\<rparr>"] Cons.prems by auto
  have call: "ClientSenderSocket_Call (Some (as_bytes16 (cr_request_id c))) device_info nl s = Inr (s, packets, False)"
    using p(1) by (simp add: ClientSenderSocket_Call_def as_bytes16_def)
  have "snd (GetData (map (\<lambda>p. (Some p, 0)) packets @ rs) c)
      = Inr (Some (client_table device_info nl, c\<lparr>cr_request_id := cr_request_id c + 1\<rparr>, rs))"
    by (rule p(2)) simp
  then show ?case using rs call by (auto simp: st)
qed simp

text \<open>C37: In continuous mode the client prints in every round the table of the service's state at that
  round and nothing of an earlier one, for as many rounds as the service is showable, and sleeps the
  interval of the options in between.\<close>
theorem continuous_client_shows_each_state:
  assumes "\<forall>(device_info, nl) \<in> set states. neighbours_reachable nl \<and> names_ok device_info \<and>
      length (neighbours_of nl) < 20000 \<and>
      (\<forall>chassis port e. nl_lookup nl (chassis, port) = Some e \<longrightarrow> length port \<le> 506)"
    and "client_options args (False, DEFAULT_CONTINUOUS_MODE_TIMER) = (True, timeout)"
    and "ClientReceiverSocket_Create socket_result connect_result = Inr c"
  shows "\<exists>rs. answers_of 1 states s = Inr rs \<and>
    client_main ntop (length states) args (ClientReceiverSocket_Create socket_result connect_result) rs
      = Inr (Some (word_of_int timeout), Some (map (\<lambda>(device_info, nl). dumpNeighbourData ntop
          (numbered (map (client_view device_info) (neighbours_of nl)))) states))"
proof -
  have "showable device_info nl" if "(device_info, nl) \<in> set states" for device_info nl
  proof -
    have nl: "neighbours_reachable nl" "names_ok device_info" "length (neighbours_of nl) < 20000"
      "\<forall>chassis port e. nl_lookup nl (chassis, port) = Some e \<longrightarrow> length port \<le> 506"
      using bspec [OF assms(1) that] by (simp_all only: prod.case, blast+)
    then show ?thesis
      using reachable_nl_wf [OF nl(1)]
      by (fastforce simp: showable_def presentable_def nl_wf_def entry_wf_def sizeof_in_addr_def sizeof_in6_addr_def
          split: option.splits)
  qed
  then have "\<forall>(device_info, nl) \<in> set states. showable device_info nl" by auto
  moreover have "c = \<lparr>cr_request_id = 1\<rparr>"
    using assms(3) by (auto simp: ClientReceiverSocket_Create_def split: prod.splits if_splits)
  ultimately show ?thesis
    using rounds_show_states [of states c s ntop] assms(2,3) by (auto simp: client_main_def client_table_def)
qed

theorem continuous_client_shows_each_state_witness:
  "\<exists>rs. answers_of 1 [(example_interfaces, [([7], [([7], example_entry [7])])]), (example_interfaces, [])]
      \<lparr>client_socket = 9, eof_received = False\<rparr> = Inr rs \<and>
    client_main example_ntop 2 [''client'', ''-c''] (ClientReceiverSocket_Create (3, 0) (0, 0)) rs
      = Inr (Some 5, Some [dumpNeighbourData example_ntop (numbered (map (client_view example_interfaces)
          (neighbours_of [([7], [([7], example_entry [7])])]))), dumpNeighbourData example_ntop (numbered [])])"
proof -
  let ?nl = "[([7], [([7], example_entry [7])])]"
  let ?states = "[(example_interfaces, ?nl), (example_interfaces, [])] :: (senders \<times> NeighbourList) list"
  have "lldpFrameParser [] example_arrival [2, 1, 7, 4, 1, 7, 6, 2, 0, 30, 0, 0] = Inr ?nl" by code_simp
  then have "neighbours_reachable ?nl"
    using neighbours_reachable.received [OF neighbours_reachable.start] by blast
  then have states: "\<forall>(device_info, nl) \<in> set ?states. neighbours_reachable nl \<and> names_ok device_info \<and>
      length (neighbours_of nl) < 20000 \<and>
      (\<forall>chassis port e. nl_lookup nl (chassis, port) = Some e \<longrightarrow> length port \<le> 506)"
    by (auto simp: names_ok_example neighbours_reachable.start neighbours_of_def nl_lookup_def om_find_Cons
        split: if_splits)
  have options: "client_options [''client'', ''-c''] (False, DEFAULT_CONTINUOUS_MODE_TIMER) = (True, 5)" by code_simp
  have created: "ClientReceiverSocket_Create (3, 0) (0, 0) = Inr \<lparr>cr_request_id = 1\<rparr>"
    by (simp add: ClientReceiverSocket_Create_def)
  have eqs: "length ?states = 2" "(word_of_int 5 :: u32) = 5" "neighbours_of [] = []"
    by (simp_all add: neighbours_of_def)
  show ?thesis
    using continuous_client_shows_each_state [OF states options created, of "\<lparr>client_socket = 9, eof_received = False\<rparr>"
        example_ntop]
    unfolding eqs list.map prod.case .
qed

end
