(* ===== verification/Service_Loop.thy ===== *)
theory Service_Loop
  imports Server Service_Creation Service_Lock
begin

section \<open>The server's event loop\<close>

text \<open>
  \<open>EventManager::ProcessEvents\<close> with the handlers the server has: what \<open>event_handlers.cc\<close> does with
  ready handles and weak pointers, over the state that the handlers share.  \<open>server_start\<close> is
  \<open>main\<close> up to its loop and \<open>server_main\<close> all of it.  The loop is shown to do to handlers and
  managers what \<open>ProcessEvents\<close> of \<open>Event_Handlers\<close> does with certain actions, and to the rest of the
  state what a run of server events does.
\<close>

subsection \<open>One round\<close>

text \<open>The handlers that live as long as \<open>main\<close>; every other one is a client's.\<close>

record service_objects =
  monitor_at :: nat
  link_socket_at :: nat
  addr_socket_at :: nat
  clock_at :: nat
  frames_at :: nat
  dtr_at :: nat
  dtls_at :: nat
  interrupt_at :: nat

definition objects_of :: "service_objects \<Rightarrow> nat set" where
  "objects_of objs = {monitor_at objs, link_socket_at objs, addr_socket_at objs, clock_at objs,
     frames_at objs, dtr_at objs, dtls_at objs, interrupt_at objs}"

text \<open>What the system calls of whichever handler is called will deliver.\<close>

record findings =
  found_expirations :: "u64 option"
  found_peek :: "bytes option"
  found_frame :: "(sockaddr_ll \<times> bytes) option"
  found_batch :: "(u32 \<times> bytes) option"
  found_request :: "bytes option"
  notify_succeeds :: bool
  found_notification :: bool
  found_connection :: "nat option"
  found_signal :: bool
  unblock_succeeds :: bool

text \<open>The messages of a netlink socket, each an event of the repository that owns the socket.\<close>

definition netlink_ready ::
  "(NetlinkPacketView \<Rightarrow> server_event) \<Rightarrow> (DeviceRepository \<Rightarrow> NetlinkSocket option) \<Rightarrow> findings \<Rightarrow> server \<Rightarrow>
   server_event list cpp" where
  "netlink_ready event socket f s =
     (case Option.bind (device_repository (lldp_repository (srv_clock s))) socket of None \<Rightarrow> Inr []
      | Some sock \<Rightarrow> bind_cpp (NetlinkSocket_Call sock (found_peek f) (found_batch f))
          (\<lambda>views. Inr (map event views)))"

text \<open>A descriptor that \<open>accept\<close> returns was not in use.\<close>

definition accepted_connection :: "findings \<Rightarrow> server \<Rightarrow> nat option" where
  "accepted_connection f s = (case found_connection f of None \<Rightarrow> None
     | Some fd \<Rightarrow> if fd \<in> open_descriptors (event_world (srv_clients s)) then None else Some fd)"

definition object_events :: "service_objects \<Rightarrow> nat \<Rightarrow> findings \<Rightarrow> server \<Rightarrow> server_event list cpp" where
  "object_events objs p f s =
     (if p = clock_at objs then Inr [Timer_ready (found_expirations f)]
      else if p = frames_at objs then Inr [Frame_ready (found_peek f) (found_frame f)]
      else if p = monitor_at objs then netlink_ready Monitor_ready monitor f s
      else if p = link_socket_at objs
        then netlink_ready Device_ready (\<lambda>dr. Option.bind (device_reader dr) dr_socket) f s
      else if p = addr_socket_at objs
        then netlink_ready Address_ready (\<lambda>dr. Option.bind (ip_reader dr) ir_socket) f s
      else if p = dtr_at objs then Inr [Clients_ready (found_notification f)]
      else if p = dtls_at objs then Inr [Listener_ready (accepted_connection f s)]
      else if p = interrupt_at objs then Inr [Signal_ready (found_signal f) (unblock_succeeds f)]
      else Inr [Client_data p (found_request f) (notify_succeeds f)])"

definition object_called ::
  "epoll_ctl \<Rightarrow> nat \<Rightarrow> service_objects \<Rightarrow> nat \<Rightarrow> findings \<Rightarrow> server \<Rightarrow> ((nat \<times> bytes list) list \<times> server) cpp" where
  "object_called epoll m objs p f s = bind_cpp (object_events objs p f s) (\<lambda>es. server_run epoll m es s)"

text \<open>The loop over the ready handles: the handlers called, what clients are sent, and the state.\<close>

type_synonym round_result = "(nat list \<times> (nat \<times> bytes list) list \<times> server) cpp"

fun service_dispatch ::
  "epoll_ctl \<Rightarrow> nat \<Rightarrow> service_objects \<Rightarrow> (u64 \<times> findings) list \<Rightarrow> server \<Rightarrow> round_result" where
  "service_dispatch epoll m objs [] s = Inr ([], [], s)"
| "service_dispatch epoll m objs ((k, f) # ready) s =
     (case om_find (registered_events (managers (event_world (srv_clients s)) m)) k of
        None \<Rightarrow> service_dispatch epoll m objs ready s
      | Some p \<Rightarrow>
        (case handlers (event_world (srv_clients s)) p of
           None \<Rightarrow> service_dispatch epoll m objs ready s
         | Some _ \<Rightarrow>
             bind_cpp (object_called epoll m objs p f s) (\<lambda>(out, s).
             bind_cpp (service_dispatch epoll m objs ready s) (\<lambda>(called, outs, s).
               Inr (p # called, out @ outs, s)))))"

definition with_world :: "world \<Rightarrow> server \<Rightarrow> server" where
  "with_world w s = s\<lparr>srv_clients := (srv_clients s)\<lparr>event_world := w\<rparr>\<rparr>"

definition service_process ::
  "epoll_ctl \<Rightarrow> nat \<Rightarrow> service_objects \<Rightarrow> (u64 \<times> findings) list option \<Rightarrow> server \<Rightarrow> round_result" where
  "service_process epoll m objs ready s =
     (let w = event_world (srv_clients s);
          s = with_world (fold (\<lambda>handler_id w. snd (EventManager_Remove epoll m handler_id w)) (expired_handlers m w) w) s
      in case ready of None \<Rightarrow> Inr ([], [], s)
         | Some events \<Rightarrow> service_dispatch epoll m objs (take MAX_CONCURRENT_EVENTS events) s)"

text \<open>The loop of \<open>main\<close> over the rounds to come; those not consumed are returned.\<close>

fun service_loop ::
  "epoll_ctl \<Rightarrow> nat \<Rightarrow> service_objects \<Rightarrow> (u64 \<times> findings) list option list \<Rightarrow> server \<Rightarrow>
   ((nat \<times> bytes list) list \<times> server \<times> (u64 \<times> findings) list option list) cpp" where
  "service_loop epoll m objs [] s = Inr ([], s, [])"
| "service_loop epoll m objs (ready # rounds) s =
     (if interrupt_flag (srv_interrupt s) then Inr ([], s, ready # rounds)
      else bind_cpp (service_process epoll m objs ready s) (\<lambda>(_, out, s).
           bind_cpp (service_loop epoll m objs rounds s) (\<lambda>(outs, s, left). Inr (out @ outs, s, left))))"

subsection \<open>From start to end\<close>

record start_answers =
  ans_epoll :: call_result
  ans_monitor :: socket_answers
  ans_link_socket :: socket_answers
  ans_addr_socket :: socket_answers
  ans_broadcast :: call_result
  ans_frames :: call_result
  ans_dtr :: call_result
  ans_lock :: "call_results \<times> run_directory"
  ans_listener :: nat
  ans_timer :: "call_result \<times> call_result"
  ans_signal :: "call_result \<times> call_result"

text \<open>
  A netlink socket is made and added to the manager, which answers for itself.  After a failure the
  program ends, so what this does for the sockets behind the first that fails has no consequence.
\<close>

definition register_netlink :: "epoll_ctl \<Rightarrow> nat \<Rightarrow> socket_answers \<Rightarrow> world \<Rightarrow> socket_answers \<times> world" where
  "register_netlink epoll m a w =
     (if sa_socket a < 0 \<or> sa_bind a < 0 then (a, w)
      else case EventHandler_new (nat (sa_socket a)) EPOLLIN w of (p, w) \<Rightarrow>
           case EventManager_Add epoll m p w of (result, w) \<Rightarrow> (a\<lparr>sa_address := p, sa_add := result\<rparr>, w))"

definition made_socket :: "socket_answers \<Rightarrow> NetlinkSocket" where
  "made_socket a = \<lparr>socket_fd = sa_socket a, sequence_number = 1, callback_set = False\<rparr>"

definition made_repository :: "socket_answers \<Rightarrow> socket_answers \<Rightarrow> socket_answers \<Rightarrow> LldpRepository" where
  "made_repository a b c = LldpRepository_new (DeviceRepository_new (Some (made_socket a))
     (Some (DeviceReader_new (Some (made_socket b)))) (Some (IpReader_new (Some (made_socket c)))))"

definition made_handlers :: "start_answers \<Rightarrow> created_handlers" where
  "made_handlers ans =
     \<lparr>created_monitor = EthernetLldpMonitor_Create (ans_frames ans),
      created_dtr = ClientRepository_Create (ans_dtr ans),
      created_dtls = (case fst (ClientListenSocket_Create (fst (ans_lock ans)) (snd (ans_lock ans))) of
        Inl err \<Rightarrow> Inl err | Inr _ \<Rightarrow> Inr (ans_listener ans)),
      created_clock = ClockHandler_Create (fst (ans_timer ans)) (snd (ans_timer ans)),
      created_interrupt = InterruptHandler_Create (fst (ans_signal ans)) (snd (ans_signal ans))\<rparr>"

definition server_start ::
  "epoll_ctl \<Rightarrow> nat \<Rightarrow> string list \<Rightarrow> start_answers \<Rightarrow> nl_env \<Rightarrow> link_env \<Rightarrow>
   (service_objects \<times> nat list \<times> server) or_exit cpp" where
  "server_start epoll m args ans nenv env =
     (let verbose = verbose_option args False in
      case EventManager_Create (ans_epoll ans) of Inl err \<Rightarrow> Inr (Inl (''Failed to initialize EventManager'', err))
      | Inr _ \<Rightarrow>
        (case register_netlink epoll m (ans_monitor ans) world_new of (a, w) \<Rightarrow>
         case register_netlink epoll m (ans_link_socket ans) w of (b, w) \<Rightarrow>
         case register_netlink epoll m (ans_addr_socket ans) w of (c, w) \<Rightarrow>
         bind_cpp (main_repository (a, b, c) verbose (fst (ans_broadcast ans)) (snd (ans_broadcast ans)) no_objects)
           (\<lambda>(result, _). Inr (
             unwrapOrLog result ''Failed to create LldpRepository'' (\<lambda>_.
             case initializeHandlers epoll m (made_handlers ans) w of Inl e \<Rightarrow> Inl e
             | Inr (hs, w) \<Rightarrow>
               Inr (\<lparr>monitor_at = sa_address a, link_socket_at = sa_address b, addr_socket_at = sa_address c,
                   clock_at = hs ! 0, frames_at = hs ! 1, dtr_at = hs ! 2, dtls_at = hs ! 3, interrupt_at = hs ! 4\<rparr>,
                 hs,
                 \<lparr>srv_clock = \<lparr>neighbour_list = [], lldp_repository = made_repository a b c,
                    dumping_enabled = verbose, dump_timer = 0\<rparr>,
                  srv_buffer = 2,
                  srv_clients = \<lparr>transport_sockets = [], event_counter = 0, event_world = w\<rparr>,
                  srv_interrupt = \<lparr>interrupt_flag = False, signals_blocked = True\<rparr>,
                  srv_netlink = nenv, srv_link = env\<rparr>))))))"

definition server_main ::
  "epoll_ctl \<Rightarrow> nat \<Rightarrow> string list \<Rightarrow> start_answers \<Rightarrow> nl_env \<Rightarrow> link_env \<Rightarrow>
   (u64 \<times> findings) list option list \<Rightarrow>
   ((nat \<times> bytes list) list \<times> server \<times> (u64 \<times> findings) list option list) or_exit cpp" where
  "server_main epoll m args ans nenv env rounds =
     bind_cpp (server_start epoll m args ans nenv env) (\<lambda>started.
       case started of Inl e \<Rightarrow> Inr (Inl e)
       | Inr (objs, hs, s) \<Rightarrow>
         bind_cpp (service_loop epoll m objs rounds s) (\<lambda>(out, s, left).
           if \<not> interrupt_flag (srv_interrupt s) then Inr (Inr (out, s, left))
           else Inr (case remove_handlers epoll m hs (event_world (srv_clients s)) of Inl e \<Rightarrow> Inl e
                | Inr w \<Rightarrow> Inr (out, with_world w s, left))))"

subsection \<open>Handlers and clients\<close>

abbreviation server_world :: "server \<Rightarrow> world" where
  "server_world s \<equiv> event_world (srv_clients s)"

abbreviation server_clients :: "server \<Rightarrow> transport_sockets" where
  "server_clients s \<equiv> transport_sockets (srv_clients s)"

text \<open>Every entry of the manager's table leads to a handler that lives.\<close>

definition none_expired :: "nat \<Rightarrow> world \<Rightarrow> bool" where
  "none_expired m w \<longleftrightarrow> (\<forall>k p. reg w m k = Some p \<longrightarrow> handlers w p \<noteq> None)"

lemma none_expired_handlers: "coherent w \<Longrightarrow> none_expired m w \<Longrightarrow> expired_handlers m w = []"
  using om_find_in_set [OF coherent_om_inv]
  by (fastforce simp: expired_handlers_def none_expired_def reg_def filter_empty_conv)

lemma destroy_handlers:
  "coherent w \<Longrightarrow> handlers (EventHandler_destroy epoll p w) = (handlers w)(p := None)"
  using destroy_effect(1) by (cases "handlers w p") (auto simp: EventHandler_destroy_def fun_eq_iff)

lemma destroy_reg:
  assumes c: "coherent w" and h: "handlers w p = Some h"
  shows "reg (EventHandler_destroy epoll p w) i k =
    (if event_manager h = Some i \<and> handle h = k then None else reg w i k)"
proof (cases "event_manager h")
  case (Some m)
  let ?w = "close_descriptor (handler_socket h) (w\<lparr>handlers := (handlers w)(p := None)\<rparr>)"
  have r: "reg w m (handle h) = Some p" using coherent_handler [OF c h Some] by simp
  then have "EventManager_Remove epoll m (handle h) ?w = (Inr (), erase_event m (handle h) ?w)"
    by (intro Remove_dead [of _ _ _ p]) simp_all
  moreover have "handle h \<noteq> 0" using r coherent_zero [OF c, of m] by auto
  ultimately have "EventHandler_destroy epoll p w = erase_event m (handle h) ?w"
    using Some h by (simp add: EventHandler_destroy_def Let_def)
  then show ?thesis using Some by (auto simp: reg_erase_event)
qed (use h in \<open>simp add: EventHandler_destroy_def Let_def\<close>)

lemma none_expired_destroy:
  assumes c: "coherent w" and live: "none_expired m w"
  shows "none_expired m (EventHandler_destroy epoll p w)"
proof (cases "handlers w p")
  case (Some h)
  have "q \<noteq> p" if "reg w m k = Some q" "\<not> (event_manager h = Some m \<and> handle h = k)" for k q
    using that coherent_reg [OF c, of m k p h] Some by auto
  then show ?thesis
    using live by (auto simp: none_expired_def destroy_handlers [OF c] destroy_reg [OF c Some] split: if_splits)
qed (use live in \<open>simp add: EventHandler_destroy_def\<close>)

lemma none_expired_destroy_all:
  "documented epoll \<Longrightarrow> coherent w \<Longrightarrow> none_expired m w \<Longrightarrow> none_expired m (fold (EventHandler_destroy epoll) ps w)"
proof (induction ps arbitrary: w)
  case (Cons p ps)
  then show ?case using destroy_invariants [OF Cons.prems(1,2), of p] none_expired_destroy [OF Cons.prems(2,3)] by simp
qed simp

lemma none_expired_Add:
  assumes "handlers w p = Some h" "event_manager h = None" "none_expired m w"
    and "\<And>i. om_inv (registered_events (managers w i))"
  shows "none_expired m (snd (EventManager_Add epoll i p w))"
  using assms
  by (auto simp: none_expired_def EventManager_Add_def detached_def call_epoll_def Let_def case_prod_beta
      reg_def om_find_put split: if_splits)

text \<open>
  The state between two rounds: whatever is registered lives, and is one of the objects of \<open>main\<close>,
  which all are registered, or a client, all of which are registered too.
\<close>

definition service_inv :: "nat \<Rightarrow> service_objects \<Rightarrow> nat \<Rightarrow> server \<Rightarrow> bool" where
  "service_inv m objs n s \<longleftrightarrow> clients_inv m n (srv_clients s) \<and> none_expired m (server_world s) \<and>
     objects_of objs \<inter> fst ` set (server_clients s) = {} \<and>
     (\<forall>p. registered_with m (server_world s) p \<longleftrightarrow> p \<in> objects_of objs \<or> p \<in> fst ` set (server_clients s))"

lemma service_inv_cong:
  "srv_clients s = srv_clients t \<Longrightarrow> service_inv m objs n s = service_inv m objs n t"
  by (simp add: service_inv_def)

lemma service_inv_coherent: "service_inv m objs n s \<Longrightarrow> coherent (server_world s)"
  by (simp add: service_inv_def clients_inv_def)

lemma service_inv_mono: "service_inv m objs n s \<Longrightarrow> n \<le> k \<Longrightarrow> service_inv m objs k s"
  using counters_ok_mono by (auto simp: service_inv_def clients_inv_def)

lemma client_called_world:
  "client_called p received device_info nl write_ok cs = Inr (packets, cs') \<Longrightarrow>
   event_world cs' = event_world cs \<and> map fst (transport_sockets cs') = map fst (transport_sockets cs)"
  by (auto simp: client_called_def set_client_keys split: option.splits)

lemma service_inv_client:
  assumes "service_inv m objs n s"
    and "client_called p received device_info nl write_ok (srv_clients s) = Inr (packets, cs)"
  shows "service_inv m objs n (s\<lparr>srv_clients := cs\<rparr>)"
proof -
  have w: "event_world cs = server_world s" and "map fst (transport_sockets cs) = map fst (server_clients s)"
    using client_called_world [OF assms(2)] by simp_all
  then have "fst ` set (transport_sockets cs) = fst ` set (server_clients s)" by (metis list.set_map)
  then show ?thesis
    using assms(1) client_called_inv [OF _ assms(2), of m n] w by (simp add: service_inv_def)
qed

lemma service_inv_repository:
  assumes d: "documented epoll" and inv: "service_inv m objs n s"
  shows "service_inv m objs n (s\<lparr>srv_clients := ClientRepository_Call epoll read_ok (srv_clients s)\<rparr>)"
proof -
  let ?cs = "srv_clients s" and ?gone = "rev (map fst (filter (\<lambda>(p, s). eof_received s) (server_clients s)))"
  let ?w = "fold (EventHandler_destroy epoll) ?gone (server_world s)"
  have c: "clients_inv m n ?cs" "coherent (server_world s)" "counters_ok n (server_world s)"
    and dist: "distinct (map fst (server_clients s))"
    using inv by (simp_all add: service_inv_def clients_inv_def)
  have h: "handlers ?w = (\<lambda>q. if q \<in> set ?gone then None else handlers (server_world s) q)"
    using destroy_all [OF d c(2,3)] by blast
  have kept: "fst ` {x \<in> set (server_clients s). \<not> eof_received (snd x)} = fst ` set (server_clients s) - set ?gone"
    using dist by (auto simp: case_prod_beta image_iff) (metis eq_key_imp_eq_value prod.collapse)
  have "registered_with m ?w p \<longleftrightarrow> p \<in> objects_of objs \<or> p \<in> fst ` set (server_clients s) - set ?gone" for p
  proof -
    have "set ?gone \<subseteq> fst ` set (server_clients s)" by auto
    then have "p \<in> objects_of objs \<Longrightarrow> p \<notin> set ?gone" using inv by (auto simp: service_inv_def simp del: set_rev set_map)
    then show ?thesis using inv by (auto simp: registered_with_def h service_inv_def simp del: set_rev set_map)
  qed
  then show ?thesis
    using inv repository_called_inv [OF d c(1), of read_ok] none_expired_destroy_all [OF d c(2), of m ?gone]
    by (auto simp: service_inv_def ClientRepository_Call_filter case_prod_beta kept simp del: set_rev set_map)
qed

lemma service_inv_listener:
  assumes d: "documented epoll" and inv: "service_inv m objs n s" and n: "n + 3 < 2 ^ 64"
    and fd: "fd \<notin> open_descriptors (server_world s)"
  shows "service_inv m objs (Suc n) (s\<lparr>srv_clients := ClientListenSocket_Call epoll m (Some fd) (srv_clients s)\<rparr>)"
proof -
  let ?w = "server_world s" and ?p = "next_address (server_world s)"
  let ?h = "\<lparr>event_manager = None, handle = 0, handler_socket = fd, handler_events = EPOLLIN\<rparr>"
  obtain w1 where w1: "EventHandler_new fd EPOLLIN ?w = (?p, w1)" by (simp add: EventHandler_new_def)
  have c: "clients_inv m n (srv_clients s)" "coherent ?w" "counters_ok n ?w"
    using inv by (simp_all add: service_inv_def clients_inv_def)
  have h1: "handlers w1 = (handlers ?w)(?p \<mapsto> ?h)" "managers w1 = managers ?w" using w1 by (auto simp: EventHandler_new_def)
  have c1: "coherent w1" using new_handler_coherent [OF c(2) fd, of EPOLLIN] w1 by simp
  have "counters_ok n w1" using c(3) w1 by (auto simp: EventHandler_new_def counters_ok_def)
  obtain r w2 where add: "EventManager_Add epoll m ?p w1 = (r, w2)" by (cases "EventManager_Add epoll m ?p w1")
  have h2: "handlers w2 = (case r of Inl _ \<Rightarrow> handlers w1
      | Inr k \<Rightarrow> (handlers w1)(?p \<mapsto> ?h\<lparr>event_manager := Some m, handle := k\<rparr>))"
    using Add_new_handlers [of w1 ?p ?h epoll m] h1 add by simp
  have c2: "coherent w2" using Add_invariants [OF d c1 \<open>counters_ok n w1\<close>, of m ?p] add n by simp
  have "none_expired m w1"
    using inv h1 by (auto simp: service_inv_def none_expired_def reg_def)
  then have live: "none_expired m w2"
    using none_expired_Add [of w1 ?p ?h m epoll m] h1(1) coherent_om_inv [OF c1] add by simp
  have new: "handlers ?w ?p = None" using coherent_alive [OF c(2), of ?p] by (cases "handlers ?w ?p") auto
  have "\<not> registered_with m ?w ?p" by (simp add: registered_with_def new)
  then have fresh: "?p \<notin> objects_of objs" "?p \<notin> fst ` set (server_clients s)"
    using inv unfolding service_inv_def by blast+
  have after: "clients_inv m (Suc n) (ClientListenSocket_Call epoll m (Some fd) (srv_clients s))"
    by (rule connect_inv [OF d c(1) n fd])
  show ?thesis
  proof (cases r)
    case (Inl err)
    have call: "ClientListenSocket_Call epoll m (Some fd) (srv_clients s)
        = (srv_clients s)\<lparr>event_world := EventHandler_destroy epoll ?p w2\<rparr>"
      using w1 add Inl by (simp add: ClientListenSocket_Call_def ClientRepository_Add_def)
    have "handlers (EventHandler_destroy epoll ?p w2) = handlers ?w"
      using h1(1) h2 Inl new by (auto simp: destroy_handlers [OF c2] fun_eq_iff)
    then show ?thesis
      using after inv none_expired_destroy [OF c2 live] call by (simp add: service_inv_def registered_with_def)
  next
    case (Inr k)
    have call: "ClientListenSocket_Call epoll m (Some fd) (srv_clients s)
        = (srv_clients s)\<lparr>event_world := w2, transport_sockets := server_clients s @ [(?p, ClientSenderSocket_new fd)]\<rparr>"
      using w1 add Inr by (simp add: ClientListenSocket_Call_def ClientRepository_Add_def)
    have "registered_with m w2 q \<longleftrightarrow> q = ?p \<or> registered_with m ?w q" for q
      using h1(1) h2 Inr new by (auto simp: registered_with_def)
    then show ?thesis using after inv live fresh call by (auto simp: service_inv_def)
  qed
qed

subsection \<open>A call of a handler\<close>

text \<open>A connection has a new descriptor, and a client's handler is called while the client is there.\<close>

fun event_proper :: "nat \<Rightarrow> server_event \<Rightarrow> server \<Rightarrow> bool" where
  "event_proper m (Listener_ready accepted) s \<longleftrightarrow> pred_option (\<lambda>fd. fd \<notin> open_descriptors (server_world s)) accepted"
| "event_proper m (Client_data p _ _) s \<longleftrightarrow> registered_with m (server_world s) p \<and> p \<in> fst ` set (server_clients s)"
| "event_proper m _ s \<longleftrightarrow> True"

text \<open>An upper bound of the handlers added.\<close>

fun handlers_added :: "server_event \<Rightarrow> nat" where
  "handlers_added (Listener_ready _) = 1"
| "handlers_added _ = 0"

lemma netlink_called_clients [simp]: "srv_clients (netlink_called e s) = srv_clients s"
  by (simp add: netlink_called_def split: prod.split)

lemma handler_called_clients:
  assumes "handler_called epoll m e s = Inr (out, s')"
  obtains (client) p received write_ok where "e = Client_data p received write_ok"
  | (repository) read_ok where "e = Clients_ready read_ok"
  | (listener) accepted where "e = Listener_ready accepted"
  | (same) "srv_clients s' = srv_clients s" "handlers_added e = 0"
  using assms by (cases e) (auto split: prod.splits)

lemma service_inv_event:
  assumes d: "documented epoll" and inv: "service_inv m objs n s" and n: "n + 3 < 2 ^ 64"
    and e: "event_proper m e s" "handler_called epoll m e s = Inr (out, s')"
  shows "service_inv m objs (n + handlers_added e) s'"
  using e(2)
proof (cases rule: handler_called_clients)
  case (client p received write_ok)
  then obtain packets cs where cs: "client_called p received (current_state (lldp_repository (srv_clock s)))
      (neighbour_list (srv_clock s)) write_ok (srv_clients s) = Inr (packets, cs)" "s' = s\<lparr>srv_clients := cs\<rparr>"
    using e(2) by auto
  show ?thesis using service_inv_client [OF inv cs(1)] cs(2) client by simp
next
  case (repository read_ok)
  then show ?thesis using e(2) service_inv_repository [OF d inv] by auto
next
  case (listener accepted)
  show ?thesis
  proof (cases accepted)
    case None
    then have "s' = s" using e(2) listener by (simp add: ClientListenSocket_Call_def)
    then show ?thesis using service_inv_mono [OF inv] by simp
  next
    case (Some fd)
    then show ?thesis using e listener service_inv_listener [OF d inv n, of fd] by auto
  qed
next
  case same
  then show ?thesis using inv service_inv_cong [OF same(1)] by simp
qed

text \<open>What a call does to handlers and managers are actions as \<open>ProcessEvents\<close> performs them.\<close>

lemma handler_called_actions:
  assumes "event_proper m e s" "handler_called epoll m e s = Inr (out, s')"
  shows "\<exists>actions. server_world s' = fold (perform epoll) actions (server_world s)"
  using assms(2)
proof (cases rule: handler_called_clients)
  case (client p received write_ok)
  then have "server_world s' = server_world s" using assms(2) client_called_world by auto
  then show ?thesis by (intro exI [of _ "[]"]) simp
next
  case (repository read_ok)
  have "fold (EventHandler_destroy epoll) ps w = fold (perform epoll) (map Destroy ps) w" for ps w
    by (induction ps arbitrary: w) simp_all
  then show ?thesis using assms(2) repository by (auto simp: ClientRepository_Call_filter simp del: fold_simps)
next
  case (listener accepted)
  show ?thesis
  proof (cases accepted)
    case None
    then have "server_world s' = server_world s" using assms(2) listener by (auto simp: ClientListenSocket_Call_def)
    then show ?thesis by (intro exI [of _ "[]"]) simp
  next
    case (Some fd)
    let ?p = "next_address (server_world s)"
    have "server_world s' = fold (perform epoll) [Construct fd EPOLLIN, Add_to m ?p] (server_world s) \<or>
       server_world s' = fold (perform epoll) [Construct fd EPOLLIN, Add_to m ?p, Destroy ?p] (server_world s)"
      using assms listener Some
      by (auto simp: ClientListenSocket_Call_def ClientRepository_Add_def EventHandler_new_def split: prod.splits sum.splits)
    then show ?thesis by blast
  qed
next
  case same
  then show ?thesis by (intro exI [of _ "[]"]) simp
qed


text \<open>A property of every event of a run at the state in which it happens.\<close>

fun along_run :: "(server_event \<Rightarrow> server \<Rightarrow> bool) \<Rightarrow> epoll_ctl \<Rightarrow> nat \<Rightarrow> server_event list \<Rightarrow> server \<Rightarrow> bool" where
  "along_run P epoll m [] s \<longleftrightarrow> True"
| "along_run P epoll m (e # es) s \<longleftrightarrow> P e s \<and>
     (case handler_called epoll m e s of Inl _ \<Rightarrow> True | Inr (_, s) \<Rightarrow> along_run P epoll m es s)"

lemma along_run_append:
  "server_run epoll m es s = Inr (out, t) \<Longrightarrow>
   along_run P epoll m (es @ fs) s \<longleftrightarrow> along_run P epoll m es s \<and> along_run P epoll m fs t"
  by (induction es arbitrary: s out) auto

lemma along_run_always: "(\<And>e s. e \<in> set es \<Longrightarrow> P e s) \<Longrightarrow> along_run P epoll m es s"
  by (induction es arbitrary: s) (auto split: sum.split)

lemma service_inv_run:
  assumes d: "documented epoll"
  shows "service_inv m objs n s \<Longrightarrow> along_run (event_proper m) epoll m es s \<Longrightarrow>
    n + sum_list (map handlers_added es) + 3 < 2 ^ 64 \<Longrightarrow> server_run epoll m es s = Inr (out, s') \<Longrightarrow>
    service_inv m objs (n + sum_list (map handlers_added es)) s'"
proof (induction es arbitrary: s n out)
  case (Cons e es)
  obtain out1 t out2 where t: "handler_called epoll m e s = Inr (out1, t)" "server_run epoll m es t = Inr (out2, s')"
    using Cons.prems(4) by auto
  have "service_inv m objs (n + handlers_added e) t"
    using service_inv_event [OF d Cons.prems(1) _ _ t(1)] Cons.prems(2,3) by simp
  then show ?case using Cons.IH [of "n + handlers_added e" t out2] Cons.prems(2,3) t by (simp add: add.assoc)
qed simp

lemma server_run_actions:
  "along_run (event_proper m) epoll m es s \<Longrightarrow> server_run epoll m es s = Inr (out, s') \<Longrightarrow>
   \<exists>actions. server_world s' = fold (perform epoll) actions (server_world s)"
proof (induction es arbitrary: s out)
  case (Cons e es)
  obtain out1 t out2 where t: "handler_called epoll m e s = Inr (out1, t)" "server_run epoll m es t = Inr (out2, s')"
    using Cons.prems(2) by auto
  obtain as where "server_world t = fold (perform epoll) as (server_world s)"
    using handler_called_actions [OF _ t(1)] Cons.prems(1) by auto
  moreover obtain bs where "server_world s' = fold (perform epoll) bs (server_world t)"
    using Cons.IH [OF _ t(2)] Cons.prems(1) t(1) by auto
  ultimately show ?case by (intro exI [of _ "as @ bs"]) simp
qed (auto intro: exI [of _ "[]"])

subsection \<open>Rounds\<close>

text \<open>The events of a handler called in a proper state are proper, and at most one adds a handler.\<close>

lemma netlink_ready_events:
  "netlink_ready event socket f s = Inr es \<Longrightarrow> set es \<subseteq> range event"
  by (auto simp: netlink_ready_def split: option.splits)

lemma along_run_single: "along_run P epoll m [e] s \<longleftrightarrow> P e s"
  by (auto split: sum.split)

lemma handlers_added_le: "handlers_added e \<le> 1"
  by (cases e) simp_all

lemma object_events_cases:
  assumes "object_events objs p f s = Inr es"
  obtains (netlink) event socket where "event \<in> {Monitor_ready, Device_ready, Address_ready}" "netlink_ready event socket f s = Inr es"
  | (client) "p \<notin> objects_of objs" "es = [Client_data p (found_request f) (notify_succeeds f)]"
  | (frame) "es = [Frame_ready (found_peek f) (found_frame f)]"
  | (other) e where "es = [e]" "event_proper m e s" "\<And>epoll s. \<exists>s'. handler_called epoll m e s = Inr ([], s')"
proof (cases "p \<in> objects_of objs")
  case False
  then show thesis using client assms by (simp add: object_events_def objects_of_def)
next
  case True
  then show thesis
    using assms netlink frame other
    by (auto simp: object_events_def objects_of_def accepted_connection_def split: if_splits option.splits prod.splits)
qed

lemma object_events_proper:
  assumes inv: "service_inv m objs n s" and p: "registered_with m (server_world s) p"
    and es: "object_events objs p f s = Inr es"
  shows "along_run (event_proper m) epoll m es s \<and> sum_list (map handlers_added es) \<le> 1"
  using es
proof (cases rule: object_events_cases [where m = m])
  case (netlink event socket)
  have e: "e \<in> set es \<Longrightarrow> event_proper m e t \<and> handlers_added e = 0" for e t
    using netlink_ready_events [OF netlink(2)] netlink(1) by auto
  have "sum_list (map handlers_added es) = 0" using e by simp
  moreover have "along_run (event_proper m) epoll m es s" by (rule along_run_always) (use e in blast)
  ultimately show ?thesis by linarith
next
  case client
  have "p \<in> fst ` set (server_clients s)" using inv p client(1) by (auto simp: service_inv_def)
  then show ?thesis using p unfolding client(2) along_run_single by simp
next
  case frame
  then show ?thesis unfolding frame along_run_single by simp
next
  case (other e)
  then show ?thesis using handlers_added_le [of e] unfolding other(1) along_run_single by simp
qed

lemma object_called_run:
  assumes d: "documented epoll" and inv: "service_inv m objs n s" and p: "registered_with m (server_world s) p"
    and n: "n + 4 < 2 ^ 64" and called: "object_called epoll m objs p f s = Inr (out, s')"
  obtains es actions where "server_run epoll m es s = Inr (out, s')" "along_run (event_proper m) epoll m es s"
    "server_world s' = fold (perform epoll) actions (server_world s)" "service_inv m objs (Suc n) s'"
    "sum_list (map handlers_added es) \<le> 1"
proof -
  obtain es where es: "object_events objs p f s = Inr es" "server_run epoll m es s = Inr (out, s')"
    using called by (auto simp: object_called_def)
  note proper = object_events_proper [OF inv p es(1), of epoll]
  obtain actions where "server_world s' = fold (perform epoll) actions (server_world s)"
    using server_run_actions [OF conjunct1 [OF proper] es(2)] by blast
  moreover have "service_inv m objs (n + sum_list (map handlers_added es)) s'"
    using service_inv_run [OF d inv conjunct1 [OF proper] _ es(2)] proper n by simp
  then have "service_inv m objs (Suc n) s'" by (rule service_inv_mono) (use proper in simp)
  ultimately show thesis using that es(2) proper by blast
qed

lemma registered_found:
  assumes "service_inv m objs n s" "om_find (registered_events (managers (server_world s) m)) k = Some p"
  shows "\<exists>h. handlers (server_world s) p = Some h" "registered_with m (server_world s) p"
proof -
  have k: "reg (server_world s) m k = Some p" using assms(2) by (simp add: reg_def)
  then show "\<exists>h. handlers (server_world s) p = Some h"
    using assms(1) by (auto simp: service_inv_def none_expired_def)
  then show "registered_with m (server_world s) p"
    using coherent_reg [OF service_inv_coherent [OF assms(1)] k] by (auto simp: registered_with_def)
qed

lemma service_dispatch_run:
  assumes d: "documented epoll"
  shows "service_inv m objs n s \<Longrightarrow> n + length ready + 3 < 2 ^ 64 \<Longrightarrow>
    service_dispatch epoll m objs ready s = Inr (called, out, s') \<Longrightarrow>
    \<exists>es actions. server_run epoll m es s = Inr (out, s') \<and> along_run (event_proper m) epoll m es s \<and>
      length actions = length ready \<and>
      dispatch epoll m (zip (map fst ready) actions) (server_world s) = (called, server_world s') \<and>
      service_inv m objs (n + length ready) s' \<and> sum_list (map handlers_added es) \<le> length ready"
proof (induction ready arbitrary: s n called out)
  case Nil
  then show ?case by (intro exI [of _ "[]"]) simp
next
  case (Cons r ready)
  obtain k f where r: "r = (k, f)" by (cases r)
  show ?case
  proof (cases "om_find (registered_events (managers (server_world s) m)) k")
    case None
    then obtain es actions where IH: "server_run epoll m es s = Inr (out, s')" "along_run (event_proper m) epoll m es s"
      "length actions = length ready"
      "dispatch epoll m (zip (map fst ready) actions) (server_world s) = (called, server_world s')"
      "service_inv m objs (n + length ready) s'" "sum_list (map handlers_added es) \<le> length ready"
      using Cons.IH [OF Cons.prems(1), of called out] Cons.prems(2,3) r by auto
    then show ?thesis
      using None r service_inv_mono [OF IH(5), of "n + length (r # ready)"]
      by (intro exI [of _ es] exI [of _ "[] # actions"]) simp
  next
    case (Some p)
    obtain h where h: "handlers (server_world s) p = Some h" and reg: "registered_with m (server_world s) p"
      using registered_found [OF Cons.prems(1) Some] by blast
    obtain out1 t called2 out2 where t: "object_called epoll m objs p f s = Inr (out1, t)"
      "service_dispatch epoll m objs ready t = Inr (called2, out2, s')" "called = p # called2" "out = out1 @ out2"
      using Cons.prems(3) Some h r by auto
    obtain es as where es: "server_run epoll m es s = Inr (out1, t)" "along_run (event_proper m) epoll m es s"
      "server_world t = fold (perform epoll) as (server_world s)" "service_inv m objs (Suc n) t"
      "sum_list (map handlers_added es) \<le> 1"
      using object_called_run [OF d Cons.prems(1) reg _ t(1)] Cons.prems(2) by auto
    obtain fs bs where IH: "server_run epoll m fs t = Inr (out2, s')" "along_run (event_proper m) epoll m fs t"
      "length bs = length ready"
      "dispatch epoll m (zip (map fst ready) bs) (server_world t) = (called2, server_world s')"
      "service_inv m objs (Suc n + length ready) s'" "sum_list (map handlers_added fs) \<le> length ready"
      using Cons.IH [OF es(4) _ t(2)] Cons.prems(2) by auto
    show ?thesis
      using es IH t Some h r
      by (intro exI [of _ "es @ fs"] exI [of _ "as # bs"]) (simp add: server_run_append along_run_append [OF es(1)])
  qed
qed

lemma service_process_run:
  assumes d: "documented epoll" and inv: "service_inv m objs n s" and n: "n + 13 < 2 ^ 64"
    and process: "service_process epoll m objs ready s = Inr (called, out, s')"
  shows "\<exists>es actions. server_run epoll m es s = Inr (out, s') \<and> along_run (event_proper m) epoll m es s \<and>
      ProcessEvents epoll m (map_option (\<lambda>r. zip (map fst r) actions) ready) (server_world s) = (called, server_world s') \<and>
      service_inv m objs (n + 10) s' \<and> sum_list (map handlers_added es) \<le> 10"
proof -
  have none: "expired_handlers m (server_world s) = []"
    using none_expired_handlers [OF service_inv_coherent [OF inv]] inv by (simp add: service_inv_def)
  have same: "with_world (server_world s) s = s" by (simp add: with_world_def)
  show ?thesis
  proof (cases ready)
    case None
    then show ?thesis
      using process none same service_inv_mono [OF inv, of "n + 10"]
      by (intro exI [of _ "[]"]) (simp add: service_process_def ProcessEvents_def)
  next
    case (Some r)
    have "service_dispatch epoll m objs (take 10 r) s = Inr (called, out, s')"
      using process Some none same by (simp add: service_process_def MAX_CONCURRENT_EVENTS_def)
    moreover have "n + length (take 10 r) + 3 < 2 ^ 64" using n by simp
    ultimately obtain es actions where
      es: "server_run epoll m es s = Inr (out, s')" "along_run (event_proper m) epoll m es s"
      "length actions = length (take 10 r)"
      "dispatch epoll m (zip (map fst (take 10 r)) actions) (server_world s) = (called, server_world s')"
      "service_inv m objs (n + length (take 10 r)) s'" "sum_list (map handlers_added es) \<le> length (take 10 r)"
      using service_dispatch_run [OF d inv] by blast
    have "take 10 (zip (map fst r) actions) = zip (map fst (take 10 r)) actions"
      using es(3) by (simp add: take_zip take_map)
    then have "ProcessEvents epoll m (map_option (\<lambda>r. zip (map fst r) actions) ready) (server_world s) = (called, server_world s')"
      using es(4) Some none by (simp add: ProcessEvents_def MAX_CONCURRENT_EVENTS_def)
    moreover have "service_inv m objs (n + 10) s'" by (rule service_inv_mono [OF es(5)]) simp
    moreover have "sum_list (map handlers_added es) \<le> 10" using es(6) by simp
    ultimately show ?thesis using es(1,2) by blast
  qed
qed

end
