(* ===== verification/Service_Start.thy ===== *)
theory Service_Start
  imports Service_Loop
begin

section \<open>The start of the server\<close>

text \<open>
  What \<open>server_start\<close> leaves: the objects at their addresses, the invariant of the loop and the
  handlers that are registered; and that it succeeds when the calls it makes do.
\<close>

subsection \<open>What a start leaves\<close>

lemma none_expired_new: "none_expired m w \<Longrightarrow> none_expired m (snd (EventHandler_new fd ev w))"
  by (auto simp: none_expired_def EventHandler_new_def reg_def)

lemma none_expired_construct_all: "none_expired m w \<Longrightarrow> none_expired m (construct_all fs w)"
  by (induction fs w rule: construct_all.induct) (simp_all add: none_expired_new)

lemma EventHandler_new_address: "fst (EventHandler_new fd ev w) = next_address w"
  by (simp add: EventHandler_new_def)

lemma reg_construct_all: "reg (construct_all fs w) = reg w"
proof (induction fs w rule: construct_all.induct)
  case (2 fd ev fs w)
  have "reg (snd (EventHandler_new fd ev w)) = reg w" by (simp add: EventHandler_new_def reg_def fun_eq_iff)
  then show ?case using 2 by simp
qed simp

lemma Add_same_addresses:
  "event_manager h = None \<Longrightarrow> handlers w p = Some h \<Longrightarrow>
   next_address (snd (EventManager_Add epoll m p w)) = next_address w \<and>
   open_descriptors (snd (EventManager_Add epoll m p w)) = open_descriptors w"
  by (simp add: EventManager_Add_def detached_def call_epoll_def Let_def case_prod_beta)

lemma none_expired_add_handlers:
  assumes d: "documented epoll"
  shows "coherent w \<Longrightarrow> counters_ok n w \<Longrightarrow> n + length hs + 2 < 2 ^ 64 \<Longrightarrow> none_expired m w \<Longrightarrow> distinct hs \<Longrightarrow>
    \<forall>p \<in> set hs. \<exists>h. handlers w p = Some h \<and> event_manager h = None \<Longrightarrow>
    add_handlers epoll m hs w = Inr v \<Longrightarrow> none_expired m v"
proof (induction hs arbitrary: w n)
  case (Cons p hs)
  obtain r u where u: "EventManager_Add epoll m p w = (r, u)" by (cases "EventManager_Add epoll m p w")
  with Cons.prems(7) obtain k where r: "r = Inr k" and rest: "add_handlers epoll m hs u = Inr v"
    by (auto simp: unwrapOrLog_def split: sum.splits)
  obtain h where h: "handlers w p = Some h" "event_manager h = None" using Cons.prems(6) by auto
  have hu: "handlers u = (handlers w)(p \<mapsto> h\<lparr>event_manager := Some m, handle := k\<rparr>)"
    by (rule Add_handlers [OF u [unfolded r] h])
  have "none_expired m u"
    using none_expired_Add [OF h Cons.prems(4) coherent_om_inv [OF Cons.prems(1)], of epoll m] u by simp
  moreover have "coherent u" "counters_ok (Suc n) u"
    using Add_invariants [OF d Cons.prems(1,2), of m p] Cons.prems(3) u by simp_all
  moreover have "\<forall>q \<in> set hs. \<exists>h. handlers u q = Some h \<and> event_manager h = None"
    using Cons.prems(5,6) by (auto simp: hu)
  ultimately show ?case using Cons.IH [of u "Suc n"] Cons.prems(3,5) rest by simp
qed simp

lemma register_netlink_ok:
  assumes d: "documented epoll" and c: "coherent w" "counters_ok n w" "none_expired m w" and n: "n + 3 < 2 ^ 64"
    and fd: "nat (sa_socket a) \<notin> open_descriptors w"
    and reg: "register_netlink epoll m a w = (b, v)" and ok: "answers_ok b"
  shows "coherent v" "counters_ok (Suc n) v" "none_expired m v" "sa_address b = next_address w"
    "next_address v = Suc (next_address w)" "open_descriptors v = insert (nat (sa_socket a)) (open_descriptors w)"
    "registered_with m v p \<longleftrightarrow> p = next_address w \<or> registered_with m w p"
proof -
  let ?p = "next_address w" and ?w = "snd (EventHandler_new (nat (sa_socket a)) EPOLLIN w)"
  let ?h = "\<lparr>event_manager = None, handle = 0, handler_socket = nat (sa_socket a), handler_events = EPOLLIN\<rparr>"
  have new: "EventHandler_new (nat (sa_socket a)) EPOLLIN w = (?p, ?w)" "handlers ?w = (handlers w)(?p \<mapsto> ?h)"
    "next_address ?w = Suc ?p" "open_descriptors ?w = insert (nat (sa_socket a)) (open_descriptors w)" "counters_ok n ?w"
    using c(2) by (auto simp: EventHandler_new_def counters_ok_def)
  have cw: "coherent ?w" "none_expired m ?w"
    by (rule new_handler_coherent [OF c(1) fd], rule none_expired_new [OF c(3)])
  obtain r u where u: "EventManager_Add epoll m ?p ?w = (r, u)" by (cases "EventManager_Add epoll m ?p ?w")
  have "\<not> (sa_socket a < 0 \<or> sa_bind a < 0)"
    using reg ok by (auto simp: register_netlink_def answers_ok_def)
  then have b: "b = a\<lparr>sa_address := ?p, sa_add := r\<rparr>" "v = u"
    using reg u by (simp_all add: register_netlink_def case_prod_beta EventHandler_new_address)
  then obtain k where r: "r = Inr k" using ok by (auto simp: answers_ok_def)
  show "coherent v" "counters_ok (Suc n) v"
    using Add_invariants [OF d cw(1) new(5), of m ?p] n u b(2) by simp_all
  show "none_expired m v"
    using none_expired_Add [of ?w ?p ?h m epoll m] new(2) cw(2) coherent_om_inv [OF cw(1)] u b(2) by simp
  show "sa_address b = ?p" by (simp add: b)
  show "next_address v = Suc ?p" "open_descriptors v = insert (nat (sa_socket a)) (open_descriptors w)"
    using Add_same_addresses [of ?h ?w ?p epoll m] new(2-4) u b(2) by simp_all
  have "handlers w ?p = None" using coherent_alive [OF c(1), of ?p] by (cases "handlers w ?p") auto
  then show "registered_with m v p \<longleftrightarrow> p = ?p \<or> registered_with m w p"
    using Add_handlers [OF u [unfolded r], of ?h] new(2) b(2) by (auto simp: registered_with_def)
qed

lemma main_repository_ok:
  assumes "main_repository (a, b, c) verbose fd err w = Inr (Inr l, v)"
  shows "answers_ok a \<and> answers_ok b \<and> answers_ok c"
proof -
  have net: "NetlinkSocket_Create x u = (Inr y, z) \<Longrightarrow> 0 \<le> sa_socket x \<and> 0 \<le> sa_bind x" for x u y z
    by (auto simp: NetlinkSocket_Create_def split: if_splits)
  have dr: "DeviceReader_Create x u = (Inr y, z) \<Longrightarrow> answers_ok x" for x u y z
    using net by (fastforce simp: DeviceReader_Create_def answers_ok_def split: prod.splits sum.splits)
  have ir: "IpReader_Create x u = (Inr y, z) \<Longrightarrow> answers_ok x" for x u y z
    using net by (fastforce simp: IpReader_Create_def answers_ok_def split: prod.splits sum.splits)
  obtain d u where "DeviceRepository_Create (a, b, c) verbose w = (Inr d, u)"
    using assms by (fastforce simp: main_repository_def LldpRepository_Create_def split: prod.splits sum.splits if_splits)
  then show ?thesis
    using net dr ir by (fastforce simp: DeviceRepository_Create_def answers_ok_def split: prod.splits sum.splits)
qed

text \<open>The descriptors that the kernel gives to the service.\<close>

definition given_descriptors :: "start_answers \<Rightarrow> nat list" where
  "given_descriptors ans =
     [nat (sa_socket (ans_monitor ans)), nat (sa_socket (ans_link_socket ans)), nat (sa_socket (ans_addr_socket ans)),
      nat (fst (ans_frames ans)), nat (fst (ans_dtr ans)), ans_listener ans, nat (fst (fst (ans_timer ans))),
      nat (fst (snd (ans_signal ans)))]"

lemma given_distinct:
  assumes "distinct (given_descriptors ans)"
  shows "nat (sa_socket (ans_link_socket ans)) \<noteq> nat (sa_socket (ans_monitor ans))"
    "nat (sa_socket (ans_addr_socket ans)) \<noteq> nat (sa_socket (ans_monitor ans))"
    "nat (sa_socket (ans_addr_socket ans)) \<noteq> nat (sa_socket (ans_link_socket ans))"
  using assms unfolding given_descriptors_def distinct.simps list.set insert_iff by metis+

lemma initializeHandlers_all:
  assumes "initializeHandlers epoll m (made_handlers ans) w = Inr (hs, v)"
  shows "hs = map (\<lambda>i. next_address w + i) [3, 0, 1, 2, 4]"
    and "\<exists>fs. add_handlers epoll m hs (construct_all fs w) = Inr v \<and>
      map fst fs = [nat (fst (ans_frames ans)), nat (fst (ans_dtr ans)), ans_listener ans,
        nat (fst (fst (ans_timer ans))), nat (fst (snd (ans_signal ans)))]"
proof -
  obtain f1 f2 f3 f4 f5 where f: "created_monitor (made_handlers ans) = Inr f1" "created_dtr (made_handlers ans) = Inr f2"
    "created_dtls (made_handlers ans) = Inr f3" "created_clock (made_handlers ans) = Inr f4"
    "created_interrupt (made_handlers ans) = Inr f5"
    using assms by (auto simp: initializeHandlers_def unwrapOrLog_def split: sum.splits prod.splits)
  then have made: "made_handlers ans = \<lparr>created_monitor = Inr f1, created_dtr = Inr f2, created_dtls = Inr f3,
      created_clock = Inr f4, created_interrupt = Inr f5\<rparr>" by simp
  have fds: "[f1, f2, f3, f4, f5] = [nat (fst (ans_frames ans)), nat (fst (ans_dtr ans)), ans_listener ans,
        nat (fst (fst (ans_timer ans))), nat (fst (snd (ans_signal ans)))]"
    using f by (auto simp: made_handlers_def EthernetLldpMonitor_Create_def ClientRepository_Create_def
        ClockHandler_Create_def InterruptHandler_Create_def split: prod.splits if_splits sum.splits)
  let ?fs = "[(f1, EPOLLIN), (f2, EPOLLIN), (f3, EPOLLIN), (f4, EPOLLIN), (f5, POLLIN)]"
  have "hs = map (\<lambda>i. next_address w + i) [3, 0, 1, 2, 4] \<and> add_handlers epoll m hs (construct_all ?fs w) = Inr v"
    using assms [unfolded initializeHandlers_eq [OF made]] by (auto simp: Let_def split: sum.splits simp del: construct_all.simps add_handlers.simps)
  then have all: "hs = map (\<lambda>i. next_address w + i) [3, 0, 1, 2, 4]" "add_handlers epoll m hs (construct_all ?fs w) = Inr v"
    by blast+
  show "hs = map (\<lambda>i. next_address w + i) [3, 0, 1, 2, 4]" by (rule all(1))
  have "map fst ?fs = [f1, f2, f3, f4, f5]" by simp
  then show "\<exists>fs. add_handlers epoll m hs (construct_all fs w) = Inr v \<and>
      map fst fs = [nat (fst (ans_frames ans)), nat (fst (ans_dtr ans)), ans_listener ans,
        nat (fst (fst (ans_timer ans))), nat (fst (snd (ans_signal ans)))]"
    using all(2) unfolding fds by (intro exI [of _ ?fs] conjI)
qed

text \<open>What a started service consists of.\<close>

lemma server_start_parts:
  assumes start: "server_start epoll m args ans nenv env = Inr (Inr (objs, hs, s))"
  obtains a w1 b w2 c w3 v where
    "register_netlink epoll m (ans_monitor ans) world_new = (a, w1)"
    "register_netlink epoll m (ans_link_socket ans) w1 = (b, w2)"
    "register_netlink epoll m (ans_addr_socket ans) w2 = (c, w3)"
    "answers_ok a" "answers_ok b" "answers_ok c"
    "initializeHandlers epoll m (made_handlers ans) w3 = Inr (hs, v)"
    "objs = \<lparr>monitor_at = sa_address a, link_socket_at = sa_address b, addr_socket_at = sa_address c,
       clock_at = hs ! 0, frames_at = hs ! 1, dtr_at = hs ! 2, dtls_at = hs ! 3, interrupt_at = hs ! 4\<rparr>"
    "srv_clients s = \<lparr>transport_sockets = [], event_counter = 0, event_world = v\<rparr>"
    "srv_interrupt s = \<lparr>interrupt_flag = False, signals_blocked = True\<rparr>"
    "neighbour_list (srv_clock s) = []" "srv_buffer s = 2"
    "repository_part s = (made_repository a b c, nenv, env)"
proof -
  obtain a w1 where a: "register_netlink epoll m (ans_monitor ans) world_new = (a, w1)" by fastforce
  obtain b w2 where b: "register_netlink epoll m (ans_link_socket ans) w1 = (b, w2)" by fastforce
  obtain c w3 where c: "register_netlink epoll m (ans_addr_socket ans) w2 = (c, w3)" by fastforce
  obtain e where e: "EventManager_Create (ans_epoll ans) = Inr e"
    using start by (cases "EventManager_Create (ans_epoll ans)") (simp_all add: server_start_def Let_def)
  obtain r u where R: "main_repository (a, b, c) (verbose_option args False) (fst (ans_broadcast ans))
      (snd (ans_broadcast ans)) no_objects = Inr (r, u)"
    using start a b c e by (fastforce simp: server_start_def Let_def)
  obtain l where r: "r = Inr l"
    using start a b c e R by (cases r) (simp_all add: server_start_def Let_def unwrapOrLog_def)
  obtain hs' v where init: "initializeHandlers epoll m (made_handlers ans) w3 = Inr (hs', v)"
    using start a b c e R r
    by (cases "initializeHandlers epoll m (made_handlers ans) w3") (auto simp: server_start_def unwrapOrLog_def Let_def)
  have "answers_ok a \<and> answers_ok b \<and> answers_ok c" by (rule main_repository_ok [OF R [unfolded r]])
  then have ok: "answers_ok a" "answers_ok b" "answers_ok c" by simp_all
  have hs: "hs' = hs" using start a b c e R r init by (simp add: server_start_def unwrapOrLog_def Let_def)
  show ?thesis
    by (rule that [OF a b c ok init [unfolded hs]])
      (use start a b c e R r init hs in \<open>auto simp: server_start_def unwrapOrLog_def Let_def repository_part_def\<close>)
qed

lemma made_socket_register: "register_netlink epoll m x w = (a, v) \<Longrightarrow> made_socket a = made_socket x"
  by (auto simp: register_netlink_def made_socket_def case_prod_beta split: if_splits)

lemma started_repository:
  assumes "server_start epoll m args ans nenv env = Inr (Inr (objs, hs, s))"
  shows "repository_part s =
    (made_repository (ans_monitor ans) (ans_link_socket ans) (ans_addr_socket ans), nenv, env)"
proof -
  obtain a w1 b w2 c w3 where "register_netlink epoll m (ans_monitor ans) world_new = (a, w1)"
    "register_netlink epoll m (ans_link_socket ans) w1 = (b, w2)"
    "register_netlink epoll m (ans_addr_socket ans) w2 = (c, w3)"
    "repository_part s = (made_repository a b c, nenv, env)"
    by (rule server_start_parts [OF assms])
  then show ?thesis by (simp add: made_repository_def made_socket_register)
qed

lemma netlink_sockets_registered:
  assumes d: "documented epoll" and fds: "distinct (given_descriptors ans)"
    and a: "register_netlink epoll m (ans_monitor ans) world_new = (a, w1)" "answers_ok a"
    and b: "register_netlink epoll m (ans_link_socket ans) w1 = (b, w2)" "answers_ok b"
    and c: "register_netlink epoll m (ans_addr_socket ans) w2 = (c, w3)" "answers_ok c"
  shows "coherent w3" "counters_ok 3 w3" "none_expired m w3" "next_address w3 = 3"
    "open_descriptors w3 = set (take 3 (given_descriptors ans))" "registered_with m w3 p \<longleftrightarrow> p \<in> {0, 1, 2}"
    "sa_address a = 0" "sa_address b = 1" "sa_address c = 2"
proof -
  have world: "coherent world_new" "counters_ok 0 world_new" "none_expired m world_new" "next_address world_new = 0"
    "open_descriptors world_new = {}" "\<And>p. \<not> registered_with m world_new p"
    using world_new_invariants by (simp_all add: world_new_def registered_with_def none_expired_def reg_def EventManager_new_def)
  have fa: "nat (sa_socket (ans_monitor ans)) \<notin> open_descriptors world_new" by (simp add: world)
  have n: "0 + 3 < (2 :: nat) ^ 64" "Suc 0 + 3 < (2 :: nat) ^ 64" "Suc (Suc 0) + 3 < (2 :: nat) ^ 64" by simp_all
  note A = register_netlink_ok [OF d world(1-3) n(1) fa a]
  have fb: "nat (sa_socket (ans_link_socket ans)) \<notin> open_descriptors w1"
    using given_distinct(1) [OF fds] unfolding A(6) world(5) by blast
  note B = register_netlink_ok [OF d A(1-3) n(2) fb b]
  have fc: "nat (sa_socket (ans_addr_socket ans)) \<notin> open_descriptors w2"
    using given_distinct(2,3) [OF fds] unfolding A(6) B(6) world(5) by blast
  note C = register_netlink_ok [OF d B(1-3) n(3) fc c]
  show "sa_address a = 0" "sa_address b = 1" "sa_address c = 2"
    by (simp_all add: A(4,5) B(4,5) C(4) world(4))
  show "coherent w3" "counters_ok 3 w3" "none_expired m w3" using C(1-3) by (simp_all add: numeral_3_eq_3)
  show "next_address w3 = 3" by (simp add: A(5) B(5) C(5) world(4))
  show "open_descriptors w3 = set (take 3 (given_descriptors ans))"
    unfolding A(6) B(6) C(6) world(5) by (simp add: given_descriptors_def numeral_3_eq_3 insert_commute)
  show "registered_with m w3 p \<longleftrightarrow> p \<in> {0, 1, 2}"
    by (simp only: A(5,7) B(5,7) C(7) world(4,6)) auto
qed

lemma handlers_registered:
  assumes d: "documented epoll" and fds: "distinct (given_descriptors ans)"
    and w: "coherent w" "counters_ok 3 w" "none_expired m w" "next_address w = 3"
      "open_descriptors w = set (take 3 (given_descriptors ans))" "\<And>p. registered_with m w p \<longleftrightarrow> p \<in> {0, 1, 2}"
    and init: "initializeHandlers epoll m (made_handlers ans) w = Inr (hs, v)"
  shows "hs = [6, 3, 4, 5, 7]" "coherent v" "counters_ok 8 v" "none_expired m v" "registered_with m v p \<longleftrightarrow> p < 8"
proof -
  obtain fs where v: "add_handlers epoll m hs (construct_all fs w) = Inr v"
    and "map fst fs = [nat (fst (ans_frames ans)), nat (fst (ans_dtr ans)), ans_listener ans,
        nat (fst (fst (ans_timer ans))), nat (fst (snd (ans_signal ans)))]"
    using initializeHandlers_all(2) [OF init] by (elim exE conjE)
  from this(2) have fs: "map fst fs = drop 3 (given_descriptors ans)"
    unfolding given_descriptors_def numeral_3_eq_3 drop_Suc_Cons drop0 by assumption
  let ?c = "construct_all fs w"
  show hs: "hs = [6, 3, 4, 5, 7]" using initializeHandlers_all(1) [OF init] w(4) by simp
  have len: "length fs = 5" using arg_cong [OF fs, of length] by (simp add: given_descriptors_def)
  have "coherent ?c \<and> counters_ok 3 ?c \<and>
    (\<forall>i < length fs. \<exists>h. handlers ?c (next_address w + i) = Some h \<and> event_manager h = None \<and> handler_socket h = fst (fs ! i)) \<and>
    (\<forall>p. p < next_address w \<longrightarrow> handlers ?c p = handlers w p)"
    by (rule construct_all_world [OF w(1,2)])
      (use fds fs w(5) set_take_disj_set_drop_if_distinct [OF fds, of 3 3] in \<open>auto simp: distinct_drop\<close>)
  then have C: "coherent ?c" "counters_ok 3 ?c"
    and made: "\<And>i. i < 5 \<Longrightarrow> \<exists>h. handlers ?c (3 + i) = Some h \<and> event_manager h = None"
    and old: "\<And>p. p < 3 \<Longrightarrow> handlers ?c p = handlers w p"
    unfolding len w(4) by blast+
  have free: "\<forall>p \<in> set hs. \<exists>h. handlers ?c p = Some h \<and> event_manager h = None"
    using made [of 0] made [of 1] made [of 2] made [of 3] made [of 4] by (simp add: hs)
  have dist: "distinct hs" by (simp add: hs)
  have "coherent v \<and> counters_ok (3 + length hs) v \<and> (\<forall>p. registered_with m v p \<longleftrightarrow> p \<in> set hs \<or> registered_with m ?c p) \<and>
    (\<forall>p. map_option handler_socket (handlers v p) = map_option handler_socket (handlers ?c p))"
    by (rule add_handlers_registers [OF d C _ free dist v]) (simp add: hs)
  then have V: "coherent v" "counters_ok 8 v" "\<And>p. registered_with m v p \<longleftrightarrow> p \<in> set hs \<or> registered_with m ?c p"
    by (simp_all add: hs)
  show "coherent v" "counters_ok 8 v" by (rule V)+
  show "none_expired m v"
    by (rule none_expired_add_handlers [OF d C _ none_expired_construct_all [OF w(3)] dist free v]) (simp add: hs)
  have "registered_with m ?c p \<longleftrightarrow> p < 3"
  proof (cases "p < 3")
    case True
    then show ?thesis using old w(6) [of p] by (auto simp: registered_with_def)
  next
    case False
    have "\<not> registered_with m ?c p"
    proof
      assume "registered_with m ?c p"
      then obtain h where "handlers ?c p = Some h" "event_manager h = Some m" by (auto simp: registered_with_def)
      then have "reg w m (handle h) = Some p" using coherent_handler [OF C(1)] by (simp add: reg_construct_all)
      then show False using coherent_address [OF w(1)] False w(4) by fastforce
    qed
    then show ?thesis using False by simp
  qed
  then show "registered_with m v p \<longleftrightarrow> p < 8" by (auto simp: V(3) hs)
qed

lemma server_start_inv:
  assumes d: "documented epoll" and fds: "distinct (given_descriptors ans)"
    and start: "server_start epoll m args ans nenv env = Inr (Inr (objs, hs, s))"
  shows "service_inv m objs 8 s" "hs = [clock_at objs, frames_at objs, dtr_at objs, dtls_at objs, interrupt_at objs]"
    "distinct hs" "\<not> interrupt_flag (srv_interrupt s)" "neighbour_list (srv_clock s) = []" "srv_buffer s = 2"
    "objs = \<lparr>monitor_at = 0, link_socket_at = 1, addr_socket_at = 2,
      clock_at = 6, frames_at = 3, dtr_at = 4, dtls_at = 5, interrupt_at = 7\<rparr>"
proof -
  obtain a w1 b w2 c w3 v where a: "register_netlink epoll m (ans_monitor ans) world_new = (a, w1)"
    and b: "register_netlink epoll m (ans_link_socket ans) w1 = (b, w2)"
    and c: "register_netlink epoll m (ans_addr_socket ans) w2 = (c, w3)"
    and ok: "answers_ok a" "answers_ok b" "answers_ok c"
    and init: "initializeHandlers epoll m (made_handlers ans) w3 = Inr (hs, v)"
    and objs: "objs = \<lparr>monitor_at = sa_address a, link_socket_at = sa_address b, addr_socket_at = sa_address c,
       clock_at = hs ! 0, frames_at = hs ! 1, dtr_at = hs ! 2, dtls_at = hs ! 3, interrupt_at = hs ! 4\<rparr>"
    and s: "srv_clients s = \<lparr>transport_sockets = [], event_counter = 0, event_world = v\<rparr>"
      "srv_interrupt s = \<lparr>interrupt_flag = False, signals_blocked = True\<rparr>" "neighbour_list (srv_clock s) = []" "srv_buffer s = 2"
    by (rule server_start_parts [OF start])
  note sockets = netlink_sockets_registered [OF d fds a ok(1) b ok(2) c ok(3)]
  note handlers = handlers_registered [OF d fds sockets(1-6) init]
  show addresses: "objs = \<lparr>monitor_at = 0, link_socket_at = 1, addr_socket_at = 2,
      clock_at = 6, frames_at = 3, dtr_at = 4, dtls_at = 5, interrupt_at = 7\<rparr>"
    by (simp add: objs sockets(7-9) handlers(1))
  show "hs = [clock_at objs, frames_at objs, dtr_at objs, dtls_at objs, interrupt_at objs]" "distinct hs"
    by (simp_all add: addresses handlers(1))
  show "\<not> interrupt_flag (srv_interrupt s)" "neighbour_list (srv_clock s) = []" "srv_buffer s = 2" by (simp_all add: s)
  have "registered_with m v p \<longleftrightarrow> p \<in> objects_of objs" for p
    by (auto simp: handlers(5) objects_of_def addresses)
  then show "service_inv m objs 8 s"
    using handlers(2-4) by (simp add: service_inv_def clients_inv_def s)
qed

subsection \<open>When it succeeds\<close>

text \<open>An \<open>epoll_ctl\<close> that takes every descriptor that it does not watch.\<close>

definition accepting :: "epoll_ctl \<Rightarrow> bool" where
  "accepting epoll \<longleftrightarrow> (\<forall>n k ev fd interest. interest fd = None \<longrightarrow>
     fst (epoll n (EPOLL_CTL_ADD k ev) fd interest) = 0)"

lemma Add_succeeds:
  assumes "accepting epoll" "coherent w" "handlers w p = Some h" "event_manager h = None"
  shows "\<exists>k. fst (EventManager_Add epoll m p w) = Inr k"
  using assms(1) coherent_free(2) [OF assms(2-4), of m] assms(3,4)
  by (auto simp: EventManager_Add_def detached_def call_epoll_def watched_def accepting_def Let_def case_prod_beta)

lemma add_handlers_succeeds:
  assumes d: "documented epoll" and a: "accepting epoll"
  shows "coherent w \<Longrightarrow> counters_ok n w \<Longrightarrow> n + length hs + 2 < 2 ^ 64 \<Longrightarrow> distinct hs \<Longrightarrow>
    \<forall>p \<in> set hs. \<exists>h. handlers w p = Some h \<and> event_manager h = None \<Longrightarrow>
    \<exists>v. add_handlers epoll m hs w = Inr v"
proof (induction hs arbitrary: w n)
  case (Cons p hs)
  obtain h where h: "handlers w p = Some h" "event_manager h = None" using Cons.prems(5) by auto
  obtain k u where u: "EventManager_Add epoll m p w = (Inr k, u)"
    using Add_succeeds [OF a Cons.prems(1) h, of m] by (cases "EventManager_Add epoll m p w") auto
  have "coherent u" "counters_ok (Suc n) u"
    using Add_invariants [OF d Cons.prems(1,2), of m p] Cons.prems(3) u by simp_all
  moreover have "\<forall>q \<in> set hs. \<exists>h. handlers u q = Some h \<and> event_manager h = None"
    using Cons.prems(4,5) by (auto simp: Add_handlers [OF u h])
  ultimately obtain v where "add_handlers epoll m hs u = Inr v"
    using Cons.IH [of u "Suc n"] Cons.prems(3,4) by auto
  then show ?case using u by (simp add: unwrapOrLog_def)
qed simp

text \<open>The answers to every other call of the start.\<close>

definition calls_succeed :: "start_answers \<Rightarrow> bool" where
  "calls_succeed ans \<longleftrightarrow> 0 \<le> fst (ans_epoll ans) \<and>
     (\<forall>a \<in> {ans_monitor ans, ans_link_socket ans, ans_addr_socket ans}. 0 \<le> sa_socket a \<and> 0 \<le> sa_bind a) \<and>
     0 \<le> fst (ans_broadcast ans) \<and> 0 \<le> fst (ans_frames ans) \<and> 0 \<le> fst (ans_dtr ans) \<and>
     (\<exists>l. fst (ClientListenSocket_Create (fst (ans_lock ans)) (snd (ans_lock ans))) = Inr l) \<and>
     0 \<le> fst (fst (ans_timer ans)) \<and> fst (snd (ans_timer ans)) = 0 \<and>
     fst (fst (ans_signal ans)) = 0 \<and> 0 \<le> fst (snd (ans_signal ans))"

lemma register_netlink_answers:
  assumes "accepting epoll" "coherent w" "nat (sa_socket a) \<notin> open_descriptors w" "0 \<le> sa_socket a" "0 \<le> sa_bind a"
    and "register_netlink epoll m a w = (b, v)"
  shows "answers_ok b"
proof -
  let ?w = "snd (EventHandler_new (nat (sa_socket a)) EPOLLIN w)" and ?p = "next_address w"
  have "handlers ?w ?p = Some \<lparr>event_manager = None, handle = 0, handler_socket = nat (sa_socket a), handler_events = EPOLLIN\<rparr>"
    by (simp add: EventHandler_new_def)
  from Add_succeeds [OF assms(1) new_handler_coherent [OF assms(2,3)] this]
  obtain k where "fst (EventManager_Add epoll m ?p ?w) = Inr k" by auto
  then show ?thesis
    using assms(4-) by (auto simp: register_netlink_def answers_ok_def case_prod_beta EventHandler_new_address)
qed

lemma initializeHandlers_succeeds:
  assumes d: "documented epoll" "accepting epoll" and fds: "distinct (given_descriptors ans)" and ok: "calls_succeed ans"
    and w: "coherent w" "counters_ok 3 w" "open_descriptors w = set (take 3 (given_descriptors ans))"
  shows "\<exists>hs v. initializeHandlers epoll m (made_handlers ans) w = Inr (hs, v)"
proof -
  let ?f = "[nat (fst (ans_frames ans)), nat (fst (ans_dtr ans)), ans_listener ans,
    nat (fst (fst (ans_timer ans))), nat (fst (snd (ans_signal ans)))]"
  have made: "made_handlers ans = \<lparr>created_monitor = Inr (?f ! 0), created_dtr = Inr (?f ! 1),
      created_dtls = Inr (?f ! 2), created_clock = Inr (?f ! 3), created_interrupt = Inr (?f ! 4)\<rparr>"
    using ok by (auto simp: made_handlers_def calls_succeed_def EthernetLldpMonitor_Create_def
        ClientRepository_Create_def ClockHandler_Create_def InterruptHandler_Create_def split: prod.splits)
  let ?fs = "[(?f ! 0, EPOLLIN), (?f ! 1, EPOLLIN), (?f ! 2, EPOLLIN), (?f ! 3, EPOLLIN), (?f ! 4, POLLIN)]"
  let ?c = "construct_all ?fs w" and ?hs = "map (\<lambda>i. next_address w + i) [3, 0, 1, 2, 4]"
  have fs: "map fst ?fs = drop 3 (given_descriptors ans)"
    by (simp add: given_descriptors_def numeral_3_eq_3)
  have "distinct (map fst ?fs)" "set (map fst ?fs) \<inter> open_descriptors w = {}"
    unfolding fs w(3) using fds set_take_disj_set_drop_if_distinct [OF fds order.refl, of 3]
    by (simp_all only: distinct_drop Int_commute)
  note C' = construct_all_world [OF w(1,2) this]
  have len: "length ?fs = 5" by simp
  have C: "coherent ?c" "counters_ok 3 ?c"
    and new: "\<And>i. i < 5 \<Longrightarrow> \<exists>h. handlers ?c (next_address w + i) = Some h \<and> event_manager h = None"
    using C' unfolding len by blast+
  have "\<forall>p \<in> set ?hs. \<exists>h. handlers ?c p = Some h \<and> event_manager h = None"
    using new [of 0] new [of 1] new [of 2] new [of 3] new [of 4] by (simp del: construct_all.simps)
  moreover have "distinct ?hs" "3 + length ?hs + 2 < 2 ^ 64" by simp_all
  ultimately obtain v where "add_handlers epoll m ?hs ?c = Inr v"
    using add_handlers_succeeds [OF d C] by metis
  then have "initializeHandlers epoll m (made_handlers ans) w = Inr (?hs, v)"
    unfolding initializeHandlers_eq [OF made] Let_def by (simp del: construct_all.simps add_handlers.simps)
  then show ?thesis by blast
qed

lemma server_start_succeeds:
  assumes d: "documented epoll" "accepting epoll" and fds: "distinct (given_descriptors ans)" and ok: "calls_succeed ans"
  shows "\<exists>objs hs s. server_start epoll m args ans nenv env = Inr (Inr (objs, hs, s))"
proof -
  obtain a w1 where a: "register_netlink epoll m (ans_monitor ans) world_new = (a, w1)" by fastforce
  obtain b w2 where b: "register_netlink epoll m (ans_link_socket ans) w1 = (b, w2)" by fastforce
  obtain c w3 where c: "register_netlink epoll m (ans_addr_socket ans) w2 = (c, w3)" by fastforce
  have calls: "0 \<le> sa_socket x \<and> 0 \<le> sa_bind x" if "x \<in> {ans_monitor ans, ans_link_socket ans, ans_addr_socket ans}" for x
    using ok that unfolding calls_succeed_def by blast
  have world: "coherent world_new" "counters_ok 0 world_new" "none_expired m world_new" "open_descriptors world_new = {}"
    using world_new_invariants by (simp_all add: world_new_def none_expired_def reg_def EventManager_new_def)
  have n: "0 + 3 < (2 :: nat) ^ 64" "Suc 0 + 3 < (2 :: nat) ^ 64" by simp_all
  have fa: "nat (sa_socket (ans_monitor ans)) \<notin> open_descriptors world_new" by (simp add: world)
  have A: "answers_ok a" using register_netlink_answers [OF d(2) world(1) fa _ _ a] calls by simp
  note A' = register_netlink_ok [OF d(1) world(1-3) n(1) fa a A]
  have fb: "nat (sa_socket (ans_link_socket ans)) \<notin> open_descriptors w1"
    using given_distinct(1) [OF fds] unfolding A'(6) world(4) by blast
  have B: "answers_ok b" using register_netlink_answers [OF d(2) A'(1) fb _ _ b] calls by simp
  note B' = register_netlink_ok [OF d(1) A'(1-3) n(2) fb b B]
  have fc: "nat (sa_socket (ans_addr_socket ans)) \<notin> open_descriptors w2"
    using given_distinct(2,3) [OF fds] unfolding A'(6) B'(6) world(4) by blast
  have C: "answers_ok c" using register_netlink_answers [OF d(2) B'(1) fc _ _ c] calls by simp
  note sockets = netlink_sockets_registered [OF d(1) fds a A b B c C]
  obtain hs v where "initializeHandlers epoll m (made_handlers ans) w3 = Inr (hs, v)"
    using initializeHandlers_succeeds [OF d fds ok sockets(1,2,5)] by blast
  moreover have "EventManager_Create (ans_epoll ans) = Inr EventManager_new" "0 \<le> fst (ans_broadcast ans)"
    using ok by (simp_all add: calls_succeed_def EventManager_Create_def case_prod_beta)
  ultimately show ?thesis
    using a b c main_repository_made [OF A B C, of "fst (ans_broadcast ans)"] sockets(7-9)
    by (simp add: server_start_def Let_def unwrapOrLog_def)
qed

text \<open>C17: If every call succeeds, the server starts, with its eight handlers and no other registered.\<close>
theorem service_starts:
  assumes "documented epoll" and "accepting epoll" and "distinct (given_descriptors ans)" and "calls_succeed ans"
  shows "\<exists>objs hs s. server_start epoll m args ans nenv env = Inr (Inr (objs, hs, s)) \<and>
    (\<forall>p. registered_with m (server_world s) p \<longleftrightarrow> p \<in> objects_of objs)"
proof -
  obtain objs hs s where s: "server_start epoll m args ans nenv env = Inr (Inr (objs, hs, s))"
    using server_start_succeeds [OF assms] by blast
  have "service_inv m objs 8 s" "server_clients s = []"
    by (rule server_start_inv(1) [OF assms(1,3) s]) (use s in \<open>auto elim: server_start_parts\<close>)
  then show ?thesis using s by (auto simp: service_inv_def)
qed

subsection \<open>An example\<close>

definition example_start :: start_answers where
  "example_start = \<lparr>ans_epoll = (3, 0), ans_monitor = example_answers 5, ans_link_socket = example_answers 6,
     ans_addr_socket = example_answers 7, ans_broadcast = (8, 0), ans_frames = (9, 0), ans_dtr = (10, 0),
     ans_lock = (\<lparr>open_errno = 0, flock_errno = 0, socket_errno = 0, bind_errno = 0, listen_errno = 0\<rparr>,
       \<lparr>lock_name = None, socket_name = None, locked = [], next_inode = 1\<rparr>),
     ans_listener = 11, ans_timer = ((12, 0), (0, 0)), ans_signal = ((0, 0), (13, 0))\<rparr>"

definition nothing_found :: findings where
  "nothing_found = \<lparr>found_expirations = None, found_peek = None, found_frame = None, found_batch = None,
     found_request = None, notify_succeeds = True, found_notification = False, found_connection = None,
     found_signal = False, unblock_succeeds = True\<rparr>"

lemma example_start_succeeds: "distinct (given_descriptors example_start)" "calls_succeed example_start"
proof -
  show "distinct (given_descriptors example_start)" by code_simp
  have "case fst (ClientListenSocket_Create (fst (ans_lock example_start)) (snd (ans_lock example_start))) of
    Inl _ \<Rightarrow> False | Inr _ \<Rightarrow> True" by code_simp
  then have "\<exists>l. fst (ClientListenSocket_Create (fst (ans_lock example_start)) (snd (ans_lock example_start))) = Inr l"
    by (simp split: sum.splits)
  then show "calls_succeed example_start"
    by (simp add: calls_succeed_def) (simp add: example_start_def example_answers_def)
qed

lemma accepting_example_epoll: "accepting example_epoll"
  by (simp add: accepting_def example_epoll_def)

lemma example_started:
  obtains objs hs s where
    "server_start example_epoll 0 [] example_start example_nl_env example_link_env = Inr (Inr (objs, hs, s))"
  using server_start_succeeds [OF documented_example_epoll accepting_example_epoll example_start_succeeds] by blast

theorem service_starts_witness:
  "\<exists>objs hs s. server_start example_epoll 0 [] example_start example_nl_env example_link_env = Inr (Inr (objs, hs, s)) \<and>
    (\<forall>p. registered_with 0 (server_world s) p \<longleftrightarrow> p \<in> objects_of objs)"
  by (rule service_starts [OF documented_example_epoll accepting_example_epoll example_start_succeeds])

end
