(* ===== verification/Service_Rounds.thy ===== *)
theory Service_Rounds
  imports Service_Start
begin

section \<open>The rounds of a started server\<close>

text \<open>
  What holds in every round: it refines \<open>ProcessEvents\<close> on the handlers and a run of the components
  on the rest, it is undefined only for certain input or by a transmission, and the program
  ends in order.
\<close>

subsection \<open>When a dump is undefined, names of any length\<close>

lemma sendLocalInterfaceEntry_Inl:
  "sendLocalInterfaceEntry rid ni device_info e = Inl why \<Longrightarrow>
   \<exists>idx s name. om_find device_info idx = Some s \<and> interface_name (device_data s) = Some name \<and> 16 < length name"
  by (auto simp: sendLocalInterfaceEntry_def IF_NAMESIZE_def not_le split: option.splits if_splits)

definition unsendable :: "senders \<Rightarrow> (bytes \<times> bytes \<times> NeighbourEntry) set \<Rightarrow> bool" where
  "unsendable device_info ns \<longleftrightarrow> (\<exists>(chassis, port, e) \<in> ns. 506 < length port) \<or>
     (\<exists>idx s name. om_find device_info idx = Some s \<and> interface_name (device_data s) = Some name \<and> 16 < length name)"

lemma dump_ports_Inl:
  "dump_ports rid device_info ci ni pm = Inl why \<Longrightarrow> unsendable device_info ((\<lambda>(port, e). (chassis, port, e)) ` set pm)"
proof (induction pm arbitrary: ni)
  case (Cons pe pm)
  obtain port e where pe: "pe = (port, e)" by (cases pe)
  have "sendNeighbourEntry rid ci ni port = Inl why \<Longrightarrow> 506 < length port"
    using sendNeighbourEntry_cases [of port rid ci ni] by (auto split: if_splits)
  then show ?case
    using Cons.prems Cons.IH [of "ni + 1"] sendLocalInterfaceEntry_Inl [of rid ni device_info e]
    by (auto simp: pe bind_cpp_eq_Inl unsendable_def)
qed simp

lemma dump_chassis_Inl:
  "dump_chassis rid device_info ci ni nl = Inl why \<Longrightarrow> unsendable device_info (set (neighbours_of nl))"
proof (induction nl arbitrary: ci ni)
  case (Cons cp nl)
  obtain chassis pm where cp: "cp = (chassis, pm)" by (cases cp)
  have "unsendable device_info ((\<lambda>(port, e). (chassis, port, e)) ` set pm) \<or> unsendable device_info (set (neighbours_of nl))"
    using Cons.prems Cons.IH dump_ports_Inl [of rid device_info ci ni pm why chassis] sendChassisEntryPacket_defined [of rid ci chassis]
    by (fastforce simp: cp bind_cpp_eq_Inl)
  then show ?case by (auto simp: cp neighbours_of_Cons unsendable_def bex_Un)
qed simp

lemma request_Inl:
  assumes "nl_inv nl" "ClientSenderSocket_Call received device_info nl c = Inl why"
  shows "\<exists>lo hi. received = Some [lo, hi] \<and> unsendable device_info {(chassis, port, e). nl_lookup nl (chassis, port) = Some e}"
proof -
  have set: "set (neighbours_of nl) = {(chassis, port, e). nl_lookup nl (chassis, port) = Some e}"
    using neighbours_of_lookup [OF assms(1)] by auto
  show ?thesis
    using assms(2) dump_chassis_Inl [where nl = nl, unfolded set]
    by (auto simp: ClientSenderSocket_Call_def DumpData_def bind_cpp_eq_Inl length_2_conv split: option.splits if_splits)
qed

subsection \<open>What makes a round undefined\<close>

lemma read_batch_of_nothing: "recvNetlinkMessageBatch fd [] peek recv = bs \<Longrightarrow> bs \<noteq> [] \<Longrightarrow>
  \<exists>n datagram. recv = Some (0, datagram) \<and> bs = take n datagram"
  by (auto simp: recvNetlinkMessageBatch_def overwrite_def Let_def split: option.splits if_splits)

lemma netlink_ready_Inl:
  assumes "netlink_ready event socket f s = Inl why"
  shows "\<exists>n datagram. found_batch f = Some (0, datagram) \<and> read_batch (take n datagram) = Inl why"
proof -
  obtain sock where "NetlinkSocket_Call sock (found_peek f) (found_batch f) = Inl why"
    using assms by (auto simp: netlink_ready_def bind_cpp_eq_Inl split: option.splits)
  then have r: "read_batch (recvNetlinkMessageBatch (socket_fd sock) [] (found_peek f) (found_batch f)) = Inl why"
    by (auto simp: NetlinkSocket_Call_def split: if_splits)
  then have "recvNetlinkMessageBatch (socket_fd sock) [] (found_peek f) (found_batch f) \<noteq> []" by auto
  from read_batch_of_nothing [OF refl this] r show ?thesis by metis
qed

lemma netlink_run_defined:
  "set es \<subseteq> range Monitor_ready \<union> range Device_ready \<union> range Address_ready \<Longrightarrow> \<exists>s'. server_run epoll m es s = Inr ([], s')"
  by (induction es arbitrary: s) auto

lemma frame_called_Inl:
  assumes "frame_called peek recv n nl = Inl why"
  shows "\<exists>address frame k du. recv = Some (address, frame) \<and> DataUnit_FromSpan (take k frame) = Inr du \<and>
    length (tlv_value (time_to_live du)) < 2"
proof -
  obtain address frame k where recv: "recv = Some (address, frame)"
    and u: "lldpFrameParser nl address (take k frame) = Inl (Undefined why)"
    using assms
    by (auto simp: frame_called_def Monitor_Call_def Let_def split: option.splits prod.splits sum.splits if_splits frame_rejected.splits)
  then show ?thesis
    by (fastforce simp: lldpFrameParser_def lldpduToNeighbourEntry_cases split: if_splits sum.splits list.splits)
qed

text \<open>
  What a call of a handler finds when it is undefined: a batch from the kernel that does not parse, a
  frame whose time to live is short, or a request while something known does not fit a packet.
\<close>

definition undefined_input :: "findings \<Rightarrow> server \<Rightarrow> bool" where
  "undefined_input f s \<longleftrightarrow>
     (\<exists>n datagram why. found_batch f = Some (0, datagram) \<and> read_batch (take n datagram) = Inl why) \<or>
     (\<exists>address frame n du. found_frame f = Some (address, frame) \<and> DataUnit_FromSpan (take n frame) = Inr du \<and>
        length (tlv_value (time_to_live du)) < 2) \<or>
     (\<exists>lo hi. found_request f = Some [lo, hi] \<and>
        unsendable (current_state (lldp_repository (srv_clock s)))
          {(chassis, port, e). nl_lookup (neighbour_list (srv_clock s)) (chassis, port) = Some e})"

lemma object_called_Inl:
  assumes "nl_inv (neighbour_list (srv_clock s))" "object_called epoll m objs p f s = Inl why"
  shows "undefined_input f s"
proof -
  from assms(2) consider "object_events objs p f s = Inl why"
    | es where "object_events objs p f s = Inr es" "server_run epoll m es s = Inl why"
    by (auto simp: object_called_def bind_cpp_eq_Inl)
  then show ?thesis
  proof cases
    case 1
    then obtain event socket where "netlink_ready event socket f s = Inl why"
      by (simp add: object_events_def split: if_splits)
    from netlink_ready_Inl [OF this] show ?thesis unfolding undefined_input_def by (intro disjI1) metis
  next
    case 2
    from 2(1) show ?thesis
    proof (cases rule: object_events_cases [where m = m])
      case (netlink event socket)
      then have "set es \<subseteq> range Monitor_ready \<union> range Device_ready \<union> range Address_ready"
        using netlink_ready_events [OF netlink(2)] by auto
      then show ?thesis using netlink_run_defined [of es epoll m s] 2(2) by auto
    next
      case client
      then obtain c where "ClientSenderSocket_Call (found_request f) (current_state (lldp_repository (srv_clock s)))
          (neighbour_list (srv_clock s)) c = Inl why"
        using 2(2) by (auto simp: client_called_def bind_cpp_eq_Inl split: option.splits)
      then show ?thesis using request_Inl [OF assms(1)] unfolding undefined_input_def by blast
    next
      case frame
      then have "frame_called (found_peek f) (found_frame f) (srv_buffer s) (neighbour_list (srv_clock s)) = Inl why"
        using 2(2) by (auto simp: bind_cpp_eq_Inl)
      then show ?thesis using frame_called_Inl unfolding undefined_input_def by blast
    next
      case (other e)
      obtain t where "handler_called epoll m e s = Inr ([], t)" using other(3) [of epoll s] by blast
      then show ?thesis using 2(2) other(1) by simp
    qed
  qed
qed

lemma neighbours_reachable_event:
  assumes "handler_called epoll m e s = Inr (out, s')" "neighbours_reachable (neighbour_list (srv_clock s))"
  shows "neighbours_reachable (neighbour_list (srv_clock s'))"
proof -
  have e: "neighbour_event e (srv_buffer s, neighbour_list (srv_clock s)) = Inr (srv_buffer s', neighbour_list (srv_clock s'))"
    using handler_called_parts [OF assms(1)] by (simp add: neighbour_part_def)
  show ?thesis
  proof (cases e)
    case (Timer_ready r)
    then have "neighbour_list (srv_clock s') = neighbour_list (srv_clock s) \<or>
      (\<exists>d. neighbour_list (srv_clock s') = NeighbourList_Tick d (neighbour_list (srv_clock s)))"
      using e by (cases r) (simp, cases "r = Some 0", simp, simp, metis)
    then show ?thesis using neighbours_reachable.ticked assms(2) by auto
  next
    case (Frame_ready peek recv)
    then show ?thesis
      using e assms(2) by (auto simp: frame_called_def intro: neighbours_reachable.received
          split: prod.splits option.splits sum.splits frame_rejected.splits)
  qed (use e assms(2) in auto)
qed

lemma neighbours_reachable_run:
  "server_run epoll m es s = Inr (out, s') \<Longrightarrow> neighbours_reachable (neighbour_list (srv_clock s)) \<Longrightarrow>
   neighbours_reachable (neighbour_list (srv_clock s'))"
proof (induction es arbitrary: s out)
  case (Cons e es)
  then obtain out1 t out2 where "handler_called epoll m e s = Inr (out1, t)" "server_run epoll m es t = Inr (out2, s')" by auto
  then show ?case using Cons.IH neighbours_reachable_event Cons.prems(2) by blast
qed simp

lemma object_called_reachable:
  "object_called epoll m objs p f s = Inr (out, s') \<Longrightarrow> neighbours_reachable (neighbour_list (srv_clock s)) \<Longrightarrow>
   neighbours_reachable (neighbour_list (srv_clock s'))"
  using neighbours_reachable_run by (auto simp: object_called_def)

lemma service_dispatch_reachable:
  "service_dispatch epoll m objs ready s = Inr (called, out, s') \<Longrightarrow> neighbours_reachable (neighbour_list (srv_clock s)) \<Longrightarrow>
   neighbours_reachable (neighbour_list (srv_clock s'))"
proof (induction ready arbitrary: s called out)
  case (Cons r ready)
  obtain k f where r: "r = (k, f)" by (cases r)
  show ?case
    using Cons.prems Cons.IH object_called_reachable by (fastforce simp: r split: option.splits)
qed simp

text \<open>
  A call of a handler that hands a frame to the socket: building it, \<open>sendFrame\<close> reads the local
  variables of \<open>constructFrame\<close> after it has returned.
\<close>

definition transmits :: "epoll_ctl \<Rightarrow> nat \<Rightarrow> service_objects \<Rightarrow> nat \<Rightarrow> findings \<Rightarrow> server \<Rightarrow> bool" where
  "transmits epoll m objs p f s =
     (case object_called epoll m objs p f s of Inl _ \<Rightarrow> False
      | Inr (_, t) \<Rightarrow> length (send_log (srv_link s)) < length (send_log (srv_link t)))"

lemma handler_called_link:
  assumes "handler_called epoll m e s = Inr (out, t)" "e \<notin> range Timer_ready \<union> range Address_ready"
  shows "srv_link t = srv_link s"
proof (cases e)
  case (Monitor_ready p)
  then show ?thesis
    using assms(1) by (auto simp: netlink_called_def synchronised_def split: option.splits prod.splits)
next
  case (Device_ready p)
  then show ?thesis
    using assms(1) by (auto simp: netlink_called_def synchronised_def split: option.splits prod.splits)
qed (use assms in auto)

lemma server_run_link:
  "server_run epoll m es s = Inr (out, t) \<Longrightarrow> set es \<inter> (range Timer_ready \<union> range Address_ready) = {} \<Longrightarrow>
   srv_link t = srv_link s"
proof (induction es arbitrary: s out)
  case (Cons e es)
  then obtain out1 u out2 where "handler_called epoll m e s = Inr (out1, u)" "server_run epoll m es u = Inr (out2, t)" by auto
  then show ?case using Cons.IH handler_called_link Cons.prems(2) by fastforce
qed simp

text \<open>Frames are sent by the clock's handler and by that of the address socket, where dumps end.\<close>

lemma transmits_by:
  assumes "transmits epoll m objs p f s"
  shows "p \<in> {clock_at objs, addr_socket_at objs}"
proof (rule ccontr)
  assume p: "p \<notin> {clock_at objs, addr_socket_at objs}"
  obtain es out t where es: "object_events objs p f s = Inr es" and run: "server_run epoll m es s = Inr (out, t)"
    and sent: "length (send_log (srv_link s)) < length (send_log (srv_link t))"
    using assms by (auto simp: transmits_def object_called_def split: sum.splits)
  have "set es \<inter> (range Timer_ready \<union> range Address_ready) = {}"
    using es p netlink_ready_events [of Monitor_ready monitor f s es]
      netlink_ready_events [of Device_ready "\<lambda>dr. Option.bind (device_reader dr) dr_socket" f s es]
    by (fastforce simp: object_events_def split: if_splits)
  from server_run_link [OF run this] sent show False by simp
qed

lemma service_dispatch_undefined:
  "(case service_dispatch epoll m objs ready s of Inl _ \<Rightarrow> True
    | Inr (_, _, s') \<Rightarrow> length (send_log (srv_link s)) < length (send_log (srv_link s'))) \<Longrightarrow>
   neighbours_reachable (neighbour_list (srv_clock s)) \<Longrightarrow>
   \<exists>before k p f after called out t. ready = before @ (k, f) # after \<and>
     service_dispatch epoll m objs before s = Inr (called, out, t) \<and>
     om_find (registered_events (managers (server_world t) m)) k = Some p \<and>
     (undefined_input f t \<or> transmits epoll m objs p f t)"
proof (induction ready arbitrary: s)
  case (Cons r ready)
  obtain k f where r: "r = (k, f)" by (cases r)
  let ?w = "server_world s"
  let ?bad = "\<lambda>n d. case d of Inl _ \<Rightarrow> True | Inr (_, _, s') \<Rightarrow> n < length (send_log (srv_link s'))"
  have inv: "nl_inv (neighbour_list (srv_clock s))" using reachable_nl_wf [OF Cons.prems(2)] by (simp add: nl_wf_def)
  show ?case
  proof (cases "\<exists>p. om_find (registered_events (managers ?w m)) k = Some p \<and> handlers ?w p \<noteq> None")
    case False
    then have skip: "service_dispatch epoll m objs (r # rest) s = service_dispatch epoll m objs rest s" for rest
      by (auto simp: r split: option.splits)
    then obtain before k' p f' after called out t where IH: "ready = before @ (k', f') # after"
      "service_dispatch epoll m objs before s = Inr (called, out, t)"
      "om_find (registered_events (managers (server_world t) m)) k' = Some p"
      "undefined_input f' t \<or> transmits epoll m objs p f' t"
      using Cons.IH [of s] Cons.prems by auto
    then show ?thesis using skip
      by (intro exI [of _ "r # before"] exI [of _ k'] exI [of _ p] exI [of _ f'] exI [of _ after]) simp
  next
    case True
    then obtain p where p: "om_find (registered_events (managers ?w m)) k = Some p" "handlers ?w p \<noteq> None" by blast
    have call: "service_dispatch epoll m objs (r # rest) s = bind_cpp (object_called epoll m objs p f s) (\<lambda>(out, s).
        bind_cpp (service_dispatch epoll m objs rest s) (\<lambda>(called, outs, s). Inr (p # called, out @ outs, s)))" for rest
      using p by (auto simp: r)
    show ?thesis
    proof (cases "undefined_input f s \<or> transmits epoll m objs p f s")
      case True
      then show ?thesis using p(1) r
        by (intro exI [of _ "[]"] exI [of _ k] exI [of _ p] exI [of _ f] exI [of _ ready]) simp
    next
      case False
      then obtain out t where t: "object_called epoll m objs p f s = Inr (out, t)"
        "length (send_log (srv_link t)) \<le> length (send_log (srv_link s))"
        using object_called_Inl [OF inv] by (cases "object_called epoll m objs p f s") (auto simp: transmits_def not_less)
      have "?bad (length (send_log (srv_link t))) (service_dispatch epoll m objs ready t)"
        using Cons.prems(1) t unfolding call by (auto split: sum.splits)
      from Cons.IH [OF this object_called_reachable [OF t(1) Cons.prems(2)]]
      obtain before k' p' f' after called out' u where IH: "ready = before @ (k', f') # after"
        "service_dispatch epoll m objs before t = Inr (called, out', u)"
        "om_find (registered_events (managers (server_world u) m)) k' = Some p'"
        "undefined_input f' u \<or> transmits epoll m objs p' f' u" by blast
      then have "service_dispatch epoll m objs (r # before) s = Inr (p # called, out @ out', u)" unfolding call using t(1) by simp
      then show ?thesis using IH
        by (intro exI [of _ "r # before"] exI [of _ k'] exI [of _ p'] exI [of _ f'] exI [of _ after]) auto
    qed
  qed
qed simp

subsection \<open>Every round of a service that has started\<close>

inductive serving :: "epoll_ctl \<Rightarrow> nat \<Rightarrow> service_objects \<Rightarrow> server \<Rightarrow> nat \<Rightarrow> server \<Rightarrow> bool"
  for epoll :: epoll_ctl and m :: nat and objs :: service_objects and s0 :: server where
  started: "serving epoll m objs s0 0 s0"
| round: "serving epoll m objs s0 n s \<Longrightarrow> service_process epoll m objs ready s = Inr (called, out, s') \<Longrightarrow>
    serving epoll m objs s0 (Suc n) s'"

lemma serving_inv:
  assumes d: "documented epoll" and fds: "distinct (given_descriptors ans)"
    and start: "server_start epoll m args ans nenv env = Inr (Inr (objs, hs, s0))"
  shows "serving epoll m objs s0 n s \<Longrightarrow> 10 * n + 11 < 2 ^ 64 \<Longrightarrow>
    service_inv m objs (8 + 10 * n) s \<and> neighbours_reachable (neighbour_list (srv_clock s))"
proof (induction rule: serving.induct)
  case started
  show ?case using server_start_inv(1,5) [OF d fds start] by (simp add: neighbours_reachable.start)
next
  case (round n s ready called out s')
  then have IH: "service_inv m objs (8 + 10 * n) s" "neighbours_reachable (neighbour_list (srv_clock s))" by simp_all
  have "8 + 10 * n + 13 < 2 ^ 64" using round.prems by simp
  from service_process_run [OF d IH(1) this round.hyps(2)] obtain es where
    "server_run epoll m es s = Inr (out, s')" "service_inv m objs (8 + 10 * n + 10) s'" by blast
  then show ?case using neighbours_reachable_run IH(2) by (simp add: add.commute add.left_commute)
qed

lemma service_loop_inv:
  assumes d: "documented epoll"
  shows "service_inv m objs n s \<Longrightarrow> n + 10 * length rounds + 3 < 2 ^ 64 \<Longrightarrow>
    service_loop epoll m objs rounds s = Inr (out, s', left) \<Longrightarrow>
    service_inv m objs (n + 10 * length rounds) s' \<and> (interrupt_flag (srv_interrupt s') \<or> left = [])"
proof (induction rounds arbitrary: s n out)
  case (Cons ready rounds)
  show ?case
  proof (cases "interrupt_flag (srv_interrupt s)")
    case True
    then show ?thesis using Cons.prems(1,3) service_inv_mono [OF Cons.prems(1)] by simp
  next
    case False
    then obtain called out1 t outs where t: "service_process epoll m objs ready s = Inr (called, out1, t)"
      "service_loop epoll m objs rounds t = Inr (outs, s', left)"
      using Cons.prems(3) by auto
    have "n + 13 < 2 ^ 64" using Cons.prems(2) by simp
    from service_process_run [OF d Cons.prems(1) this t(1)] have inv: "service_inv m objs (n + 10) t" by blast
    have "n + 10 + 10 * length rounds + 3 < 2 ^ 64" using Cons.prems(2) by simp
    from Cons.IH [OF inv this t(2)] show ?thesis by (simp add: add.assoc)
  qed
qed simp

lemma service_loop_left: "service_loop epoll m objs rounds s = Inr (out, s', left) \<Longrightarrow> length left \<le> length rounds"
proof (induction rounds arbitrary: s out)
  case (Cons ready rounds)
  then show ?case by (fastforce split: if_splits intro: le_SucI)
qed simp

text \<open>The loop over rounds is the main loop of \<open>Server\<close> over the batches of events that the rounds make.\<close>

lemma service_loop_batches:
  assumes d: "documented epoll"
  shows "service_inv m objs n s \<Longrightarrow> n + 10 * length rounds + 3 < 2 ^ 64 \<Longrightarrow>
    service_loop epoll m objs rounds s = Inr (out, s', left) \<Longrightarrow>
    \<exists>batches. length batches = length rounds \<and>
      main_loop epoll m batches s = Inr (out, s', drop (length rounds - length left) batches)"
proof (induction rounds arbitrary: s n out)
  case Nil
  then show ?case by (intro exI [of _ "[]"]) (auto simp: main_loop.simps)
next
  case (Cons ready rounds)
  show ?case
  proof (cases "interrupt_flag (srv_interrupt s)")
    case True
    then show ?thesis
      using Cons.prems(3) by (intro exI [of _ "replicate (Suc (length rounds)) []"]) (auto simp: main_loop.simps)
  next
    case False
    then obtain called out1 t outs where t: "service_process epoll m objs ready s = Inr (called, out1, t)"
      "service_loop epoll m objs rounds t = Inr (outs, s', left)" "out = out1 @ outs"
      using Cons.prems(3) by auto
    have "n + 13 < 2 ^ 64" using Cons.prems(2) by simp
    from service_process_run [OF d Cons.prems(1) this t(1)] obtain es where
      inv: "service_inv m objs (n + 10) t" and es: "server_run epoll m es s = Inr (out1, t)" by blast
    have "n + 10 + 10 * length rounds + 3 < 2 ^ 64" using Cons.prems(2) by simp
    from Cons.IH [OF inv this t(2)] obtain batches where b: "length batches = length rounds"
      "main_loop epoll m batches t = Inr (outs, s', drop (length rounds - length left) batches)" by blast
    have "length left \<le> length rounds" using t(2) by (rule service_loop_left)
    then show ?thesis
      using False es b t(3)
      by (intro exI [of _ "es # batches"]) (simp add: main_loop.simps [of epoll m "es # batches" s] Suc_diff_le)
  qed
qed

lemma handler_is_called:
  assumes inv: "service_inv m objs n s" and p: "registered_with m (server_world s) p"
  shows "\<exists>k. \<forall>f. service_process epoll m objs (Some [(k, f)]) s =
    bind_cpp (object_called epoll m objs p f s) (\<lambda>(out, t). Inr ([p], out, t))"
proof -
  obtain h where h: "handlers (server_world s) p = Some h" "event_manager h = Some m"
    using p by (auto simp: registered_with_def)
  have k: "om_find (registered_events (managers (server_world s) m)) (handle h) = Some p"
    using coherent_handler [OF service_inv_coherent [OF inv] h] by (simp add: reg_def)
  have "expired_handlers m (server_world s) = []"
    using none_expired_handlers [OF service_inv_coherent [OF inv]] inv by (simp add: service_inv_def)
  moreover have "take MAX_CONCURRENT_EVENTS [(handle h, f)] = [(handle h, f)]" for f :: findings
    by (simp add: MAX_CONCURRENT_EVENTS_def)
  ultimately show ?thesis
    using k h(1) by (intro exI [of _ "handle h"]) (simp add: service_process_def with_world_def case_prod_beta')
qed

subsection \<open>Properties\<close>

text \<open>C9: Every round of a started server is an instance of \<open>ProcessEvents\<close> over handlers and managers,
  where what each called handler does is a sequence of actions, and of a run of server events over
  the rest of the state; in this run a client's handler is called only while the client is registered
  and belongs to the repository, and a new connection has a new descriptor.\<close>
theorem rounds_refine_event_manager:
  assumes "documented epoll" and "distinct (given_descriptors ans)"
    and "server_start epoll m args ans nenv env = Inr (Inr (objs, hs, s0))"
    and "serving epoll m objs s0 n s" and "10 * n + 21 < 2 ^ 64"
    and "service_process epoll m objs ready s = Inr (called, out, s')"
  shows "\<exists>es actions. server_run epoll m es s = Inr (out, s') \<and> along_run (event_proper m) epoll m es s \<and>
    ProcessEvents epoll m (map_option (\<lambda>r. zip (map fst r) actions) ready) (server_world s) = (called, server_world s')"
proof -
  have "service_inv m objs (8 + 10 * n) s" using serving_inv [OF assms(1-4)] assms(5) by simp
  then show ?thesis using service_process_run [OF assms(1) _ _ assms(6)] assms(5) by fastforce
qed

text \<open>
  A round in which the model meets undefined behaviour, or in which a frame is sent and so read from
  variables that are gone, where the model goes on with any bytes.
\<close>

definition round_undefined ::
  "epoll_ctl \<Rightarrow> nat \<Rightarrow> service_objects \<Rightarrow> (u64 \<times> findings) list \<Rightarrow> server \<Rightarrow> bool" where
  "round_undefined epoll m objs ready s =
     (case service_process epoll m objs (Some ready) s of Inl _ \<Rightarrow> True
      | Inr (_, _, s') \<Rightarrow> length (send_log (srv_link s)) < length (send_log (srv_link s')))"


text \<open>C11: Once the server has started, \<open>main\<close> never exits with an error: it goes on until a signal is read
  and then takes its five handlers out of the event manager, which succeeds whatever happened before;
  the sockets of the device repository and the clients that are left stay registered.\<close>
theorem server_ends_in_order:
  assumes "documented epoll" and "distinct (given_descriptors ans)"
    and "server_start epoll m args ans nenv env = Inr (Inr (objs, hs, s0))"
    and "10 * length rounds + 11 < 2 ^ 64"
    and "server_main epoll m args ans nenv env rounds = Inr result"
  shows "\<exists>out s left. result = Inr (out, s, left) \<and> (interrupt_flag (srv_interrupt s) \<or> left = []) \<and>
    (\<forall>p. registered_with m (server_world s) p \<longleftrightarrow> p \<in> fst ` set (server_clients s) \<or>
       p \<in> {monitor_at objs, link_socket_at objs, addr_socket_at objs} - set hs \<or>
       p \<in> set hs \<and> \<not> interrupt_flag (srv_interrupt s))"
proof -
  note start = server_start_inv [OF assms(1-3)]
  obtain out t left where loop: "service_loop epoll m objs rounds s0 = Inr (out, t, left)"
    using assms(3,5) by (auto simp: server_main_def)
  have "8 + 10 * length rounds + 3 < 2 ^ 64" using assms(4) by simp
  from service_loop_inv [OF assms(1) start(1) this loop]
  have inv: "service_inv m objs (8 + 10 * length rounds) t" and left: "interrupt_flag (srv_interrupt t) \<or> left = []"
    by simp_all
  have objs: "objects_of objs = {monitor_at objs, link_socket_at objs, addr_socket_at objs} \<union> set hs"
    by (auto simp: objects_of_def start(2))
  show ?thesis
  proof (cases "interrupt_flag (srv_interrupt t)")
    case True
    have "\<forall>p \<in> set hs. registered_with m (server_world t) p" using inv objs by (simp add: service_inv_def)
    from remove_handlers_removes [OF assms(1) service_inv_coherent [OF inv] this start(3)] obtain w where
      w: "remove_handlers epoll m hs (server_world t) = Inr w"
        "\<forall>p. registered_with m w p \<longleftrightarrow> p \<notin> set hs \<and> registered_with m (server_world t) p" by blast
    have "result = Inr (out, with_world w t, left)"
      using assms(3,5) loop True w(1) by (simp add: server_main_def)
    moreover have "registered_with m w p \<longleftrightarrow> p \<in> fst ` set (server_clients t) \<or>
        p \<in> {monitor_at objs, link_socket_at objs, addr_socket_at objs} - set hs" for p
      using inv w(2) objs by (auto simp: service_inv_def)
    ultimately show ?thesis
      using True by (intro exI [of _ out] exI [of _ "with_world w t"] exI [of _ left]) (simp add: with_world_def)
  next
    case False
    then have "result = Inr (out, t, left)" using assms(3,5) loop by (simp add: server_main_def)
    then show ?thesis
      using False left inv by (auto simp: service_inv_def objs)
  qed
qed

subsection \<open>Examples\<close>

text \<open>A second passes.\<close>

theorem rounds_refine_event_manager_witness:
  "\<exists>objs hs s0 k called out s' es actions.
    server_start example_epoll 0 [] example_start example_nl_env example_link_env = Inr (Inr (objs, hs, s0)) \<and>
    service_process example_epoll 0 objs (Some [(k, nothing_found\<lparr>found_expirations := Some 1\<rparr>)]) s0
      = Inr (called, out, s') \<and> called = [clock_at objs] \<and>
    server_run example_epoll 0 es s0 = Inr (out, s') \<and>
    ProcessEvents example_epoll 0 (map_option (\<lambda>r. zip (map fst r) actions)
      (Some [(k, nothing_found\<lparr>found_expirations := Some 1\<rparr>)])) (server_world s0) = (called, server_world s')"
proof -
  let ?f = "nothing_found\<lparr>found_expirations := Some 1\<rparr>"
  obtain objs hs s0 where start: "server_start example_epoll 0 [] example_start example_nl_env example_link_env
      = Inr (Inr (objs, hs, s0))" by (rule example_started)
  note inv = server_start_inv [OF documented_example_epoll example_start_succeeds(1) start]
  have "registered_with 0 (server_world s0) (clock_at objs)" using inv(1) by (simp add: service_inv_def objects_of_def)
  from handler_is_called [OF inv(1) this] obtain k where
    k: "service_process example_epoll 0 objs (Some [(k, ?f)]) s0 =
      bind_cpp (object_called example_epoll 0 objs (clock_at objs) ?f s0) (\<lambda>(out, t). Inr ([clock_at objs], out, t))"
    by blast
  have "\<not> undefined_input ?f s0" by (simp add: undefined_input_def nothing_found_def)
  then obtain out s' where "object_called example_epoll 0 objs (clock_at objs) ?f s0 = Inr (out, s')"
    using object_called_Inl [of s0 example_epoll 0 objs "clock_at objs" ?f] inv(5)
    by (cases "object_called example_epoll 0 objs (clock_at objs) ?f s0") auto
  then have "service_process example_epoll 0 objs (Some [(k, ?f)]) s0 = Inr ([clock_at objs], out, s')"
    by (simp add: k)
  moreover from rounds_refine_event_manager [OF documented_example_epoll example_start_succeeds(1) start serving.started _ this]
  obtain es actions where "server_run example_epoll 0 es s0 = Inr (out, s')"
    "ProcessEvents example_epoll 0 (map_option (\<lambda>r. zip (map fst r) actions) (Some [(k, ?f)])) (server_world s0)
      = ([clock_at objs], server_world s')" by auto
  ultimately show ?thesis using start by blast
qed

text \<open>A frame comes in whose time to live has one byte.\<close>

definition short_frame :: findings where
  "short_frame = nothing_found\<lparr>found_peek := Some [2, 1, 7, 4, 1, 9, 6, 1, 0, 0, 0],
     found_frame := Some (\<lparr>sll_family = 17, sll_protocol = 0xCC88, sll_ifindex = 2, sll_hatype = 1, sll_halen = 6\<rparr>,
       [2, 1, 7, 4, 1, 9, 6, 1, 0, 0, 0])\<rparr>"


lemma example_signal:
  assumes start: "server_start example_epoll 0 [] example_start example_nl_env example_link_env = Inr (Inr (objs, hs, s0))"
  shows "\<exists>k i. interrupt_flag i \<and> (\<forall>rounds. service_loop example_epoll 0 objs
      (Some [(k, nothing_found\<lparr>found_signal := True\<rparr>)] # rounds) s0 = Inr ([], s0\<lparr>srv_interrupt := i\<rparr>, rounds))"
proof -
  let ?f = "nothing_found\<lparr>found_signal := True\<rparr>"
  note inv = server_start_inv [OF documented_example_epoll example_start_succeeds(1) start]
  have "registered_with 0 (server_world s0) (interrupt_at objs)" using inv(1) by (simp add: service_inv_def objects_of_def)
  from handler_is_called [OF inv(1) this] obtain k where
    k: "service_process example_epoll 0 objs (Some [(k, ?f)]) s0 =
      bind_cpp (object_called example_epoll 0 objs (interrupt_at objs) ?f s0) (\<lambda>(out, t). Inr ([interrupt_at objs], out, t))"
    by blast
  obtain i where i: "InterruptHandler_Call True True (srv_interrupt s0) = i" "interrupt_flag i"
    by (auto simp: InterruptHandler_Call_def Let_def)
  have "object_called example_epoll 0 objs (interrupt_at objs) ?f s0 = Inr ([], s0\<lparr>srv_interrupt := i\<rparr>)"
    using inv(7) i(1) by (simp add: object_called_def object_events_def nothing_found_def)
  moreover have "service_loop example_epoll 0 objs rounds (s0\<lparr>srv_interrupt := i\<rparr>) = Inr ([], s0\<lparr>srv_interrupt := i\<rparr>, rounds)" for rounds
    using i(2) by (cases rounds) simp_all
  ultimately show ?thesis using inv(4) i(2) by (intro exI [of _ k] exI [of _ i]) (simp add: k)
qed

subsection \<open>Nothing stays open\<close>

text \<open>A signal arrives in the first of two rounds.\<close>

theorem server_ends_in_order_witness:
  "\<exists>k out s left.
    server_main example_epoll 0 [] example_start example_nl_env example_link_env
      [Some [(k, nothing_found\<lparr>found_signal := True\<rparr>)], None] = Inr (Inr (out, s, left)) \<and>
    interrupt_flag (srv_interrupt s) \<and>
    (\<forall>p. registered_with 0 (server_world s) p \<longleftrightarrow> p \<in> fst ` set (server_clients s) \<or> p \<in> {0, 1, 2})"
proof -
  let ?f = "nothing_found\<lparr>found_signal := True\<rparr>"
  obtain objs hs s0 where start: "server_start example_epoll 0 [] example_start example_nl_env example_link_env
      = Inr (Inr (objs, hs, s0))" by (rule example_started)
  note inv = server_start_inv [OF documented_example_epoll example_start_succeeds(1) start]
  obtain k i where i: "interrupt_flag i" "\<And>rounds. service_loop example_epoll 0 objs (Some [(k, ?f)] # rounds) s0
      = Inr ([], s0\<lparr>srv_interrupt := i\<rparr>, rounds)"
    using example_signal [OF start] by blast
  let ?rounds = "[Some [(k, ?f)], None]"
  obtain result where main: "server_main example_epoll 0 [] example_start example_nl_env example_link_env ?rounds = Inr result"
    and left: "\<And>out s left. result = Inr (out, s, left) \<Longrightarrow> left = [None]"
    using start i by (cases "remove_handlers example_epoll 0 hs (server_world s0)") (auto simp: server_main_def simp del: service_loop.simps)
  have bound: "10 * length ?rounds + 11 < 2 ^ 64" by simp
  from server_ends_in_order [OF documented_example_epoll example_start_succeeds(1) start bound main]
  obtain out s left where r: "result = Inr (out, s, left)" "interrupt_flag (srv_interrupt s) \<or> left = []"
    "\<forall>p. registered_with 0 (server_world s) p \<longleftrightarrow> p \<in> fst ` set (server_clients s) \<or> p \<in> {0, 1, 2} - {6, 3, 4, 5, 7} \<or>
       p \<in> {6, 3, 4, 5, 7} \<and> \<not> interrupt_flag (srv_interrupt s)" by (auto simp: inv(2,7))
  then have "interrupt_flag (srv_interrupt s)" using left by blast
  then show ?thesis using main r by (intro exI [of _ k] exI [of _ out] exI [of _ s] exI [of _ left]) auto
qed

end
