(* ===== verification/Service_End.thy ===== *)
theory Service_End
  imports Service_Rounds
begin

section \<open>The end of the server\<close>

text \<open>
  What the destructors at the end of \<open>main\<close> do: the handlers in the vector go first, with the clients
  that the client repository owns, then the repository with its three sockets, then the event manager.
  The invariant needed is the converse of \<open>coherent\<close>: an open descriptor has a living owner.
\<close>

subsection \<open>The destructors\<close>

text \<open>The order in which the objects are destroyed.\<close>

definition destroyed_at_exit :: "service_objects \<Rightarrow> server \<Rightarrow> nat list" where
  "destroyed_at_exit objs s = [clock_at objs, frames_at objs] @ map fst (server_clients s) @
     [dtr_at objs, dtls_at objs, interrupt_at objs, addr_socket_at objs, link_socket_at objs, monitor_at objs]"

definition server_exit :: "epoll_ctl \<Rightarrow> nat \<Rightarrow> service_objects \<Rightarrow> server \<Rightarrow> world" where
  "server_exit epoll m objs s =
     EventManager_destroy epoll m (fold (EventHandler_destroy epoll) (destroyed_at_exit objs s) (server_world s))"

subsection \<open>Open descriptors have owners\<close>

definition handler_sockets :: "world \<Rightarrow> nat \<rightharpoonup> nat" where
  "handler_sockets w p = map_option handler_socket (handlers w p)"

definition owned :: "world \<Rightarrow> bool" where
  "owned w \<longleftrightarrow> (\<forall>p. next_address w \<le> p \<longrightarrow> handler_sockets w p = None) \<and> open_descriptors w \<subseteq> ran (handler_sockets w)"

text \<open>Operations that leave handlers, descriptors and addresses as they are, registration apart.\<close>

definition same_sockets :: "world \<Rightarrow> world \<Rightarrow> bool" where
  "same_sockets w v \<longleftrightarrow> handler_sockets v = handler_sockets w \<and> open_descriptors v = open_descriptors w \<and>
     next_address v = next_address w"

lemma same_sockets_refl [simp]: "same_sockets w w"
  by (simp add: same_sockets_def)

lemma same_sockets_trans: "same_sockets u v \<Longrightarrow> same_sockets v w \<Longrightarrow> same_sockets u w"
  by (simp add: same_sockets_def)

lemma owned_same: "same_sockets w v \<Longrightarrow> owned w \<Longrightarrow> owned v"
  by (simp add: same_sockets_def owned_def)

lemma same_sockets_Remove: "same_sockets w (snd (EventManager_Remove epoll m k w))"
  by (auto simp: same_sockets_def handler_sockets_def EventManager_Remove_def call_epoll_def erase_event_def
      set_manager_def set_handler_def fun_eq_iff Let_def split: option.split prod.split)

lemma same_sockets_Add: "same_sockets w (snd (EventManager_Add epoll m p w))"
proof (cases "handlers w p")
  case (Some h)
  let ?w = "detached epoll h w"
  have w: "same_sockets w ?w" by (simp add: detached_def same_sockets_Remove split: option.split)
  then have "map_option handler_socket (handlers ?w p) = Some (handler_socket h)"
    using Some by (simp add: same_sockets_def handler_sockets_def fun_eq_iff)
  then have "same_sockets ?w (snd (EventManager_Add epoll m p w))"
    using Some by (auto simp: EventManager_Add_def same_sockets_def handler_sockets_def call_epoll_def Let_def
        set_manager_def set_handler_def fun_eq_iff case_prod_beta)
  with w show ?thesis by (rule same_sockets_trans)
qed (simp add: EventManager_Add_def)

lemma owned_new: "owned w \<Longrightarrow> owned (snd (EventHandler_new fd ev w))"
  by (auto simp: owned_def EventHandler_new_def handler_sockets_def ran_def subset_iff) (metis less_irrefl not_le option.distinct(1) option.map_disc_iff)+

lemma owned_destroy:
  assumes c: "coherent w" and o: "owned w"
  shows "owned (EventHandler_destroy epoll p w)"
proof (cases "handlers w p")
  case (Some h)
  let ?w = "close_descriptor (handler_socket h) (w\<lparr>handlers := (handlers w)(p := None)\<rparr>)"
  have "owned ?w"
    unfolding owned_def
  proof (intro conjI subsetI allI impI)
    fix q assume "next_address ?w \<le> q"
    then show "handler_sockets ?w q = None" using o by (simp add: owned_def close_descriptor_def handler_sockets_def)
  next
    fix fd assume "fd \<in> open_descriptors ?w"
    then have fd: "fd \<in> open_descriptors w" "fd \<noteq> handler_socket h" by (simp_all add: close_descriptor_def)
    then obtain q g where "handlers w q = Some g" "handler_socket g = fd"
      using o by (auto simp: owned_def handler_sockets_def ran_def subset_iff)
    then show "fd \<in> ran (handler_sockets ?w)"
      using fd Some by (auto simp: ran_def handler_sockets_def close_descriptor_def intro!: exI [of _ q])
  qed
  then show ?thesis
    using Some owned_same [OF same_sockets_Remove] by (auto simp: EventHandler_destroy_def Let_def split: option.split)
qed (use o in \<open>simp add: EventHandler_destroy_def\<close>)

lemma owned_destroy_all:
  "documented epoll \<Longrightarrow> coherent w \<Longrightarrow> owned w \<Longrightarrow> owned (fold (EventHandler_destroy epoll) ps w)"
proof (induction ps arbitrary: w)
  case (Cons p ps)
  then show ?case using destroy_invariants [OF Cons.prems(1,2), of p] owned_destroy [OF Cons.prems(2,3)] by simp
qed simp

lemma owned_construct_all: "owned w \<Longrightarrow> owned (construct_all fs w)"
  by (induction fs w rule: construct_all.induct) (simp_all add: owned_new)

lemma same_sockets_add_handlers: "add_handlers epoll m hs w = Inr v \<Longrightarrow> same_sockets w v"
proof (induction hs arbitrary: w)
  case (Cons p hs)
  obtain r u where u: "EventManager_Add epoll m p w = (r, u)" by fastforce
  then have "add_handlers epoll m hs u = Inr v" using Cons.prems by (auto simp: unwrapOrLog_def split: sum.splits)
  then show ?case using Cons.IH same_sockets_Add [of w epoll m p] u same_sockets_trans by fastforce
qed simp

lemma same_sockets_remove_handlers: "remove_handlers epoll m hs w = Inr v \<Longrightarrow> same_sockets w v"
proof (induction hs arbitrary: w)
  case (Cons p hs)
  obtain r u where u: "EventManager_Remove_handler epoll m p w = (r, u)" by fastforce
  then have "remove_handlers epoll m hs u = Inr v" using Cons.prems by (auto simp: unwrapOrLog_def split: sum.splits)
  moreover have "same_sockets w u"
    using u same_sockets_Remove [of w epoll m] by (auto simp: EventManager_Remove_handler_def split: option.splits if_splits) (metis snd_conv)
  ultimately show ?case using Cons.IH same_sockets_trans by blast
qed simp

subsection \<open>Through the rounds\<close>

definition tight :: "nat \<Rightarrow> world \<Rightarrow> bool" where
  "tight m w \<longleftrightarrow> owned w \<and> (\<forall>p. handlers w p \<noteq> None \<longrightarrow> registered_with m w p)"

lemma tight_destroy_all:
  assumes "documented epoll" "coherent w" "counters_ok n w" "tight m w"
  shows "tight m (fold (EventHandler_destroy epoll) ps w)"
  using owned_destroy_all [OF assms(1,2)] destroy_all [OF assms(1-3), of ps] assms(4)
  by (auto simp: tight_def registered_with_def)

lemma tight_listener:
  assumes d: "documented epoll" and inv: "coherent w" "tight m w" and fd: "fd \<notin> open_descriptors w"
    and n: "counters_ok n w" "n + 3 < 2 ^ 64" and w: "event_world cs = w"
  shows "tight m (event_world (ClientListenSocket_Call epoll m (Some fd) cs))"
proof -
  let ?p = "next_address w" and ?h = "\<lparr>event_manager = None, handle = 0, handler_socket = fd, handler_events = EPOLLIN\<rparr>"
  obtain w1 where w1: "EventHandler_new fd EPOLLIN w = (?p, w1)" by (simp add: EventHandler_new_def)
  have h1: "handlers w1 = (handlers w)(?p \<mapsto> ?h)" using w1 by (auto simp: EventHandler_new_def)
  obtain r w2 where add: "EventManager_Add epoll m ?p w1 = (r, w2)" by fastforce
  have h2: "handlers w2 = (case r of Inl _ \<Rightarrow> handlers w1
      | Inr k \<Rightarrow> (handlers w1)(?p \<mapsto> ?h\<lparr>event_manager := Some m, handle := k\<rparr>))"
    using Add_new_handlers [of w1 ?p ?h epoll m] h1 add by simp
  have "owned w1" using owned_new [of w fd EPOLLIN] inv(2) w1 by (simp add: tight_def)
  then have o2: "owned w2" using owned_same [OF same_sockets_Add [of w1 epoll m ?p]] add by simp
  have c1: "coherent w1" using new_handler_coherent [OF inv(1) fd, of EPOLLIN] w1 by simp
  have "counters_ok n w1" using n(1) w1 by (auto simp: EventHandler_new_def counters_ok_def)
  then have c2: "coherent w2" using Add_invariants [OF d c1, of n m ?p] add n by simp
  have old: "handlers w p \<noteq> None \<longrightarrow> registered_with m w p" for p using inv(2) by (simp add: tight_def)
  show ?thesis
  proof (cases r)
    case (Inl err)
    have "event_world (ClientListenSocket_Call epoll m (Some fd) cs) = EventHandler_destroy epoll ?p w2"
      using w1 add Inl w by (simp add: ClientListenSocket_Call_def ClientRepository_Add_def)
    moreover have "handlers (EventHandler_destroy epoll ?p w2) = (handlers w)(?p := None)"
      using h1 h2 Inl by (simp add: destroy_handlers [OF c2])
    ultimately show ?thesis using owned_destroy [OF c2 o2] old by (auto simp: tight_def registered_with_def)
  next
    case (Inr k)
    then have "event_world (ClientListenSocket_Call epoll m (Some fd) cs) = w2"
      using w1 add w by (simp add: ClientListenSocket_Call_def ClientRepository_Add_def)
    then show ?thesis using o2 old h1 h2 Inr by (auto simp: tight_def registered_with_def)
  qed
qed

lemma tight_event:
  assumes d: "documented epoll" and inv: "service_inv m objs n s" "tight m (server_world s)" and n: "n + 3 < 2 ^ 64"
    and e: "event_proper m e s" "handler_called epoll m e s = Inr (out, s')"
  shows "tight m (server_world s')"
  using e(2)
proof (cases rule: handler_called_clients)
  case (client p received write_ok)
  then show ?thesis using e(2) inv(2) client_called_world by auto
next
  case (repository read_ok)
  have "coherent (server_world s)" "counters_ok n (server_world s)"
    using inv(1) by (simp_all add: service_inv_def clients_inv_def)
  from tight_destroy_all [OF d this inv(2)] show ?thesis
    using e(2) repository by (auto simp: ClientRepository_Call_filter)
next
  case (listener accepted)
  have "coherent (server_world s)" "counters_ok n (server_world s)"
    using inv(1) by (simp_all add: service_inv_def clients_inv_def)
  then show ?thesis
    using tight_listener [OF d _ inv(2) _ _ n refl] e listener inv(2)
    by (cases accepted) (auto simp: ClientListenSocket_Call_def [of _ _ None])
next
  case same
  then show ?thesis using inv(2) by simp
qed

lemma tight_run:
  assumes d: "documented epoll"
  shows "service_inv m objs n s \<Longrightarrow> tight m (server_world s) \<Longrightarrow> along_run (event_proper m) epoll m es s \<Longrightarrow>
    n + sum_list (map handlers_added es) + 3 < 2 ^ 64 \<Longrightarrow> server_run epoll m es s = Inr (out, s') \<Longrightarrow>
    tight m (server_world s')"
proof (induction es arbitrary: s n out)
  case (Cons e es)
  obtain out1 t out2 where t: "handler_called epoll m e s = Inr (out1, t)" "server_run epoll m es t = Inr (out2, s')"
    using Cons.prems(5) by auto
  have e: "event_proper m e s" "n + 3 < 2 ^ 64" "along_run (event_proper m) epoll m es t"
    using Cons.prems(3,4) t(1) by auto
  have inv: "service_inv m objs (n + handlers_added e) t"
    by (rule service_inv_event [OF d Cons.prems(1) e(2,1) t(1)])
  have "n + handlers_added e + sum_list (map handlers_added es) + 3 < 2 ^ 64" using Cons.prems(4) by simp
  from Cons.IH [OF inv tight_event [OF d Cons.prems(1,2) e(2,1) t(1)] e(3) this t(2)] show ?case .
qed simp

lemma service_loop_tight:
  assumes d: "documented epoll"
  shows "service_inv m objs n s \<Longrightarrow> tight m (server_world s) \<Longrightarrow> n + 10 * length rounds + 3 < 2 ^ 64 \<Longrightarrow>
    service_loop epoll m objs rounds s = Inr (out, s', left) \<Longrightarrow> tight m (server_world s')"
proof (induction rounds arbitrary: s n out)
  case (Cons ready rounds)
  show ?case
  proof (cases "interrupt_flag (srv_interrupt s)")
    case True
    then show ?thesis using Cons.prems(2,4) by simp
  next
    case False
    then obtain called out1 t outs where t: "service_process epoll m objs ready s = Inr (called, out1, t)"
      "service_loop epoll m objs rounds t = Inr (outs, s', left)"
      using Cons.prems(4) by auto
    have "n + 13 < 2 ^ 64" using Cons.prems(3) by simp
    from service_process_run [OF d Cons.prems(1) this t(1)] obtain es where
      es: "server_run epoll m es s = Inr (out1, t)" "along_run (event_proper m) epoll m es s"
        "service_inv m objs (n + 10) t" "sum_list (map handlers_added es) \<le> 10" by blast
    have "n + sum_list (map handlers_added es) + 3 < 2 ^ 64" using Cons.prems(3) es(4) by simp
    from tight_run [OF d Cons.prems(1,2) es(2) this es(1)] have "tight m (server_world t)" .
    moreover have "n + 10 + 10 * length rounds + 3 < 2 ^ 64" using Cons.prems(3) by simp
    ultimately show ?thesis using Cons.IH [OF es(3) _ _ t(2)] by blast
  qed
qed simp

lemma owned_register_netlink: "register_netlink epoll m a w = (b, v) \<Longrightarrow> owned w \<Longrightarrow> owned v"
  using owned_same [OF same_sockets_Add owned_new, of w epoll m]
  by (auto simp: register_netlink_def case_prod_beta split: if_splits)

lemma next_address_construct_all: "next_address (construct_all fs w) = next_address w + length fs"
  by (induction fs w rule: construct_all.induct) (simp_all add: EventHandler_new_def)

lemma server_start_tight:
  assumes d: "documented epoll" and fds: "distinct (given_descriptors ans)"
    and start: "server_start epoll m args ans nenv env = Inr (Inr (objs, hs, s))"
  shows "tight m (server_world s)"
proof -
  obtain a w1 b w2 c w3 v where a: "register_netlink epoll m (ans_monitor ans) world_new = (a, w1)"
    and b: "register_netlink epoll m (ans_link_socket ans) w1 = (b, w2)"
    and c: "register_netlink epoll m (ans_addr_socket ans) w2 = (c, w3)"
    and ok: "answers_ok a" "answers_ok b" "answers_ok c"
    and init: "initializeHandlers epoll m (made_handlers ans) w3 = Inr (hs, v)"
    and s: "srv_clients s = \<lparr>transport_sockets = [], event_counter = 0, event_world = v\<rparr>"
    by (rule server_start_parts [OF start])
  have "owned world_new" by (simp add: owned_def world_new_def handler_sockets_def)
  then have "owned w3" using owned_register_netlink a b c by metis
  moreover obtain fs where fs: "add_handlers epoll m hs (construct_all fs w3) = Inr v"
    "map fst fs = [nat (fst (ans_frames ans)), nat (fst (ans_dtr ans)), ans_listener ans,
        nat (fst (fst (ans_timer ans))), nat (fst (snd (ans_signal ans)))]"
    using initializeHandlers_all(2) [OF init] by (elim exE conjE)
  ultimately have v: "owned v" using owned_same [OF same_sockets_add_handlers owned_construct_all] by blast
  have "length fs = 5" using arg_cong [OF fs(2), of length] by simp
  then have "next_address v = 8"
    using same_sockets_add_handlers [OF fs(1)] netlink_sockets_registered(4) [OF d fds a ok(1) b ok(2) c ok(3)]
    by (simp add: same_sockets_def next_address_construct_all)
  then have "p < 8" if "handlers v p \<noteq> None" for p
    using v that by (auto simp: owned_def handler_sockets_def not_le [symmetric])
  moreover have "p < 8 \<Longrightarrow> p \<in> objects_of objs" for p
    using server_start_inv(7) [OF d fds start] by (simp add: objects_of_def) arith
  ultimately show ?thesis
    using v server_start_inv(1) [OF d fds start] by (auto simp: tight_def s service_inv_def)
qed

lemma none_expired_Remove:
  "(\<And>i. om_inv (registered_events (managers w i))) \<Longrightarrow> none_expired m w \<Longrightarrow>
   none_expired m (snd (EventManager_Remove epoll i k w))"
  by (auto simp: none_expired_def EventManager_Remove_def call_epoll_def erase_event_def reg_def
      set_manager_def set_handler_def Let_def om_find_erase split: option.splits prod.splits if_splits)

lemma none_expired_remove_handlers:
  "documented epoll \<Longrightarrow> coherent w \<Longrightarrow> none_expired m w \<Longrightarrow> remove_handlers epoll m hs w = Inr v \<Longrightarrow>
   none_expired m v"
proof (induction hs arbitrary: w)
  case (Cons p hs)
  obtain r u where u: "EventManager_Remove_handler epoll m p w = (r, u)" by fastforce
  then have rest: "remove_handlers epoll m hs u = Inr v" using Cons.prems by (auto simp: unwrapOrLog_def split: sum.splits)
  have "u = w \<or> (\<exists>k. u = snd (EventManager_Remove epoll m k w))"
    using u by (auto simp: EventManager_Remove_handler_def split: option.splits if_splits) (metis snd_conv)
  then have "coherent u" "none_expired m u"
    using Remove_invariants [OF Cons.prems(1,2)] none_expired_Remove [OF coherent_om_inv [OF Cons.prems(2)] Cons.prems(3)]
      Cons.prems(2,3) by auto
  then show ?case using Cons.IH [OF Cons.prems(1) _ _ rest] by blast
qed simp

lemma destroy_all_handlers:
  "documented epoll \<Longrightarrow> coherent w \<Longrightarrow>
   handlers (fold (EventHandler_destroy epoll) ps w) = (\<lambda>q. if q \<in> set ps then None else handlers w q)"
proof (induction ps arbitrary: w)
  case (Cons p ps)
  have "coherent (EventHandler_destroy epoll p w)" using destroy_invariants [OF Cons.prems] by blast
  then show ?case using Cons.IH [OF Cons.prems(1)] by (auto simp: destroy_handlers [OF Cons.prems(2)] fun_eq_iff)
qed simp

lemma all_destroyed:
  assumes d: "documented epoll" and w: "coherent w" "none_expired m w" "owned w"
    and all: "\<And>p. handlers w p \<noteq> None \<Longrightarrow> p \<in> set ps"
  shows "open_descriptors (fold (EventHandler_destroy epoll) ps w) = {}"
    "registered_events (managers (fold (EventHandler_destroy epoll) ps w) m) = []"
proof -
  let ?u = "fold (EventHandler_destroy epoll) ps w"
  have none: "handlers ?u q = None" for q
    using all [of q] by (cases "handlers w q") (simp_all add: destroy_all_handlers [OF d w(1)])
  have "owned ?u" by (rule owned_destroy_all [OF d w(1,3)])
  then show "open_descriptors ?u = {}" by (auto simp: owned_def handler_sockets_def none ran_def)
  have "none_expired m ?u" by (rule none_expired_destroy_all [OF d w(1,2)])
  then have "om_find (registered_events (managers ?u m)) k = None" for k
    by (cases "om_find (registered_events (managers ?u m)) k") (auto simp: none_expired_def none reg_def)
  then show "registered_events (managers ?u m) = []"
    by (cases "registered_events (managers ?u m)") (auto simp: om_find_Cons, metis option.distinct(1))
qed

text \<open>C12: When \<open>main\<close> is left, the destructors of its objects close every descriptor that an event handler
  owns, those of the netlink sockets and of every client accepted included, and leave nothing
  registered, whatever the clients and the kernel did before.\<close>
theorem server_leaves_nothing_open:
  assumes "documented epoll" and "distinct (given_descriptors ans)"
    and "server_start epoll m args ans nenv env = Inr (Inr (objs, hs, s0))"
    and "10 * length rounds + 11 < 2 ^ 64"
    and "server_main epoll m args ans nenv env rounds = Inr (Inr (out, s, left))"
  shows "open_descriptors (server_exit epoll m objs s) = {} \<and>
    registered_events (managers (server_exit epoll m objs s) m) = []"
proof -
  note start = server_start_inv [OF assms(1-3)]
  obtain out' t left' where loop: "service_loop epoll m objs rounds s0 = Inr (out', t, left')"
    using assms(3,5) by (auto simp: server_main_def)
  have bound: "8 + 10 * length rounds + 3 < 2 ^ 64" using assms(4) by simp
  have inv: "service_inv m objs (8 + 10 * length rounds) t"
    using service_loop_inv [OF assms(1) start(1) bound loop] by simp
  have tight: "tight m (server_world t)"
    by (rule service_loop_tight [OF assms(1) start(1) server_start_tight [OF assms(1-3)] bound loop])
  have t: "coherent (server_world t)" "none_expired m (server_world t)" "owned (server_world t)"
    using inv tight by (simp_all add: service_inv_def clients_inv_def tight_def)
  have hs: "\<forall>p \<in> set hs. registered_with m (server_world t) p"
    using inv start(2) by (simp add: service_inv_def objects_of_def)
  have "Inr (if \<not> interrupt_flag (srv_interrupt t) then Inr (out', t, left')
      else case remove_handlers epoll m hs (server_world t) of Inl e \<Rightarrow> Inl e
        | Inr w \<Rightarrow> Inr (out', with_world w t, left')) = (Inr (Inr (out, s, left)) :: _ cpp)"
    using assms(3,5) loop by (simp add: server_main_def split: if_splits)
  then consider "s = t" | w where "remove_handlers epoll m hs (server_world t) = Inr w" "s = with_world w t"
    by (cases "remove_handlers epoll m hs (server_world t)") (auto split: if_splits)
  then have s: "server_clients s = server_clients t \<and> coherent (server_world s) \<and> none_expired m (server_world s) \<and>
      same_sockets (server_world t) (server_world s)"
  proof cases
    case (2 w)
    have "coherent w" using remove_handlers_removes [OF assms(1) t(1) hs start(3)] 2(1) by auto
    moreover have "none_expired m w" by (rule none_expired_remove_handlers [OF assms(1) t(1,2) 2(1)])
    ultimately show ?thesis using same_sockets_remove_handlers [OF 2(1)] by (simp add: 2(2) with_world_def)
  qed (use t in simp)
  have all: "p \<in> set (destroyed_at_exit objs s)" if "handlers (server_world s) p \<noteq> None" for p
  proof -
    have "handler_sockets (server_world s) p \<noteq> None" using that by (simp add: handler_sockets_def)
    then have "handler_sockets (server_world t) p \<noteq> None" using s by (simp add: same_sockets_def)
    then have "registered_with m (server_world t) p" using tight by (simp add: tight_def handler_sockets_def)
    then have "p \<in> objects_of objs \<or> p \<in> fst ` set (server_clients t)" using inv by (simp add: service_inv_def)
    then show ?thesis using s by (auto simp: destroyed_at_exit_def objects_of_def)
  qed
  have "owned (server_world s)" using owned_same [OF _ t(3)] s by blast
  from all_destroyed [OF assms(1) _ _ this all, of m] s
  show ?thesis by (simp add: server_exit_def EventManager_destroy_def om_keys_def)
qed

text \<open>A signal arrives.\<close>

theorem server_leaves_nothing_open_witness:
  "\<exists>k objs hs s0 out s left.
    server_start example_epoll 0 [] example_start example_nl_env example_link_env = Inr (Inr (objs, hs, s0)) \<and>
    server_main example_epoll 0 [] example_start example_nl_env example_link_env
      [Some [(k, nothing_found\<lparr>found_signal := True\<rparr>)]] = Inr (Inr (out, s, left)) \<and>
    open_descriptors (server_exit example_epoll 0 objs s) = {}"
proof -
  obtain objs hs s0 where start: "server_start example_epoll 0 [] example_start example_nl_env example_link_env
      = Inr (Inr (objs, hs, s0))" by (rule example_started)
  obtain k i where loop: "interrupt_flag i" "\<And>rounds. service_loop example_epoll 0 objs
      (Some [(k, nothing_found\<lparr>found_signal := True\<rparr>)] # rounds) s0 = Inr ([], s0\<lparr>srv_interrupt := i\<rparr>, rounds)"
    using example_signal [OF start] by blast
  let ?rounds = "[Some [(k, nothing_found\<lparr>found_signal := True\<rparr>)]]"
  note inv = server_start_inv [OF documented_example_epoll example_start_succeeds(1) start]
  have "\<forall>p \<in> set hs. registered_with 0 (server_world s0) p"
    using inv(1,2) by (simp add: service_inv_def objects_of_def)
  from remove_handlers_removes [OF documented_example_epoll service_inv_coherent [OF inv(1)] this inv(3)] obtain w
    where "remove_handlers example_epoll 0 hs (server_world s0) = Inr w" by blast
  then obtain s where main: "server_main example_epoll 0 [] example_start example_nl_env example_link_env ?rounds = Inr (Inr ([], s, []))"
    using start loop by (simp add: server_main_def del: service_loop.simps)
  have "10 * length ?rounds + 11 < 2 ^ 64" by simp
  from server_leaves_nothing_open [OF documented_example_epoll example_start_succeeds(1) start this main]
  show ?thesis using start main by blast
qed

end
