(* ===== verification/Hearing.thy ===== *)
theory Hearing
  imports Announcement Service_End
begin

section \<open>What a running server has heard\<close>

text \<open>
  The neighbour list of a started server, with its receiver, its parser and its clock, against what
  the events say: which frames came in, and how many seconds were counted since.
\<close>

subsection \<open>The events\<close>

text \<open>The frame that the kernel shows to both calls of \<open>recvmsg\<close>.\<close>

abbreviation received_frame :: "sockaddr_ll \<Rightarrow> bytes \<Rightarrow> server_event" where
  "received_frame address payload \<equiv> Frame_ready (Some payload) (Some (address, payload))"

text \<open>Both calls see the same frame when both see one: the first only peeks.\<close>

fun peeked_first :: "server_event \<Rightarrow> bool" where
  "peeked_first (Frame_ready (Some peeked) (Some (address, payload))) \<longleftrightarrow> peeked = payload"
| "peeked_first _ \<longleftrightarrow> True"

fun counted_seconds :: "server_event \<Rightarrow> nat" where
  "counted_seconds (Timer_ready (Some t)) = unat t"
| "counted_seconds _ = 0"

text \<open>The entry that the frame of an event stands for, if it is one to be taken in.\<close>

fun heard_entry :: "server_event \<Rightarrow> NeighbourEntry option" where
  "heard_entry (Frame_ready (Some peeked) (Some (address, payload))) =
     (if lldp_address address \<and> length payload \<le> MAX_FRAME_BUFFER_SIZE
      then (case DataUnit_FromSpan payload of
              Inl _ \<Rightarrow> None
            | Inr du \<Rightarrow> (case lldpduToNeighbourEntry du (ucast (sll_ifindex address)) of Inl _ \<Rightarrow> None | Inr e \<Rightarrow> Some e))
      else None)"
| "heard_entry _ = None"

definition entry_name :: "NeighbourEntry \<Rightarrow> bytes \<times> bytes" where
  "entry_name e = (ne_chassis_id e, ne_port_id e)"

definition heard_as :: "bytes \<times> bytes \<Rightarrow> server_event \<Rightarrow> bool" where
  "heard_as cp ev \<longleftrightarrow> map_option entry_name (heard_entry ev) = Some cp"

text \<open>
  The entry for \<open>cp\<close> that a sequence of events leaves: that of the last frame in the name of \<open>cp\<close>,
  with the seconds counted since taken off, unless they have used up its time to live.
\<close>

definition left_after :: "nat \<Rightarrow> NeighbourEntry \<Rightarrow> NeighbourEntry option" where
  "left_after n e =
     (if n = 0 then Some e
      else if unat (ne_time_to_live e) \<le> n then None
      else Some (e\<lparr>ne_time_to_live := of_nat (unat (ne_time_to_live e) - n)\<rparr>))"

definition last_heard :: "bytes \<times> bytes \<Rightarrow> server_event list \<Rightarrow> NeighbourEntry option" where
  "last_heard cp es =
     (case dropWhile (\<lambda>ev. \<not> heard_as cp ev) (rev es) of
        [] \<Rightarrow> None
      | ev # _ \<Rightarrow>
          Option.bind (heard_entry ev)
            (left_after (sum_list (map counted_seconds (takeWhile (\<lambda>ev. \<not> heard_as cp ev) (rev es))))))"

subsection \<open>One event\<close>

lemma left_after_Tick:
  "Option.bind (left_after n e) (left_after d) = left_after (n + d) e"
proof -
  have "unat (ne_time_to_live e) < 65536" using unsigned_less [of "ne_time_to_live e", where 'a = nat] by simp
  then have "unat (of_nat (unat (ne_time_to_live e) - n) :: u16) = unat (ne_time_to_live e) - n"
    by (simp add: unat_of_nat)
  then show ?thesis by (auto simp: left_after_def diff_diff_left)
qed

lemma lookup_Tick_left:
  assumes "nl_inv nl"
  shows "nl_lookup (if t = 0 then nl else NeighbourList_Tick t nl) cp = Option.bind (nl_lookup nl cp) (left_after (unat t))"
proof -
  have step: "(if t = 0 then Some e else if expires t e then None else Some (e\<lparr>ne_time_to_live := ne_time_to_live e - ucast t\<rparr>))
      = left_after (unat t) e" for e
  proof (cases "expires t e")
    case False
    then have "unat (ne_time_to_live e - ucast t) = unat (ne_time_to_live e) - unat t"
      by (intro unat_ttl_minus) (simp add: expires_iff)
    then have "of_nat (unat (ne_time_to_live e - ucast t)) = (of_nat (unat (ne_time_to_live e) - unat t) :: u16)"
      by (simp only:)
    then have "ne_time_to_live e - ucast t = of_nat (unat (ne_time_to_live e) - unat t)" by simp
    then show ?thesis using False by (simp add: left_after_def expires_iff unat_eq_zero)
  qed (simp add: left_after_def expires_iff unat_eq_zero)
  show ?thesis
  proof (cases "nl_lookup nl cp")
    case (Some e)
    then show ?thesis by (simp add: nl_lookup_Tick [OF assms] flip: step)
  qed (simp add: nl_lookup_Tick [OF assms])
qed

lemma frame_called_heard:
  assumes "frame_called peek recv buf nl = Inr (buf', nl')" "peeked_first (Frame_ready peek recv)" "buf \<le> MAX_FRAME_BUFFER_SIZE"
  shows "nl' = (case heard_entry (Frame_ready peek recv) of None \<Rightarrow> nl | Some e \<Rightarrow> store_entry e nl)"
    "buf' \<le> MAX_FRAME_BUFFER_SIZE"
proof -
  consider "peek = None \<or> recv = None"
    | address payload where "peek = Some payload" "recv = Some (address, payload)"
    using assms(2) by (cases "Frame_ready peek recv" rule: peeked_first.cases) auto
  then have "nl' = (case heard_entry (Frame_ready peek recv) of None \<Rightarrow> nl | Some e \<Rightarrow> store_entry e nl) \<and>
    buf' \<le> MAX_FRAME_BUFFER_SIZE"
  proof cases
    case 1
    then have "heard_entry (Frame_ready peek recv) = None"
      by (cases "Frame_ready peek recv" rule: heard_entry.cases) auto
    then show ?thesis
      using 1 assms(1,3) by (auto simp: frame_called_def Monitor_Call_def Let_def split: option.splits)
  next
    case 2
    then show ?thesis
      using assms(1,3)
      by (auto simp: frame_called_def frames_delivered_whole_or_dropped [OF assms(3)] lldpFrameParser_def lldp_address_def
          split: if_splits sum.splits frame_rejected.splits)
  qed
  then show "nl' = (case heard_entry (Frame_ready peek recv) of None \<Rightarrow> nl | Some e \<Rightarrow> store_entry e nl)"
    "buf' \<le> MAX_FRAME_BUFFER_SIZE" by simp_all
qed

lemma announcement_heard:
  assumes "announcement_of cp ttl payload" "lldp_address address" "length payload \<le> MAX_FRAME_BUFFER_SIZE"
  obtains e where "heard_entry (received_frame address payload) = Some e" "entry_name e = cp" "ne_time_to_live e = ttl"
proof -
  obtain du where du: "DataUnit_FromSpan payload = Inr du" "frame_identity du = cp" "frame_ttl du = Some ttl"
    using assms(1) by (auto simp: announcement_of_def split: sum.splits)
  from du(3) obtain e where e: "lldpduToNeighbourEntry du (ucast (sll_ifindex address)) = Inr e"
    by (auto simp: lldpduToNeighbourEntry_cases frame_ttl_def split: list.splits)
  show thesis
    by (rule that [of e]) (use assms(2,3) du e entry_of_frame [OF e] in \<open>simp_all add: entry_name_def\<close>)
qed

lemma neighbour_event_buffer:
  "neighbour_event ev (buf, nl) = Inr (buf', nl') \<Longrightarrow> buf \<le> MAX_FRAME_BUFFER_SIZE \<Longrightarrow> buf' \<le> MAX_FRAME_BUFFER_SIZE"
proof (cases ev)
  case (Timer_ready r)
  then show "neighbour_event ev (buf, nl) = Inr (buf', nl') \<Longrightarrow> buf \<le> MAX_FRAME_BUFFER_SIZE \<Longrightarrow> buf' \<le> MAX_FRAME_BUFFER_SIZE"
    by (cases r) auto
qed (auto simp: frame_called_def Monitor_Call_def Let_def split: option.splits prod.splits if_splits sum.splits frame_rejected.splits)

lemma heard_step:
  assumes "neighbour_event ev (buf, nl) = Inr (buf', nl')" "nl_inv nl" "peeked_first ev" "buf \<le> MAX_FRAME_BUFFER_SIZE"
  shows "nl_lookup nl' cp =
      (if heard_as cp ev then heard_entry ev else Option.bind (nl_lookup nl cp) (left_after (counted_seconds ev)))"
    and "nl_inv nl'" "buf' \<le> MAX_FRAME_BUFFER_SIZE"
proof -
  have still: "Option.bind x (left_after 0) = x" for x by (cases x) (simp_all add: left_after_def)
  have "nl_lookup nl' cp = (if heard_as cp ev then heard_entry ev
      else Option.bind (nl_lookup nl cp) (left_after (counted_seconds ev))) \<and> nl_inv nl' \<and> buf' \<le> MAX_FRAME_BUFFER_SIZE"
  proof (cases ev)
    case (Timer_ready r)
    show ?thesis
    proof (cases r)
      case (Some t)
      then show ?thesis
        using assms Timer_ready lookup_Tick_left [OF assms(2), of t cp] by (auto simp: heard_as_def nl_inv_Tick)
    qed (use Timer_ready assms in \<open>auto simp: heard_as_def still\<close>)
  next
    case (Frame_ready peek recv)
    have call: "frame_called peek recv buf nl = Inr (buf', nl')" using assms(1) Frame_ready by simp
    note heard = frame_called_heard [OF call assms(3) [unfolded Frame_ready] assms(4)]
    show ?thesis
      using heard assms(2) unfolding Frame_ready
      by (auto simp: heard_as_def entry_name_def still nl_lookup_store split: option.splits)
  qed (use assms in \<open>auto simp: heard_as_def still\<close>)
  then show "nl_lookup nl' cp =
      (if heard_as cp ev then heard_entry ev else Option.bind (nl_lookup nl cp) (left_after (counted_seconds ev)))"
    "nl_inv nl'" "buf' \<le> MAX_FRAME_BUFFER_SIZE" by simp_all
qed

subsection \<open>A run\<close>

lemma last_heard_snoc:
  "last_heard cp (es @ [ev]) =
     (if heard_as cp ev then heard_entry ev else Option.bind (last_heard cp es) (left_after (counted_seconds ev)))"
proof (cases "heard_as cp ev")
  case True
  then show ?thesis by (cases "heard_entry ev") (simp_all add: last_heard_def left_after_def)
next
  case False
  have "Option.bind (Option.bind x (left_after n)) (left_after d) = Option.bind x (left_after (d + n))" for x n d
    by (cases x) (simp_all add: left_after_Tick add.commute)
  with False show ?thesis
    by (cases "dropWhile (\<lambda>ev. \<not> heard_as cp ev) (rev es)") (simp_all add: last_heard_def del: dropWhile_eq_Nil_conv)
qed

lemma neighbour_run_append:
  "neighbour_run (es @ fs) p = bind_cpp (neighbour_run es p) (neighbour_run fs)"
proof (induction es arbitrary: p)
  case (Cons e es)
  then show ?case by (cases "neighbour_event e p") simp_all
qed simp

lemma neighbour_run_buffer:
  "neighbour_run es p = Inr q \<Longrightarrow> fst p \<le> MAX_FRAME_BUFFER_SIZE \<Longrightarrow> fst q \<le> MAX_FRAME_BUFFER_SIZE"
proof (induction es arbitrary: p)
  case (Cons e es)
  then show ?case using neighbour_event_buffer by (cases p) fastforce
qed simp

lemma neighbour_run_heard:
  "neighbour_run es (buf, []) = Inr (buf', nl') \<Longrightarrow> list_all peeked_first es \<Longrightarrow> buf \<le> MAX_FRAME_BUFFER_SIZE \<Longrightarrow>
   nl_lookup nl' cp = last_heard cp es \<and> nl_inv nl' \<and> buf' \<le> MAX_FRAME_BUFFER_SIZE"
proof (induction es arbitrary: buf' nl' rule: rev_induct)
  case Nil
  then show ?case by (simp add: last_heard_def nl_lookup_def om_find_def)
next
  case (snoc ev es)
  from snoc.prems(1) obtain buf1 nl1 where es: "neighbour_run es (buf, []) = Inr (buf1, nl1)"
    and ev: "neighbour_event ev (buf1, nl1) = Inr (buf', nl')"
    by (auto simp: neighbour_run_append)
  have IH: "nl_lookup nl1 cp = last_heard cp es" "nl_inv nl1" "buf1 \<le> MAX_FRAME_BUFFER_SIZE"
    using snoc.IH [OF es] snoc.prems by simp_all
  have "peeked_first ev" using snoc.prems by simp
  from heard_step(1) [OF ev IH(2) this IH(3), of cp] heard_step(2,3) [OF ev IH(2) this IH(3)] show ?case by (simp add: last_heard_snoc IH(1))
qed

text \<open>Without a client's request only a frame can make a run undefined.\<close>

lemma run_without_clients:
  "neighbour_run es (neighbour_part s) = Inr p \<Longrightarrow> list_all (\<lambda>e. \<forall>q r w. e \<noteq> Client_data q r w) es \<Longrightarrow>
   \<exists>s'. server_run epoll m es s = Inr ([], s')"
proof (induction es arbitrary: s)
  case (Cons e es)
  from Cons.prems(1) obtain p1 where p1: "neighbour_event e (neighbour_part s) = Inr p1" "neighbour_run es p1 = Inr p" by auto
  have "\<exists>t. handler_called epoll m e s = Inr ([], t)"
    using p1(1) Cons.prems(2) by (cases e) (auto simp: neighbour_part_def case_prod_beta)
  then obtain t where t: "handler_called epoll m e s = Inr ([], t)" ..
  then have "neighbour_part t = p1" using handler_called_parts [OF t] p1(1) by simp
  then show ?case using Cons.IH [of t] p1(2) Cons.prems(2) t by fastforce
qed simp

subsection \<open>Properties\<close>

text \<open>C8: The neighbours a server knows are those it heard of: after any run of a started server, in which
  clients, netlink messages and signals may come in between, there is an entry for a pair of chassis
  and port exactly if an acceptable frame in that name came in and less than its time to live was
  counted since (or nothing at all was), and it is the entry of the last such frame, with the seconds
  counted since taken off.  Acceptable is a data unit of at most 1600 bytes from an Ethernet interface.
  The kernel is taken to show the same frame to both calls of \<open>recvmsg\<close>, of which the first only peeks.\<close>
theorem known_neighbours_were_heard:
  assumes "server_start epoll m args ans nenv env = Inr (Inr (objs, hs, s0))"
    and "server_run epoll m es s0 = Inr (out, s)" and "list_all peeked_first es"
  shows "nl_lookup (neighbour_list (srv_clock s)) cp = last_heard cp es"
proof -
  have "srv_buffer s0 = 2" "neighbour_list (srv_clock s0) = []" by (rule server_start_parts [OF assms(1)], simp)+
  then have "neighbour_run es (2, []) = Inr (srv_buffer s, neighbour_list (srv_clock s))"
    using server_run_parts [OF assms(2)] by (simp add: neighbour_part_def)
  from neighbour_run_heard [OF this assms(3)] show ?thesis by (simp add: MAX_FRAME_BUFFER_SIZE_def)
qed

text \<open>Two frames in one name, seconds between them and after, and a client and a signal.\<close>

definition example_heard :: "server_event list" where
  "example_heard = [received_frame example_address [2, 1, 7, 4, 1, 9, 6, 2, 0, 30, 0, 0], Timer_ready (Some 29),
     received_frame example_address [2, 1, 7, 4, 1, 9, 6, 2, 0, 20, 0, 0], Timer_ready (Some 4), Signal_ready True True,
     received_frame example_address [2, 1, 7, 4, 1, 8, 6, 2, 0, 3, 0, 0], Timer_ready (Some 5)]"

theorem known_neighbours_were_heard_witness:
  "\<exists>objs hs s0 s e. server_start example_epoll 0 [] example_start example_nl_env example_link_env = Inr (Inr (objs, hs, s0)) \<and>
    server_run example_epoll 0 example_heard s0 = Inr ([], s) \<and>
    nl_lookup (neighbour_list (srv_clock s)) ([7], [9]) = Some e \<and> ne_time_to_live e = 11 \<and>
    nl_lookup (neighbour_list (srv_clock s)) ([7], [8]) = None"
proof -
  obtain objs hs s0 where start: "server_start example_epoll 0 [] example_start example_nl_env example_link_env
      = Inr (Inr (objs, hs, s0))" by (rule example_started)
  have s0: "srv_buffer s0 = 2" "neighbour_list (srv_clock s0) = []" by (rule server_start_parts [OF start], simp)+
  have "\<exists>p. neighbour_run example_heard (2, []) = Inr p"
    by (rule exI [of _ "projr (neighbour_run example_heard (2, []))"]) code_simp
  then obtain s where s: "server_run example_epoll 0 example_heard s0 = Inr ([], s)"
    using run_without_clients [of example_heard s0 _ example_epoll 0] by (auto simp: neighbour_part_def s0 example_heard_def)
  have "list_all peeked_first example_heard" by (simp add: example_heard_def)
  note known = known_neighbours_were_heard [OF start s this]
  have "last_heard ([7], [9]) example_heard = Some e" "ne_time_to_live e = 11" if "e = the (last_heard ([7], [9]) example_heard)" for e
    unfolding that by code_simp+
  moreover have "last_heard ([7], [8]) example_heard = None" by code_simp
  ultimately show ?thesis using start s known by metis
qed

end
