(* ===== verification/Announcing.thy ===== *)
theory Announcing
  imports Lldp_Repository
begin

section \<open>Devices keep being announced\<close>

text \<open>
  The sender of an operational device in the running repository, where other senders transmit over
  the same socket and dumps update it in between: it transmits at least every six seconds.  The
  argument is a measure, the number of one-second ticks after which the sender has transmitted at
  the latest; updates do not raise it.
\<close>

subsection \<open>One sender\<close>

definition due :: "LldpSender \<Rightarrow> nat" where
  "due s = (if trigger_ready s then 1 else max 1 (unat (transmit_timer s)))"

lemma due_bounds: "0 < due s" "sender_inv s \<Longrightarrow> due s \<le> 6"
  by (auto simp: due_def sender_inv_def word_le_nat_alt max_def)

text \<open>Between two environments a frame for the interface \<open>i\<close> was handed to the socket.\<close>

definition sent_on :: "u32 \<Rightarrow> link_env \<Rightarrow> link_env \<Rightarrow> bool" where
  "sent_on i env env' \<longleftrightarrow> (\<exists>ts. send_log env' = send_log env @ ts \<and> i \<in> tx_ifindex ` set ts)"

text \<open>
  What decides which frames a sender sends beside the changing data of its device: the MAC address
  and index of the device, and the outside world with the machine identifier.
\<close>

type_synonym sender_signature = "bytes option \<times> u32 \<times> outside"

definition signature :: "LldpSender \<Rightarrow> link_env \<Rightarrow> sender_signature" where
  "signature s env = (mac_address (device_data s), if_index (device_data s), world env)"

lemma signature_frame:
  assumes "identity s' = identity s" "world env' = world env"
  shows "signature s' env' = signature s env"
  by (simp only: signature_def identity_parts(1,2) [OF assms(1)] assms(2))

lemma signature_env: "only_announces env env' \<Longrightarrow> signature s env' = signature s env"
  by (simp add: signature_def only_announces_def)

text \<open>The transmissions that announce a device with this signature.\<close>

definition announcement_with :: "sender_signature \<Rightarrow> transmission \<Rightarrow> bool" where
  "announcement_with = (\<lambda>(mac, i, w) t. \<exists>dev. device_wf dev \<and> mac_address dev = mac \<and> if_index dev = i \<and>
     constructed TARGET_TTL w dev t)"

definition sent_for :: "sender_signature \<Rightarrow> link_env \<Rightarrow> link_env \<Rightarrow> bool" where
  "sent_for sig env env' \<longleftrightarrow> (\<exists>ts. send_log env' = send_log env @ ts \<and> (\<exists>t \<in> set ts. announcement_with sig t))"

lemma sent_for_on: "sent_for (mac, i, w) env env' \<Longrightarrow> sent_on i env env'"
  by (auto simp: sent_for_def sent_on_def announcement_with_def constructed_def image_iff) metis

lemma sent_for_trans:
  "only_announces a b \<Longrightarrow> sent_for sig b c \<Longrightarrow> sent_for sig a c"
  "sent_for sig a b \<Longrightarrow> only_announces b c \<Longrightarrow> sent_for sig a c"
  by (auto simp: sent_for_def only_announces_def)

text \<open>What a sender does to its environment and itself, \<open>n\<close> seconds passing.\<close>

definition progress :: "nat \<Rightarrow> LldpSender \<Rightarrow> link_env \<Rightarrow> LldpSender \<times> link_env \<Rightarrow> bool" where
  "progress n s env = (\<lambda>(s', env'). sent_for (signature s env) env env' \<or> due s' + n \<le> due s)"

lemma TryTransmit_sent_for:
  assumes "trigger_ready s" "0 < transmit_credits s" "sendable s" "device_wf (device_data s)"
  shows "sent_for (signature s env) env (snd (TryTransmit s env))"
proof -
  let ?s = "s\<lparr>trigger_ready := False, transmit_credits := transmit_credits s - 1\<rparr>"
  let ?t = "\<lambda>f. \<lparr>tx_ifindex = if_index (device_data s), tx_bytes = Inr (encode_frame f)\<rparr>"
  have s: "sendable ?s" "device_wf (device_data ?s)" using assms by (simp_all add: sendable_def)
  from SendLldp_transmits [OF s, of TARGET_TTL env] obtain f env' where
    f: "constructFrame TARGET_TTL (device_data s) env = (Some f, env')"
    and log: "send_log (snd (SendLldp TARGET_TTL ?s env)) = send_log env @ [?t f]" by auto
  have "announcement_with (signature s env) (?t f)"
    using f assms(4) by (auto simp: announcement_with_def signature_def constructed_def)
  moreover have "TryTransmit s env = SendLldp TARGET_TTL ?s env"
    using assms(1-3) by (auto simp: TryTransmit_def sendable_def)
  ultimately show ?thesis unfolding sent_for_def using log by simp
qed

lemma TriggerTransmission_sent_for:
  assumes "0 < transmit_credits s" "sendable s" "device_wf (device_data s)"
  shows "sent_for (signature s env) env (snd (TriggerTransmission s env))"
proof -
  let ?s = "s\<lparr>transmit_timer := if 0 < fast_forward_counter s then MESSAGE_FAST_INTERVAL else MESSAGE_TRANSMIT_INTERVAL,
    trigger_ready := True\<rparr>"
  have "sent_for (signature ?s env) env (snd (TryTransmit ?s env))"
    by (rule TryTransmit_sent_for) (use assms in \<open>simp_all add: sendable_def\<close>)
  then show ?thesis by (simp add: TriggerTransmission_def signature_def)
qed

lemma TimerExpired_sent_for:
  assumes "0 < transmit_credits s" "sendable s" "device_wf (device_data s)"
  shows "sent_for (signature s env) env (snd (TimerExpired s env))"
proof -
  let ?s = "if 0 < fast_forward_counter s then s\<lparr>fast_forward_counter := fast_forward_counter s - 1\<rparr> else s"
  have "sent_for (signature ?s env) env (snd (TriggerTransmission ?s env))"
    by (rule TriggerTransmission_sent_for) (use assms in \<open>simp_all add: sendable_def\<close>)
  then show ?thesis unfolding TimerExpired_def by (simp add: signature_def split: if_splits)
qed

lemma TriggerTransmission_progress:
  assumes "sendable s" "device_wf (device_data s)" "due t = due s" "signature t env = signature s env"
  shows "progress 0 t env (TriggerTransmission s env)"
proof -
  show ?thesis
  proof (cases "0 < transmit_credits s")
    case True
    then show ?thesis
      using TriggerTransmission_sent_for [OF True assms(1,2), of env] assms(4)
      by (simp add: progress_def case_prod_beta)
  next
    case False
    then have "due (fst (TriggerTransmission s env)) = 1"
      by (simp add: TriggerTransmission_def TryTransmit_def due_def)
    then show ?thesis using due_bounds(1) [of t] by (simp add: progress_def case_prod_beta)
  qed
qed

lemma Update_progress:
  assumes "live (s, env)" "device_wf (device_data s)" "device_wf dev" "device_operational dev"
  shows "progress 0 s env (Update dev s env)" "live (Update dev s env)"
    "signature (fst (Update dev s env)) (snd (Update dev s env)) = signature s env"
proof -
  let ?s = "copy_changed dev s"
  have s: "sendable ?s" "device_wf (device_data ?s)" "due ?s = due s" "signature ?s env = signature s env"
    "device_operational (device_data ?s)" "sender_inv ?s"
    using assms by (simp_all add: copy_changed_wf live_def) (simp_all add: copy_changed_def sendable_def due_def sender_inv_def signature_def)
  have up: "device_operational (device_data s)" using assms(1) by (simp add: live_def)
  have U: "Update dev s env = (if ?s \<noteq> s then TriggerTransmission ?s env else (s, env))"
    using up assms(4) by (simp add: Update_stages)
  show "progress 0 s env (Update dev s env)"
    using TriggerTransmission_progress [OF s(1,2) s(3,4) [symmetric]] unfolding U by (simp add: progress_def)
  let ?p = "TriggerTransmission ?s env"
  have "identity (fst ?p) = identity ?s" "world (snd ?p) = world env" by simp_all
  moreover have "device_operational (device_data (fst ?p))"
    using assms(1) s(5) by (simp add: TriggerTransmission_def Let_def TryTransmit_up live_def)
  moreover have "sendable (fst ?p)" "never_down (snd ?p)"
    using identity_sendable [of "fst ?p" ?s] world_never_down [of "snd ?p" env] calculation s(1) assms(1)
    by (simp_all add: live_def)
  ultimately have "live ?p"
    using s(6) by (simp add: live_def TriggerTransmission_inv)
  then show "live (Update dev s env)" using assms(1) by (simp add: U)
  show "signature (fst (Update dev s env)) (snd (Update dev s env)) = signature s env"
    using signature_frame [of "fst ?p" ?s "snd ?p" env] s(4) by (simp add: U)
qed

lemma Sender_Tick_progress:
  assumes "live (s, env)" "device_wf (device_data s)"
  shows "progress 1 s env (Sender_Tick 1 s env)"
proof -
  let ?r = "\<lambda>t. (refill 1 s)\<lparr>transmit_timer := t\<rparr>"
  have s: "device_operational (device_data s)" "sendable s" "sender_inv s" using assms(1) by (simp_all add: live_def)
  have r: "sendable (?r t)" "device_wf (device_data (?r t))" "0 < transmit_credits (?r t)"
    "signature (?r t) env = signature s env" "trigger_ready (?r t) = trigger_ready s" for t
    using s assms(2) refill_one_positive [OF s(3)] by (simp_all add: sendable_def signature_def)
  show ?thesis
  proof (cases "(1 :: u64) < ucast (transmit_timer s)")
    case True
    then have timer: "1 < unat (transmit_timer s)"
      by (simp add: word_less_nat_alt unsigned_ucast_eq take_bit_nat_eq_self less_u16_bound)
    have tick: "Sender_Tick 1 s env = TryTransmit (?r (transmit_timer s - 1)) env"
      using True s(1) by (simp add: Sender_Tick_stages)
    show ?thesis
    proof (cases "trigger_ready s")
      case True
      then show ?thesis
        using TryTransmit_sent_for [OF _ r(3,1,2), of "transmit_timer s - 1" env] r(4,5)
        by (simp add: tick progress_def case_prod_beta)
    next
      case False
      then have "TryTransmit (?r (transmit_timer s - 1)) env = (?r (transmit_timer s - 1), env)"
        using r(5) by (simp add: TryTransmit_def)
      then show ?thesis
        using timer False r(5) by (simp add: tick progress_def due_def unat_dec word_less_nat_alt max_def)
    qed
  next
    case False
    let ?x = "TimerExpired (?r 0) env"
    have wf: "device_wf (device_data (fst ?x))" using r(2) [of 0] by simp
    have "sent_for (signature s env) env (snd ?x)"
      using TimerExpired_sent_for [OF r(3,1,2), of 0 env] r(4) by simp
    from sent_for_trans(2) [OF this TryTransmit_announces [OF wf, of "snd ?x"]]
    show ?thesis using False s(1) by (simp add: Sender_Tick_stages progress_def case_prod_beta)
  qed
qed

subsection \<open>The sender of a device among the others\<close>

definition announcing :: "u32 \<Rightarrow> sender_signature \<Rightarrow> senders \<times> link_env \<Rightarrow> bool" where
  "announcing k sig = (\<lambda>(cs, env). senders_inv cs \<and>
     (\<exists>s. om_find cs k = Some s \<and> live (s, env) \<and> signature s env = sig))"

definition due_at :: "u32 \<Rightarrow> senders \<Rightarrow> nat" where
  "due_at k cs = (case om_find cs k of None \<Rightarrow> 0 | Some s \<Rightarrow> due s)"

text \<open>What \<open>n\<close> seconds do to the sender of \<open>k\<close>: it stays, and it transmits or is \<open>n\<close> seconds closer to it.\<close>

definition advances ::
  "u32 \<Rightarrow> sender_signature \<Rightarrow> nat \<Rightarrow> senders \<times> link_env \<Rightarrow> senders \<times> link_env \<Rightarrow> bool" where
  "advances k sig n p q \<longleftrightarrow> announcing k sig q \<and> only_announces (snd p) (snd q) \<and>
     (sent_for sig (snd p) (snd q) \<or> due_at k (fst q) + n \<le> due_at k (fst p))"

lemma advances_refl: "announcing k sig p \<Longrightarrow> advances k sig 0 p p"
  by (simp add: advances_def)

lemma advances_trans:
  assumes "advances k sig n p q" "advances k sig n' q r"
  shows "advances k sig (n + n') p r"
proof -
  have pq: "only_announces (snd p) (snd q)" and qr: "only_announces (snd q) (snd r)" "announcing k sig r"
    using assms by (simp_all add: advances_def)
  have "sent_for sig (snd p) (snd q) \<or> sent_for sig (snd q) (snd r) \<or> due_at k (fst r) + (n + n') \<le> due_at k (fst p)"
    using assms by (auto simp: advances_def)
  then have "sent_for sig (snd p) (snd r) \<or> due_at k (fst r) + (n + n') \<le> due_at k (fst p)"
    using sent_for_trans(2) [OF _ qr(1)] sent_for_trans(1) [OF pq] by blast
  then show ?thesis using qr(2) only_announces_trans [OF pq qr(1)] by (simp add: advances_def)
qed

lemma live_env: "only_announces env env' \<Longrightarrow> live (s, env') = live (s, env)"
  using world_never_down [of env' env] by (simp add: live_def only_announces_def)

lemma update_device_advances:
  assumes "announcing k sig p" "device_wf dev" "j = k \<longrightarrow> device_operational dev"
  shows "advances k sig 0 p (update_device (j, dev) p)"
proof -
  obtain cs env where p: "p = (cs, env)" by (cases p)
  obtain s where s: "senders_inv cs" "om_find cs k = Some s" "live (s, env)" "signature s env = sig"
    using assms(1) by (auto simp: announcing_def p)
  have inv: "om_inv cs" "device_wf (device_data s)" using s by (auto simp: senders_inv_def)
  note keeps = update_device_keeps [of p dev j, unfolded p fst_conv snd_conv, OF s(1) assms(2)]
  note eq = update_device_eq [OF inv(1), of j dev env]
  let ?q = "update_device (j, dev) (cs, env)"
  have ann: "only_announces env (snd ?q)" "senders_inv (fst ?q)" using keeps by simp_all
  show ?thesis
  proof (cases "j = k")
    case True
    have "device_operational dev" using assms(3) True by simp
    note U = Update_progress [OF s(3) inv(2) assms(2) this]
    have q: "?q = (om_put k (fst (Update dev s env)) cs, snd (Update dev s env))"
      using eq s(2) by (simp add: True updated_sender_def)
    have find: "om_find (fst ?q) k = Some (fst (Update dev s env))" "snd ?q = snd (Update dev s env)"
      unfolding q using inv(1) by simp_all
    have "sent_for sig env (snd ?q) \<or> due (fst (Update dev s env)) \<le> due s"
      using U(1) s(4) unfolding find(2) progress_def case_prod_beta by simp
    moreover have "live (fst (Update dev s env), snd ?q)" using U(2) unfolding find(2) by simp
    moreover have "signature (fst (Update dev s env)) (snd ?q) = sig" using U(3) s(4) unfolding find(2) by simp
    ultimately show ?thesis
      using ann s(2,4) find(1) by (simp add: p advances_def announcing_def due_at_def case_prod_beta del: update_device.simps)
  next
    case False
    have "om_find (fst ?q) k = Some s" unfolding eq fst_conv using s(2) inv(1) False by simp
    then show ?thesis
      using ann s live_env [OF ann(1)] signature_env [OF ann(1)]
      by (simp add: p advances_def announcing_def due_at_def case_prod_beta del: update_device.simps)
  qed
qed

lemma fold_update_advances:
  assumes "announcing k sig p" "\<forall>(j, dev) \<in> set news. device_wf dev \<and> (j = k \<longrightarrow> device_operational dev)"
  shows "advances k sig 0 p (fold update_device news p)"
  using assms
proof (induction news arbitrary: p)
  case (Cons new news)
  obtain j dev where new: "new = (j, dev)" by (cases new)
  have "advances k sig 0 p (update_device (j, dev) p)"
    using Cons.prems by (intro update_device_advances) (simp_all add: new)
  moreover from this have "announcing k sig (update_device (j, dev) p)" by (simp add: advances_def)
  from Cons.IH [OF this] Cons.prems(2)
  have "advances k sig 0 (update_device (j, dev) p) (fold update_device news (update_device (j, dev) p))"
    by (simp add: new)
  ultimately show ?case using advances_trans [of k sig 0 p _ 0] by (simp add: new)
qed (simp add: advances_refl)

lemma tick_senders_advances:
  assumes "announcing k sig (cs, env)"
  shows "advances k sig 1 (cs, env) (tick_senders 1 cs env)"
  using assms
proof (induction cs arbitrary: env)
  case (Cons c cs)
  obtain j t where c: "c = (j, t)" by (cases c)
  obtain u env1 where x: "Sender_Tick 1 t env = (u, env1)" by fastforce
  obtain cs' env2 where y: "tick_senders 1 cs env1 = (cs', env2)" by fastforce
  have inv: "senders_inv ((j, t) # cs)" using Cons.prems by (simp add: announcing_def c)
  note D = senders_inv_ConsD [OF inv]
  have tick: "tick_senders 1 (c # cs) env = ((j, u) # cs', env2)" by (simp add: c x y)
  have keeps: "senders_inv ((j, u) # cs')" "only_announces env env2"
    using tick_senders_keeps [OF inv, of 1 env] by (simp_all add: x y)
  have ann: "only_announces env env1" "only_announces env1 env2"
    using Sender_Tick_announces [OF D(1), of env 1] tick_senders_keeps [OF D(3), of 1 env1] by (simp_all add: x y)
  obtain s where s: "om_find ((j, t) # cs) k = Some s" "live (s, env)" "signature s env = sig"
    using Cons.prems by (auto simp: announcing_def c)
  show ?case
  proof (cases "j = k")
    case True
    then have t: "t = s" using s(1) by (simp add: om_find_Cons)
    have "live (u, env1)" using live_Tick [OF s(2), of 1] x by (simp add: t)
    then have live: "live (u, env2)" using live_env [OF ann(2)] by simp
    have "identity u = identity t" using Sender_Tick_frame(1) [of 1 t env] unfolding x by simp
    then have idx: "signature u env2 = sig"
      using signature_frame [of u t env2 env] only_announces_trans [OF ann] s(3) t by (simp add: only_announces_def)
    have "sent_for sig env env1 \<or> due u + 1 \<le> due t"
      using Sender_Tick_progress [OF s(2)] D(1) s(3) x by (simp add: t progress_def)
    then have "sent_for sig env env2 \<or> due u + 1 \<le> due t" using sent_for_trans(2) [OF _ ann(2)] by blast
    then show ?thesis
      unfolding tick using keeps idx True live by (simp add: advances_def announcing_def due_at_def om_find_Cons c)
  next
    case False
    then have "om_find cs k = Some s" using s(1) by (simp add: om_find_Cons)
    then have "announcing k sig (cs, env1)" using D(3) s(2,3) live_env [OF ann(1)] signature_env [OF ann(1)]
      by (simp add: announcing_def)
    from Cons.IH [OF this] have "advances k sig 1 (cs, env1) (cs', env2)" by (simp add: y)
    then show ?thesis
      unfolding tick using keeps False sent_for_trans(1) [OF ann(1), of sig env2]
      by (auto simp: advances_def announcing_def due_at_def om_find_Cons c)
  qed
qed (simp add: announcing_def om_find_def)

subsection \<open>The repository\<close>

fun one_second_tick :: "repository_event \<Rightarrow> bool" where
  "one_second_tick (Clock_tick d) \<longleftrightarrow> d = 1"
| "one_second_tick _ \<longleftrightarrow> True"

definition ticks :: "repository_event list \<Rightarrow> nat" where
  "ticks es = length (filter (\<lambda>e. \<exists>d. e = Clock_tick d) es)"

text \<open>Every map that the callback is called with has the device \<open>k\<close>, operational.\<close>

definition stays_operational :: "u32 \<Rightarrow> repository_event list \<Rightarrow> LldpRepository \<times> nl_env \<times> link_env \<Rightarrow> bool" where
  "stays_operational k es = (\<lambda>(repo, nenv, env). \<forall>dr. device_repository repo = Some dr \<longrightarrow>
     (\<forall>ds \<in> set (fst (repository_run es (dr, nenv))). \<exists>dev. om_find ds k = Some dev \<and> device_operational dev))"

definition senders_of :: "LldpRepository \<times> nl_env \<times> link_env \<Rightarrow> senders \<times> link_env" where
  "senders_of = (\<lambda>(repo, nenv, env). (current_state repo, env))"

lemma synchronised_advances:
  assumes "announcing k sig p" "devices_inv ds" "set (om_keys (fst p)) \<subseteq> set (om_keys ds)"
    and "sync = None \<or> sync = Some ds \<and> (\<exists>dev. om_find ds k = Some dev \<and> device_operational dev)"
  shows "advances k sig 0 p (synchronised sync p)"
proof (cases sync)
  case (Some x)
  then have sync: "sync = Some ds" and dev: "\<exists>dev. om_find ds k = Some dev \<and> device_operational dev"
    using assms(4) by auto
  have "senders_inv (fst p)" using assms(1) by (auto simp: announcing_def)
  then have update: "UpdateState ds p = fold update_device ds p" using assms(2,3) by (rule UpdateState_superset)
  have "device_operational d" if "(k, d) \<in> set ds" for d
  proof -
    have "om_find ds k = Some d" using om_find_in_set [of ds k d] assms(2) that by (simp add: devices_inv_def)
    then show ?thesis using dev by simp
  qed
  then have "\<forall>(j, dev) \<in> set ds. device_wf dev \<and> (j = k \<longrightarrow> device_operational dev)"
    using devices_inv_set [OF assms(2)] by blast
  from fold_update_advances [OF assms(1) this] show ?thesis by (simp add: sync synchronised_def update)
qed (use assms(1) in \<open>simp add: synchronised_def advances_refl\<close>)

lemma repository_step_advances:
  assumes inv: "repository_inv (fst p)" and ann: "announcing k sig (senders_of p)"
    and e: "one_second_tick e" and up: "stays_operational k (e # es) p"
  shows "advances k sig (ticks [e]) (senders_of p) (senders_of (lldp_repository_step e p))"
    "stays_operational k es (lldp_repository_step e p)"
proof -
  obtain repo nenv env where p: "p = (repo, nenv, env)" by (cases p)
  from inv obtain dr where dr: "device_repository repo = Some dr" "devices_inv (devices dr)"
    "set (om_keys (current_state repo)) \<subseteq> set (om_keys (devices dr))"
    by (auto simp: p repository_inv_def split: option.splits)
  obtain sync dr' nenv' where step: "repository_step e (dr, nenv) = (sync, dr', nenv')"
    by (cases "repository_step e (dr, nenv)")
  obtain cs env' where cs: "synchronised sync (current_state repo, env) = (cs, env')"
    by (cases "synchronised sync (current_state repo, env)")
  note eq = lldp_repository_step_eq [OF dr(1) step cs]
  have "sync = None \<or> sync = Some (devices dr)"
    using repository_step_sync [of e "(dr, nenv)"] step by (cases sync) auto
  moreover have "sync = Some ds \<Longrightarrow> \<exists>dev. om_find ds k = Some dev \<and> device_operational dev" for ds
    using up dr(1) step by (auto simp: stays_operational_def p case_prod_beta)
  ultimately have "advances k sig 0 (current_state repo, env) (synchronised sync (current_state repo, env))"
    using ann dr(2,3) by (intro synchronised_advances) (auto simp: senders_of_def p)
  then have sync: "advances k sig 0 (current_state repo, env) (cs, env')" by (simp add: cs)
  then have "announcing k sig (cs, env')" by (simp add: advances_def)
  from advances_trans [OF sync tick_senders_advances [OF this]]
  have "advances k sig 1 (current_state repo, env) (tick_senders 1 cs env')" by simp
  then show "advances k sig (ticks [e]) (senders_of p) (senders_of (lldp_repository_step e p))"
    unfolding p eq using sync e by (cases e) (simp_all add: senders_of_def ticks_def)
  have "device_repository (fst (lldp_repository_step e p)) = Some dr'" "fst (snd (lldp_repository_step e p)) = nenv'"
    unfolding p eq by (simp_all split: repository_event.split)
  then show "stays_operational k es (lldp_repository_step e p)"
    using up dr(1) step by (auto simp: stays_operational_def p case_prod_beta split: option.splits)
qed

lemma repository_run_advances:
  "repository_inv (fst p) \<Longrightarrow> announcing k sig (senders_of p) \<Longrightarrow> list_all one_second_tick es \<Longrightarrow>
   stays_operational k es p \<Longrightarrow> advances k sig (ticks es) (senders_of p) (senders_of (lldp_repository_run es p))"
proof (induction es arbitrary: p)
  case Nil
  then show ?case by (simp add: lldp_repository_run_def ticks_def advances_refl)
next
  case (Cons e es)
  have e: "one_second_tick e" using Cons.prems(3) by simp
  note step = repository_step_advances [OF Cons.prems(1,2) e Cons.prems(4)]
  have "repository_inv (fst (lldp_repository_step e p))"
    using lldp_repository_step_keeps [OF Cons.prems(1), of e] by (simp add: keeps_senders_def)
  moreover have "announcing k sig (senders_of (lldp_repository_step e p))" using step(1) by (simp add: advances_def)
  ultimately have "advances k sig (ticks es) (senders_of (lldp_repository_step e p))
      (senders_of (lldp_repository_run es (lldp_repository_step e p)))"
    using Cons.prems(3) step(2) by (intro Cons.IH) simp_all
  from advances_trans [OF step(1) this]
  show ?case by (simp add: lldp_repository_run_def ticks_def split: if_splits)
qed

lemma repository_announces:
  assumes "repository_inv (fst p)" "list_all one_second_tick es" "stays_operational k es p" "6 \<le> ticks es"
    and "om_find (fst (senders_of p)) k = Some s" "device_operational (device_data s)" "sendable s"
      "never_down (snd (senders_of p))"
  shows "sent_for (signature s (snd (senders_of p))) (snd (senders_of p)) (snd (senders_of (lldp_repository_run es p)))"
proof -
  have inv: "senders_inv (fst (senders_of p))"
    using assms(1) by (auto simp: repository_inv_def senders_of_def case_prod_beta)
  then have s: "sender_inv s" using assms(5) by (auto simp: senders_inv_def)
  have "announcing k (signature s (snd (senders_of p))) (senders_of p)"
    using inv s assms(5-8) by (auto simp: announcing_def live_def case_prod_beta)
  from repository_run_advances [OF assms(1) this assms(2,3)]
  have adv: "advances k (signature s (snd (senders_of p))) (ticks es) (senders_of p) (senders_of (lldp_repository_run es p))" .
  have "0 < due_at k (fst (senders_of (lldp_repository_run es p)))"
    using adv due_bounds(1) by (auto simp: advances_def announcing_def due_at_def case_prod_beta)
  moreover have "due_at k (fst (senders_of p)) \<le> 6" using due_bounds(2) [OF s] by (simp add: due_at_def assms(5))
  ultimately show ?thesis using adv assms(4) by (auto simp: advances_def)
qed

end
