(* ===== verification/Two_Hosts.thy ===== *)
theory Two_Hosts
  imports Hearing Announcing
begin

section \<open>Two running hosts\<close>

text \<open>
  What a running server says, through all its parts: the frames it hands to the socket announce the
  device under the machine identifier.  What a running server knows: a neighbour whose announcement
  came in is shown to the clients until the time to live of the announcement is over.
\<close>

subsection \<open>The announcing server\<close>

abbreviation repository_heard :: "server_event list \<Rightarrow> repository_event list" where
  "repository_heard es \<equiv> concat (map repository_events es)"

lemma started_repository_inv:
  assumes "server_start epoll m args ans nenv env = Inr (Inr (objs, hs, s0))"
    and "server_run epoll m es s0 = Inr (out, s)"
  shows "repository_inv (fst (repository_part s))"
proof -
  have "repository_inv (fst (repository_part s0))"
    by (simp add: started_repository [OF assms(1)] made_repository_def DeviceRepository_new_def)
  from lldp_repository_run_keeps [OF this] show ?thesis
    using server_run_parts [OF assms(2)] by (simp add: keeps_senders_def)
qed

lemma server_announces:
  assumes "server_start epoll m args ans nenv env = Inr (Inr (objs, hs, s0))"
    and "server_run epoll m before s0 = Inr (out0, s)"
    and "om_find (current_state (lldp_repository (srv_clock s))) k = Some d"
    and "device_operational (device_data d)" and "sendable d" and "never_down (srv_link s)"
    and "list_all one_second_tick (repository_heard es)" and "6 \<le> ticks (repository_heard es)"
    and "stays_operational k (repository_heard es) (repository_part s)"
    and "server_run epoll m es s = Inr (out, s')"
  shows "sent_for (signature d (srv_link s)) (srv_link s) (srv_link s')"
proof -
  have part: "senders_of (repository_part t) = (current_state (lldp_repository (srv_clock t)), srv_link t)" for t
    by (simp add: senders_of_def repository_part_def)
  have "repository_part s' = lldp_repository_run (repository_heard es) (repository_part s)"
    using server_run_parts [OF assms(10)] ..
  then show ?thesis
    using repository_announces [OF started_repository_inv [OF assms(1,2)] assms(7,9,8)] assms(3-6)
    by (metis part fst_conv snd_conv)
qed

lemma started_world:
  assumes "server_start epoll m args ans nenv env = Inr (Inr (objs, hs, s0))"
    and "server_run epoll m es s0 = Inr (out, s)"
  shows "world (srv_link s) = world env"
proof -
  have "snd (snd (repository_part s0)) = env" and "repository_inv (fst (repository_part s0))"
    by (simp_all add: started_repository [OF assms(1)] made_repository_def DeviceRepository_new_def)
  moreover from this(2) have "keeps_senders (repository_part s0) (repository_part s)"
    using lldp_repository_run_keeps server_run_parts [OF assms(2)] by metis
  ultimately have "only_announces env (srv_link s)" by (simp add: keeps_senders_def repository_part_def)
  then show ?thesis by (simp only: only_announces_def)
qed

lemma transmission_announces:
  assumes "announcement_with (Some mac, i, world env) t" and "length (fst (getMachineIdTlvValue env)) < 512"
  obtains frame at where "tx_ifindex t = i" "tx_bytes t = Inr frame" "world at = world env"
    "announcement_of (fst (getMachineIdTlvValue env), announced_port at mac) (announced_ttl at TARGET_TTL) (ethernet_payload frame)"
    "length (ethernet_payload frame) \<le> MAX_FRAME_BUFFER_SIZE"
proof -
  obtain dev at f env' where t: "tx_ifindex t = i" "tx_bytes t = Inr (encode_frame f)" "world at = world env" "device_wf dev"
      "mac_address dev = Some mac" "constructFrame TARGET_TTL dev at = (Some f, env')"
    using assms(1) by (auto simp: announcement_with_def constructed_def)
  have id: "fst (getMachineIdTlvValue at) = fst (getMachineIdTlvValue env)" using t(3) by (simp add: world_def)
  from constructed_frame_announces [OF t(6,4,5), unfolded id, OF assms(2)] that [OF t(1-3)] show thesis by blast
qed

subsection \<open>The server that hears\<close>

text \<open>An event that does not withdraw the neighbour \<open>cp\<close>: a frame in its name carries no shorter time to live.\<close>

definition keeps_announced :: "bytes \<times> bytes \<Rightarrow> u16 \<Rightarrow> server_event \<Rightarrow> bool" where
  "keeps_announced cp ttl ev \<longleftrightarrow> peeked_first ev \<and>
     pred_option (\<lambda>e. entry_name e = cp \<longrightarrow> ttl \<le> ne_time_to_live e) (heard_entry ev)"

text \<open>The neighbour is known for at least \<open>n\<close> more seconds.\<close>

definition known_for :: "nat \<Rightarrow> bytes \<times> bytes \<Rightarrow> NeighbourList \<Rightarrow> bool" where
  "known_for n cp nl \<longleftrightarrow> (\<exists>e. nl_lookup nl cp = Some e \<and> n \<le> unat (ne_time_to_live e))"

lemma left_after_known:
  assumes "n \<le> unat (ne_time_to_live e)" "d < n"
  shows "\<exists>e'. left_after d e = Some e' \<and> n - d \<le> unat (ne_time_to_live e')"
proof -
  have "unat (ne_time_to_live e) < 65536" using unsigned_less [of "ne_time_to_live e", where 'a = nat] by simp
  then have u: "unat (of_nat (unat (ne_time_to_live e) - d) :: u16) = unat (ne_time_to_live e) - d" by (simp add: unat_of_nat)
  have "n - d \<le> unat (ne_time_to_live e) - d" using assms(1) by (rule diff_le_mono)
  then show ?thesis using assms by (auto simp: left_after_def u simp del: of_nat_diff)
qed

lemma neighbour_event_known:
  assumes "neighbour_event ev (buf, nl) = Inr (buf', nl')" "nl_inv nl" "buf \<le> MAX_FRAME_BUFFER_SIZE"
    and "known_for n cp nl" "n \<le> unat ttl" "counted_seconds ev < n" "keeps_announced cp ttl ev"
  shows "known_for (n - counted_seconds ev) cp nl'"
proof -
  have "peeked_first ev" using assms(7) by (simp add: keeps_announced_def)
  note look = heard_step(1) [OF assms(1,2) this assms(3), of cp]
  obtain e where e: "nl_lookup nl cp = Some e" "n \<le> unat (ne_time_to_live e)" using assms(4) by (auto simp: known_for_def)
  show ?thesis
  proof (cases "heard_as cp ev")
    case True
    then obtain e1 where e1: "heard_entry ev = Some e1" "entry_name e1 = cp" by (auto simp: heard_as_def)
    then have "unat ttl \<le> unat (ne_time_to_live e1)" using assms(7) by (simp add: keeps_announced_def word_le_nat_alt)
    then show ?thesis using look True e1(1) assms(5) by (simp add: known_for_def)
  next
    case False
    then show ?thesis using look e left_after_known [OF e(2) assms(6)] by (auto simp: known_for_def)
  qed
qed

lemma neighbour_run_known:
  "neighbour_run es (buf, nl) = Inr (buf', nl') \<Longrightarrow> nl_inv nl \<Longrightarrow> buf \<le> MAX_FRAME_BUFFER_SIZE \<Longrightarrow> known_for n cp nl \<Longrightarrow>
   n \<le> unat ttl \<Longrightarrow> sum_list (map counted_seconds es) < n \<Longrightarrow> list_all (keeps_announced cp ttl) es \<Longrightarrow>
   known_for (n - sum_list (map counted_seconds es)) cp nl'"
proof (induction es arbitrary: buf nl n)
  case (Cons ev es)
  from Cons.prems(1) obtain buf1 nl1 where e: "neighbour_event ev (buf, nl) = Inr (buf1, nl1)"
    "neighbour_run es (buf1, nl1) = Inr (buf', nl')" by auto
  have "peeked_first ev" using Cons.prems(7) by (simp add: keeps_announced_def)
  note step = heard_step(2,3) [OF e(1) Cons.prems(2) this Cons.prems(3)]
  have "known_for (n - counted_seconds ev) cp nl1"
    by (rule neighbour_event_known [OF e(1), of n cp ttl]) (use Cons.prems in simp_all)
  from Cons.IH [OF e(2) step this] Cons.prems(5-7) show ?case by simp
qed simp

lemma heard_neighbour_is_known:
  assumes "server_run epoll m (before @ received_frame address payload # after) s0 = Inr (out, s)"
    and "neighbours_reachable (neighbour_list (srv_clock s0))" and "srv_buffer s0 = 2"
    and "announcement_of cp ttl payload" and "length payload \<le> MAX_FRAME_BUFFER_SIZE" and "lldp_address address"
    and "list_all (keeps_announced cp ttl) after" and "sum_list (map counted_seconds after) < unat ttl"
  shows "known_for (unat ttl - sum_list (map counted_seconds after)) cp (neighbour_list (srv_clock s))"
proof -
  let ?ev = "received_frame address payload"
  obtain out1 t out2 u out3 where run: "server_run epoll m before s0 = Inr (out1, t)"
    "handler_called epoll m ?ev t = Inr (out2, u)" "server_run epoll m after u = Inr (out3, s)"
    using assms(1) by (auto simp: server_run_append simp del: handler_called.simps)
  have reach: "neighbours_reachable (neighbour_list (srv_clock t))" by (rule neighbours_reachable_run [OF run(1) assms(2)])
  then have inv: "nl_inv (neighbour_list (srv_clock t))" using reachable_nl_wf by (simp add: nl_wf_def)
  have buf: "srv_buffer t \<le> MAX_FRAME_BUFFER_SIZE"
    using neighbour_run_buffer [OF conjunct2 [OF server_run_parts [OF run(1)]]] assms(3)
    by (simp add: neighbour_part_def MAX_FRAME_BUFFER_SIZE_def)
  have ev: "neighbour_event ?ev (srv_buffer t, neighbour_list (srv_clock t)) = Inr (srv_buffer u, neighbour_list (srv_clock u))"
    using handler_called_parts [OF run(2)] by (simp add: neighbour_part_def)
  obtain e where e: "heard_entry ?ev = Some e" "entry_name e = cp" "ne_time_to_live e = ttl"
    by (rule announcement_heard [OF assms(4,6,5)])
  have "peeked_first ?ev" by simp
  note step = heard_step [OF ev inv this buf]
  have "known_for (unat ttl) cp (neighbour_list (srv_clock u))"
    using step(1) [of cp] e by (simp add: known_for_def heard_as_def)
  moreover have "neighbour_run after (srv_buffer u, neighbour_list (srv_clock u)) = Inr (srv_buffer s, neighbour_list (srv_clock s))"
    using server_run_parts [OF run(3)] by (simp add: neighbour_part_def)
  ultimately show ?thesis using neighbour_run_known [of after, OF _ step(2,3) _ order_refl assms(8,7)] by blast
qed

text \<open>Every client that is connected and asks is answered with a table that has a row for \<open>cp\<close>.\<close>

definition shown_to_clients :: "epoll_ctl \<Rightarrow> nat \<Rightarrow> bytes \<times> bytes \<Rightarrow> server \<Rightarrow> bool" where
  "shown_to_clients epoll m cp s \<longleftrightarrow> (\<forall>q sock write_ok c. map_of (transport_sockets (srv_clients s)) q = Some sock \<longrightarrow>
     (\<exists>packets s' rows.
        handler_called epoll m (Client_data q (Some (as_bytes16 (cr_request_id c))) write_ok) s = Inr ([(q, packets)], s') \<and>
        (\<forall>rs rest. map fst rs = map Some packets \<longrightarrow> GetData (rs @ rest) c = (as_bytes16 (cr_request_id c),
           Inr (Some (rows, c\<lparr>cr_request_id := cr_request_id c + 1\<rparr>, rest)))) \<and>
        (\<exists>row \<in> snd ` set rows. (nd_chassis row, nd_port row) = cp)))"

lemma known_is_shown:
  assumes "neighbours_reachable (neighbour_list (srv_clock s))" and "known_for (Suc n) cp (neighbour_list (srv_clock s))"
    and "length (fst cp) \<le> 508" and "names_ok (current_state (lldp_repository (srv_clock s)))"
    and "length (neighbours_of (neighbour_list (srv_clock s))) < 20000"
    and "\<forall>chassis port e. nl_lookup (neighbour_list (srv_clock s)) (chassis, port) = Some e \<longrightarrow> length port \<le> 506"
  shows "shown_to_clients epoll m cp s"
  unfolding shown_to_clients_def
proof (intro allI impI)
  let ?nl = "neighbour_list (srv_clock s)" and ?info = "current_state (lldp_repository (srv_clock s))"
  fix q sock write_ok and c :: ClientReceiverSocket
  assume sock: "map_of (transport_sockets (srv_clients s)) q = Some sock"
  have inv: "nl_inv ?nl" using reachable_nl_wf [OF assms(1)] by (simp add: nl_wf_def)
  have "\<exists>packets. DumpData (cr_request_id c) ?info ?nl = Inr packets \<and>
     (\<forall>rs rest c. map fst rs = map Some packets \<longrightarrow> GetData (rs @ rest) c = (as_bytes16 (cr_request_id c),
        Inr (Some (client_table ?info ?nl, c\<lparr>cr_request_id := cr_request_id c + 1\<rparr>, rest))))"
    by (rule answered_request [OF inv assms(4,5)])
      (use reachable_presentable [OF assms(1)] assms(6) in blast)
  then obtain packets where p: "DumpData (cr_request_id c) ?info ?nl = Inr packets"
    "\<And>rs rest. map fst rs = map Some packets \<Longrightarrow> GetData (rs @ rest) c = (as_bytes16 (cr_request_id c),
        Inr (Some (client_table ?info ?nl, c\<lparr>cr_request_id := cr_request_id c + 1\<rparr>, rest)))" by blast
  have call: "ClientSenderSocket_Call (Some (as_bytes16 (cr_request_id c))) ?info ?nl sock = Inr (sock, packets, False)"
    using p(1) by (simp add: ClientSenderSocket_Call_def as_bytes16_def)
  obtain e where e: "nl_lookup ?nl cp = Some e" using assms(2) by (auto simp: known_for_def)
  then have "(fst cp, snd cp, e) \<in> set (neighbours_of ?nl)" by (simp add: neighbours_of_lookup [OF inv])
  then have "client_view ?info (fst cp, snd cp, e) \<in> snd ` set (client_table ?info ?nl)"
    unfolding client_table_def snd_numbered set_map by (rule imageI)
  moreover have "(nd_chassis (client_view ?info (fst cp, snd cp, e)), nd_port (client_view ?info (fst cp, snd cp, e))) = cp"
    using assms(3) by (simp add: client_view_def)
  ultimately have row: "\<exists>row \<in> snd ` set (client_table ?info ?nl). (nd_chassis row, nd_port row) = cp" by blast
  show "\<exists>packets s' rows.
      handler_called epoll m (Client_data q (Some (as_bytes16 (cr_request_id c))) write_ok) s = Inr ([(q, packets)], s') \<and>
      (\<forall>rs rest. map fst rs = map Some packets \<longrightarrow> GetData (rs @ rest) c = (as_bytes16 (cr_request_id c),
         Inr (Some (rows, c\<lparr>cr_request_id := cr_request_id c + 1\<rparr>, rest)))) \<and>
      (\<exists>row \<in> snd ` set rows. (nd_chassis row, nd_port row) = cp)"
    using p(2) row by (intro exI [of _ packets] exI [of _ "client_table ?info ?nl"]) (auto simp: client_called_def sock call)
qed

lemma started_reachable:
  "server_start epoll m args ans nenv env = Inr (Inr (objs, hs, s0)) \<Longrightarrow> neighbours_reachable (neighbour_list (srv_clock s0))"
  by (erule server_start_parts) (simp add: neighbours_reachable.start)

lemma fresh_descriptor:
  assumes "tight m w"
  shows "\<exists>fd. fd \<notin> open_descriptors w"
proof -
  have "dom (handler_sockets w) \<subseteq> {..<next_address w}" and sub: "open_descriptors w \<subseteq> ran (handler_sockets w)"
    using assms by (auto simp: tight_def owned_def not_le [symmetric])
  then have "finite (ran (handler_sockets w))" using finite_ran finite_subset by blast
  then show ?thesis using sub ex_new_if_finite [OF infinite_UNIV_nat] by (metis subsetD)
qed

lemma client_connects:
  assumes "accepting epoll" "coherent (event_world cs)" "fd \<notin> open_descriptors (event_world cs)"
  shows "\<exists>q. transport_sockets (ClientListenSocket_Call epoll m (Some fd) cs)
    = transport_sockets cs @ [(q, ClientSenderSocket_new fd)]"
proof -
  let ?w = "event_world cs" and ?p = "next_address (event_world cs)"
  obtain w1 where w1: "EventHandler_new fd EPOLLIN ?w = (?p, w1)" by (simp add: EventHandler_new_def)
  have h: "handlers w1 ?p = Some \<lparr>event_manager = None, handle = 0, handler_socket = fd, handler_events = EPOLLIN\<rparr>"
    using w1 by (auto simp: EventHandler_new_def)
  have "coherent w1" using new_handler_coherent [OF assms(2,3), of EPOLLIN] w1 by simp
  from Add_succeeds [OF assms(1) this h, of m] obtain k w2 where "EventManager_Add epoll m ?p w1 = (Inr k, w2)"
    by (cases "EventManager_Add epoll m ?p w1") auto
  then show ?thesis by (simp add: ClientListenSocket_Call_def ClientRepository_Add_def w1)
qed

subsection \<open>Properties\<close>

text \<open>C4: A neighbour that was heard is shown: in a run of a started server, when an announcement came in
  (a frame of at most 1600 bytes from an Ethernet interface) and since then fewer seconds were counted
  than its time to live and no frame in the same name carried a shorter one, every client that is
  connected and asks gets a table with a row for it; the events before and between are arbitrary.
  This holds if the whole answer can be sent, when it is asked for: every port identifier in the
  neighbour list is at most 506 bytes long (a longer one makes the answer undefined), the list has
  fewer than 20000 entries, local interface names are as short as the kernel's, and the chassis
  identifier of the neighbour is at most 508 bytes, beyond which it is shown empty.\<close>
theorem heard_neighbour_is_shown:
  assumes "server_start epoll m args ans nenv env = Inr (Inr (objs, hs, s0))"
    and "server_run epoll m (before @ received_frame address payload # after) s0 = Inr (out, s)"
    and "announcement_of cp ttl payload" and "length payload \<le> MAX_FRAME_BUFFER_SIZE" and "lldp_address address"
    and "list_all (keeps_announced cp ttl) after" and "sum_list (map counted_seconds after) < unat ttl"
    and "length (fst cp) \<le> 508" and "names_ok (current_state (lldp_repository (srv_clock s)))"
    and "length (neighbours_of (neighbour_list (srv_clock s))) < 20000"
    and "\<forall>chassis port e. nl_lookup (neighbour_list (srv_clock s)) (chassis, port) = Some e \<longrightarrow> length port \<le> 506"
  shows "shown_to_clients epoll m cp s"
proof (rule known_is_shown [OF _ _ assms(8-11)])
  have start: "neighbours_reachable (neighbour_list (srv_clock s0))" "srv_buffer s0 = 2"
    by (rule started_reachable [OF assms(1)]) (rule server_start_parts [OF assms(1)])
  show "neighbours_reachable (neighbour_list (srv_clock s))" by (rule neighbours_reachable_run [OF assms(2) start(1)])
  show "known_for (Suc (unat ttl - Suc (sum_list (map counted_seconds after)))) cp (neighbour_list (srv_clock s))"
    using heard_neighbour_is_known [OF assms(2) start assms(3-7)] assms(7) by (simp add: Suc_diff_Suc)
qed

text \<open>A started server with a client.\<close>

lemma example_connected:
  obtains objs hs s0 fd s q where
    "server_start example_epoll 0 [] example_start example_nl_env example_link_env = Inr (Inr (objs, hs, s0))"
    "handler_called example_epoll 0 (Listener_ready (Some fd)) s0 = Inr ([], s)"
    "transport_sockets (srv_clients s) = [(q, ClientSenderSocket_new fd)]" "neighbour_list (srv_clock s) = []"
    "srv_buffer s = 2"
proof -
  obtain objs hs s0 where start: "server_start example_epoll 0 [] example_start example_nl_env example_link_env
      = Inr (Inr (objs, hs, s0))" by (rule example_started)
  note inv = server_start_inv [OF documented_example_epoll example_start_succeeds(1) start]
  have none: "transport_sockets (srv_clients s0) = []" by (rule server_start_parts [OF start]) simp
  have "tight 0 (server_world s0)" by (rule server_start_tight [OF documented_example_epoll example_start_succeeds(1) start])
  from fresh_descriptor [OF this] obtain fd where fd: "fd \<notin> open_descriptors (server_world s0)" by blast
  have "coherent (server_world s0)" by (rule service_inv_coherent [OF inv(1)])
  from client_connects [OF accepting_example_epoll this fd] obtain q where
    q: "transport_sockets (ClientListenSocket_Call example_epoll 0 (Some fd) (srv_clients s0)) = [(q, ClientSenderSocket_new fd)]"
    using none by auto
  show thesis
    by (rule that [OF start, of fd "s0\<lparr>srv_clients := ClientListenSocket_Call example_epoll 0 (Some fd) (srv_clients s0)\<rparr>"])
      (simp_all add: q inv)
qed


text \<open>A frame comes in, 29 seconds pass; the client is answered with a row for the sender of the frame.\<close>

theorem heard_neighbour_is_shown_witness:
  "\<exists>objs hs s0 fd s q. server_start example_epoll 0 [] example_start example_nl_env example_link_env = Inr (Inr (objs, hs, s0)) \<and>
    server_run example_epoll 0 ([Listener_ready (Some fd)] @
      received_frame example_address [2, 1, 7, 4, 1, 9, 6, 2, 0, 30, 0, 0] # [Timer_ready (Some 29)]) s0 = Inr ([], s) \<and>
    map_of (transport_sockets (srv_clients s)) q \<noteq> None \<and> shown_to_clients example_epoll 0 ([7], [9]) s"
proof -
  obtain objs hs s0 fd s1 q where start: "server_start example_epoll 0 [] example_start example_nl_env example_link_env
      = Inr (Inr (objs, hs, s0))" and s1: "handler_called example_epoll 0 (Listener_ready (Some fd)) s0 = Inr ([], s1)"
    "transport_sockets (srv_clients s1) = [(q, ClientSenderSocket_new fd)]" "neighbour_list (srv_clock s1) = []" "srv_buffer s1 = 2"
    by (rule example_connected)
  let ?f = "[2, 1, 7, 4, 1, 9, 6, 2, 0, 30, 0, 0]"
  let ?es = "[Listener_ready (Some fd)] @ received_frame example_address ?f # [Timer_ready (Some 29)]"
  let ?nl = "[([7], [([9], \<lparr>ne_chassis_id = [7], ne_port_id = [9], ne_interface_index = 2, ne_time_to_live = 30,
     ne_ipv4_address = None, ne_ipv6_address = None\<rparr>)])]"
  have frame: "frame_called (Some ?f) (Some (example_address, ?f)) 2 [] = Inr (12, ?nl)" by code_simp
  have "\<exists>s. server_run example_epoll 0 ?es s0 = Inr ([], s) \<and> transport_sockets (srv_clients s) = [(q, ClientSenderSocket_new fd)] \<and>
      neighbour_list (srv_clock s) = NeighbourList_Tick 29 ?nl"
    using s1 frame by (auto simp del: handler_called.simps(8) simp: ClockHandler_Call_def Let_def split: prod.split if_splits)
  then obtain s where s: "server_run example_epoll 0 ?es s0 = Inr ([], s)"
    "transport_sockets (srv_clients s) = [(q, ClientSenderSocket_new fd)]"
    "neighbour_list (srv_clock s) = NeighbourList_Tick 29 ?nl" by blast
  have nl: "neighbour_list (srv_clock s) = [([7], [([9], \<lparr>ne_chassis_id = [7], ne_port_id = [9], ne_interface_index = 2,
      ne_time_to_live = 1, ne_ipv4_address = None, ne_ipv6_address = None\<rparr>)])]" unfolding s(3) by code_simp
  have "current_state (fst (lldp_repository_run [Clock_tick 29]
      (made_repository (example_answers 5) (example_answers 6) (example_answers 7), example_nl_env, example_link_env))) = []"
    by code_simp
  moreover have "repository_part s = lldp_repository_run [Clock_tick 29]
      (made_repository (example_answers 5) (example_answers 6) (example_answers 7), example_nl_env, example_link_env)"
    using server_run_parts [OF s(1)] by (simp add: started_repository [OF start] example_start_def)
  ultimately have info: "current_state (lldp_repository (srv_clock s)) = []" by (metis repository_part_def fst_conv)
  have "shown_to_clients example_epoll 0 ([7], [9]) s"
  proof (rule heard_neighbour_is_shown [OF start s(1)])
    show "announcement_of ([7], [9]) 30 ?f" by code_simp
    show "\<forall>chassis port e. nl_lookup (neighbour_list (srv_clock s)) (chassis, port) = Some e \<longrightarrow> length port \<le> 506"
      unfolding nl by (auto simp: nl_lookup_def om_find_Cons split: if_splits)
  qed (simp_all add: keeps_announced_def nl info names_ok_def neighbours_of_def MAX_FRAME_BUFFER_SIZE_def om_find_def)
  then show ?thesis using start s(1,2) by (intro exI conjI) (assumption, assumption, simp)
qed

end
