(* ===== verification/Spec2Isabelle.thy ===== *)
theory Spec2Isabelle
  imports Clock_Handler Client Client_Service Service_Creation Service_Lock Owned_File_Descriptor
    Text_Output Server Client_Program Two_Hosts
begin

text \<open>
  Verification of \<open>ndisc\<close>, an LLDP-style neighbour discovery service for Linux and its command
  line client.  All paths below are under \<open>src/source/\<close>.

  The program.  A single-threaded service (\<open>src/server_main.cc\<close>) waits in an \<open>EventManager\<close> for
  ready descriptors and calls their handlers.  Netlink sockets tell a \<open>DeviceRepository\<close> of the
  host's links and addresses: two readers dump them, a monitor socket says when to dump again.  When
  a dump is complete the repository hands its map of devices to an \<open>LldpRepository\<close>, which keeps one
  \<open>LldpSender\<close> per device; the sender announces the device in an LLDP frame.  A packet socket
  receives the frames of other hosts into a \<open>NeighbourList\<close>.  A clock ticks senders, readers and
  list every second.  Clients connect to a local socket, ask, and get the list as a sequence of
  packets, which \<open>src/client_main.cc\<close> prints as a table.

  Theories, in the order in which they build on each other:
  \<^item> \<open>Prelude\<close>, \<open>Ordered_Map\<close>, \<open>Platform\<close>: words and bytes, undefined behaviour as the value
    \<open>Inl (UB why)\<close> with \<open>bind_cpp\<close> to sequence, \<open>std::map\<close> as a sorted association list behind the
    locale \<open>std_map\<close>, and the constants of the system headers.
  \<^item> \<open>Lldp_Packet\<close>: TLVs, data units and frames of \<open>lldp_packet.cc\<close>; round trip, soundness of the
    parser, sizes.
  \<^item> \<open>Lldp_Monitor\<close>: \<open>lldp_monitor.cc\<close>, from the received frame to the entry, and ageing.  The
    neighbour list is specified as a finite map on pairs of chassis and port (\<open>nl_lookup\<close>); storing,
    erasing and ticking implement its update, and ticks add up.
  \<^item> \<open>Device_Data\<close>, \<open>Lldp_Sender\<close>: \<open>struct DeviceData\<close> and every operation of \<open>lldp_sender.cc\<close>:
    timers, fast start, transmit credits, construction and sending of the frame.
  \<^item> \<open>Netlink_Monitor\<close>, \<open>Readers\<close>, \<open>Device_Repository\<close>, \<open>Lldp_Repository\<close>: the files of these names
    (\<open>Readers\<close> holds \<open>device_reader.cc\<close> and \<open>ip_reader.cc\<close>), with their callbacks composed into
    the steps \<open>device_reader_called\<close>, \<open>ip_reader_called\<close> and \<open>lldp_repository_run\<close>.  The locale
    \<open>dump_protocol\<close> is what the two readers share, \<open>device_recorder\<close> what the two message handlers
    share.  \<open>UpdateState\<close> refines the specification ``one sender per device'', and never
    has anything to delete: \<open>updating_step\<close> is the repository without the deletion loop.
  \<^item> \<open>Announcement\<close>: sender, wire and receiver put together.  \<open>Clock_Handler\<close>: \<open>clock_handler.cc\<close>.
  \<^item> \<open>Client\<close>: the packets of \<open>client.cc\<close>, \<open>DumpData\<close> on the sending and \<open>GetData\<close> on the receiving
    side.  \<open>Event_Handlers\<close>: \<open>event_handlers.cc\<close> as operations on a world of handlers and managers,
    with one invariant for the histories of handlers and managers, moves and assignments included
    where they keep it.  \<open>Client_Service\<close>: accepting, serving and dropping
    clients.  \<open>Service_Lock\<close>: the lock file and socket of \<open>ClientListenSocket::Create\<close>.
    \<open>Owned_File_Descriptor\<close>: \<open>owned_file_descriptor.cc\<close>.
  \<^item> \<open>Text_Output\<close>: what \<open>lldp.hh\<close>, \<open>clock_handler.cc\<close> and \<open>client_main.cc\<close> print.
  \<^item> \<open>Callback_Binding\<close>: constructors, moves and destructors of readers and repositories, which
    bind the closures they call each other through; the invariant \<open>bound\<close> says that a closure leads
    to the living owner.  \<open>Service_Creation\<close>: the \<open>Create\<close> functions composed, on success and for
    the failure of any system call.
  \<^item> \<open>Server_Handlers\<close>, \<open>Server\<close>: the functions of \<open>server_main.cc\<close>, and the service as a machine
    whose events are the calls of its handlers (\<open>handler_called\<close>, \<open>server_run\<close>).
  \<^item> \<open>Service_Loop\<close>, \<open>Service_Start\<close>, \<open>Service_Rounds\<close>, \<open>Service_End\<close>: \<open>main\<close> of the service as a whole,
    \<open>ProcessEvents\<close> with the handlers it really has: \<open>server_start\<close>, rounds of \<open>service_process\<close>, and
    the destructors at the end.  The invariant \<open>service_inv\<close> says who is registered between rounds.
    A round refines both \<open>ProcessEvents\<close> of \<open>Event_Handlers\<close>, on handlers and managers, and a
    \<open>server_run\<close>, on the rest of the state, so what is proved of these holds of the program.
  \<^item> \<open>Announcing\<close>: the measure \<open>due\<close> by which a sender transmits every six seconds whatever the other
    senders and the dumps do.  A frame is followed by its sender's \<open>signature\<close>, what decides under which
    name it announces.  \<open>Client_Program\<close>: \<open>main\<close> of \<open>client_main.cc\<close>.
  \<^item> \<open>Hearing\<close>: what a started server knows, said without its data structures: the last frame in a
    name and the seconds counted since decide whether and how a neighbour is in the list.
  \<^item> \<open>Two_Hosts\<close>: what a started server says, all its parts included, and what it knows and shows
    until the announced time to live is over.
  \<^item> This theory: the path from one host's device to another host's client, operation by operation,
    and between two servers that run.

  Correspondence.  Classes are records with the source's fields, enumerations are constants or
  datatypes, machine integers are words of their width.  A member function takes its object and
  returns it updated; an error of \<open>std::expected\<close> is \<open>Inl\<close>, a missing \<open>std::optional\<close> is \<open>None\<close>.
  Where identity matters (moves, weak pointers, captured \<open>this\<close>, descriptors) objects live at
  addresses of an explicit world.  A callback that the object's owner sets is returned as a value and
  run by the caller; that it reaches that owner is shown in \<open>Callback_Binding\<close>.

  Parameters.  The results of system calls, the datagrams received, the contents of
  \<open>/etc/machine-id\<close>, \<open>epoll_ctl\<close> and \<open>inet_ntop\<close> are arguments of the definitions that use them.
  So is \<open>dead_storage\<close>, what a read of a local variable finds after its function has returned,
  for every such read and byte of it: \<open>constructFrame\<close> returns a frame that refers to such variables.
  No theorem assumes that the bytes are still there.  Theorems about what is on the wire speak of the
  port and time to live that are found (\<open>announced_port\<close>, \<open>announced_ttl\<close>) and say what these are
  when the storage is intact.

  Bounds.  Recursion is structural or has a proof of termination.  \<open>next_free\<close>, the search for a free
  handle, takes as fuel the length of the table plus one, which always has a free handle within it.
  \<open>GetData\<close> gives up after 100000 packets as the code does; fewer than 20000 neighbours, at most
  five packets each, stay below.  \<open>client_rounds\<close> takes the number of rounds, since the loop of the
  client ends only with an error; \<open>main_loop\<close> and \<open>service_loop\<close> take what \<open>epoll_wait\<close> will report.
  Handles are 64-bit: a round adds at most ten handlers, and theorems about a started server hold for
  every number \<open>n\<close> of rounds with \<open>10 * n\<close> below \<open>2 ^ 64\<close>.

  What the theorems show beyond correctness are the places where the code does not keep what it
  means to keep; each is a theorem about the code as it is: a frame that refers to dead locals, ports that are not checked against the
  size of a packet, a time to live that is read without checking its length, \<open>RTA_NEXT\<close> past the end
  of a message, fast start on link-down, devices that are never withdrawn, a lock that a refused
  start removes, an assignment of readers that leaves a dangling callback.

  Not modelled: the kernel beyond the answers it gives; text on standard error; the flush of
  standard output; delivery of \<open>SIGPIPE\<close> and the signal mask; the headers' include guards and the
  trivial getters; the overflow of the \<open>int\<close> sequence number of a netlink socket, after \<open>2 ^ 31\<close>
  requests (it wraps in the model); exceptions (allocation failure, \<open>create_directories\<close>); and the interleaving of
  threads, of which the program starts none.
\<close>

section \<open>From one host's device to another host's client\<close>

text \<open>The neighbours the service sends are as many as the list has entries.\<close>

lemma neighbours_of_distinct:
  "om_inv nl \<Longrightarrow> \<forall>(chassis, pm) \<in> set nl. om_inv pm \<Longrightarrow>
   distinct (map (\<lambda>(chassis, port, e). (chassis, port)) (neighbours_of nl)) \<and>
   (\<forall>x \<in> set (neighbours_of nl). fst x \<in> set (om_keys nl))"
proof (induction nl)
  case (Cons cp nl)
  obtain chassis pm where cp: "cp = (chassis, pm)" by (cases cp)
  have "distinct (om_keys pm)" using Cons.prems(2) cp by (auto intro: om_distinct)
  then have "distinct (map (\<lambda>(chassis, port, e). (chassis, port)) (map (\<lambda>(port, e). (chassis, port, e)) pm))"
    by (simp add: om_keys_def case_prod_beta comp_def distinct_map inj_on_def)
  moreover have "chassis \<notin> set (om_keys nl)" using Cons.prems(1) cp by (auto simp: om_inv_Cons om_keys_def)
  moreover have IH: "distinct (map (\<lambda>(chassis, port, e). (chassis, port)) (neighbours_of nl))"
    "\<forall>x \<in> set (neighbours_of nl). fst x \<in> set (om_keys nl)"
    using Cons by (simp_all add: cp om_inv_Cons)
  moreover from calculation have "\<forall>x \<in> set (neighbours_of nl). fst x \<noteq> chassis" by auto
  ultimately show ?case
    by (auto simp: cp neighbours_of_Cons om_keys_def)
qed (simp add: neighbours_of_def)

lemma card_neighbours_of:
  assumes "nl_inv nl"
  shows "length (neighbours_of nl) = card (dom (nl_lookup nl))"
proof -
  have "om_inv nl" "\<forall>(chassis, pm) \<in> set nl. om_inv pm"
    using assms by (auto simp: nl_inv_def om_find_in_set)
  then have "distinct (map (\<lambda>(chassis, port, e). (chassis, port)) (neighbours_of nl))"
    using neighbours_of_distinct by blast
  from distinct_card [OF this] have "length (neighbours_of nl)
    = card ((\<lambda>(chassis, port, e). (chassis, port)) ` set (neighbours_of nl))" by simp
  also have "(\<lambda>(chassis, port, e). (chassis, port)) ` set (neighbours_of nl) = dom (nl_lookup nl)"
    using neighbours_of_lookup [OF assms] by (force simp: dom_def)
  finally show ?thesis .
qed

lemma finite_dom_nl_lookup: "nl_inv nl \<Longrightarrow> finite (dom (nl_lookup nl))"
proof -
  assume "nl_inv nl"
  then have "dom (nl_lookup nl) \<subseteq> (\<lambda>(chassis, port, e). (chassis, port)) ` set (neighbours_of nl)"
    using neighbours_of_lookup by (force simp: dom_def)
  then show ?thesis by (rule finite_subset) simp
qed

lemma nl_inv_ticks: "nl_inv nl \<Longrightarrow> nl_inv (fold NeighbourList_Tick ds nl)"
  by (induction ds arbitrary: nl) (simp_all add: nl_inv_Tick)

lemma dom_ticks: "nl_inv nl \<Longrightarrow> dom (nl_lookup (fold NeighbourList_Tick ds nl)) \<subseteq> dom (nl_lookup nl)"
  using nl_lookup_ticks_None [of nl _ ds] by (fastforce simp: dom_def)

lemma reachable_ticks: "neighbours_reachable nl \<Longrightarrow> neighbours_reachable (fold NeighbourList_Tick ds nl)"
  by (induction ds arbitrary: nl) (simp_all add: neighbours_reachable.ticked)

text \<open>A list with one more entry, aged: it stays small enough to be sent, and the entry is shown.\<close>

lemma aged_list_few:
  assumes "nl_inv nl" "length (neighbours_of nl) < 19999"
  shows "length (neighbours_of (fold NeighbourList_Tick ds (store_entry e nl))) < 20000"
proof -
  have inv: "nl_inv (store_entry e nl)" "nl_inv (fold NeighbourList_Tick ds (store_entry e nl))"
    using assms(1) by (auto intro: nl_inv_ticks)
  have "dom (nl_lookup (store_entry e nl)) \<subseteq> insert (ne_chassis_id e, ne_port_id e) (dom (nl_lookup nl))"
    using assms(1) by (auto simp: nl_lookup_store dom_def split: if_splits)
  then have "card (dom (nl_lookup (fold NeighbourList_Tick ds (store_entry e nl))))
    \<le> card (insert (ne_chassis_id e, ne_port_id e) (dom (nl_lookup nl)))"
    using dom_ticks [OF inv(1), of ds] finite_dom_nl_lookup [OF assms(1)] by (intro card_mono) auto
  also have "\<dots> \<le> Suc (card (dom (nl_lookup nl)))" by (rule card_insert_le_m1) auto
  finally show ?thesis using assms by (simp add: card_neighbours_of inv)
qed

lemma aged_list_presentable:
  assumes "neighbours_reachable (store_entry e nl)" "nl_inv nl" "length (ne_port_id e) \<le> 506"
    and "\<forall>chassis port e. nl_lookup nl (chassis, port) = Some e \<longrightarrow> length port \<le> 506"
    and "nl_lookup (fold NeighbourList_Tick ds (store_entry e nl)) (chassis, port) = Some e'"
  shows "presentable port e'"
proof (rule reachable_presentable [OF reachable_ticks [OF assms(1)] assms(5)])
  have "nl_inv (store_entry e nl)" using assms(2) by auto
  then have "(chassis, port) \<in> dom (nl_lookup (store_entry e nl))" using dom_ticks [of _ ds] assms(5) by blast
  then obtain e'' where "nl_lookup (store_entry e nl) (chassis, port) = Some e''" by blast
  then show "length port \<le> 506"
    using assms(3) assms(4) [rule_format, of chassis port e'']
    by (simp add: nl_lookup_store [OF assms(2)] split: if_splits)
qed

lemma aged_entry_shown:
  assumes "nl_inv nl" "sum_list (map unat ds) < unat (ne_time_to_live e)"
  shows "client_view device_info (ne_chassis_id e, ne_port_id e, e)
    \<in> snd ` set (client_table device_info (fold NeighbourList_Tick ds (store_entry e nl)))"
proof -
  let ?late = "fold NeighbourList_Tick ds (store_entry e nl)" and ?cp = "(ne_chassis_id e, ne_port_id e)"
  let ?l = "e\<lparr>ne_time_to_live := of_nat (unat (ne_time_to_live e) - sum_list (map unat ds))\<rparr>"
  have inv: "nl_inv (store_entry e nl)" "nl_inv ?late" using assms(1) by (auto intro: nl_inv_ticks)
  have "nl_lookup (store_entry e nl) ?cp = Some e" using assms(1) by (simp add: nl_lookup_store)
  then have "nl_lookup ?late ?cp = Some ?l" using assms(2) by (rule nl_lookup_ticks [OF inv(1)])
  then have "(ne_chassis_id e, ne_port_id e, ?l) \<in> set (neighbours_of ?late)"
    by (simp only: neighbours_of_lookup inv)
  then have "client_view device_info (ne_chassis_id e, ne_port_id e, ?l) \<in> snd ` set (client_table device_info ?late)"
    unfolding client_table_def snd_numbered set_map by (rule imageI)
  then show ?thesis by (simp add: client_view_def local_interface_name_def)
qed

text \<open>C2: A device of one host becomes a row at another host's client.  The frame \<open>SendLldp\<close> sends for it is
  received into the neighbour list, and while fewer seconds have been ticked off since than the time
  to live it carries, the service answers the next request with packets that \<open>GetData\<close> turns into a
  table that holds a row with the host's chassis, the port, the name of the interface the frame came
  in on, and the device's addresses.  Port and time to live are what the dead storage of two locals of
  \<open>constructFrame\<close> holds when the frame is written: the MAC address and 30 seconds while it is intact.
  The list may be any that frames and ticks lead to, if the answer can be sent: the ports in it are at
  most 506 bytes long (with a longer one the answer is undefined), it has fewer than 19999 entries and
  the names of the local interfaces are as short as the kernel's.  The machine identifier is taken as
  not read before and shorter than 508 bytes.\<close>
theorem announced_host_is_shown:
  assumes "device_wf (device_data s)" and "mac_address (device_data s) = Some mac"
    and "if_index (device_data s) \<le> INT_MAX" and "machine_id_vector env = []"
    and "length (getMachineId (machine_id_file env) (machine_id env)) < 508"
    and "lldp_address address" and "neighbours_reachable nl" and "names_ok device_info"
    and "length (neighbours_of nl) < 19999"
    and "\<forall>chassis port e. nl_lookup nl (chassis, port) = Some e \<longrightarrow> length port \<le> 506"
    and "sum_list (map unat ds) < unat (announced_ttl env TARGET_TTL)"
  shows "\<exists>frame nl' packets rows.
    send_log (snd (SendLldp TARGET_TTL s env)) =
      send_log env @ [\<lparr>tx_ifindex = if_index (device_data s), tx_bytes = Inr frame\<rparr>] \<and>
    lldpFrameParser nl address (ethernet_payload frame) = Inr nl' \<and>
    ClientSenderSocket_Call (Some (as_bytes16 (cr_request_id c))) device_info (fold NeighbourList_Tick ds nl') cs
      = Inr (cs, packets, False) \<and>
    (\<forall>rs rest. map fst rs = map Some packets \<longrightarrow>
       GetData (rs @ rest) c = (as_bytes16 (cr_request_id c),
         Inr (Some (rows, c\<lparr>cr_request_id := cr_request_id c + 1\<rparr>, rest)))) \<and>
    \<lparr>nd_chassis = 7 # getMachineId (machine_id_file env) (machine_id env), nd_port = announced_port env mac,
     nd_local_interface_name = Option.bind (om_find device_info (ucast (ucast (sll_ifindex address) :: u16)))
       (\<lambda>s. interface_name (device_data s)),
     nd_ipv4_address = ipv4_address (device_data s), nd_ipv6_address = ipv6_address (device_data s)\<rparr> \<in> snd ` set rows"
    (is "\<exists>frame nl' packets rows. _ \<and> _ \<and> _ \<and> _ \<and> ?row \<in> _")
proof -
  have mac: "length mac = 6" using assms(1,2) by (simp add: device_wf_def ETH_ALEN_def)
  have id: "fst (getMachineIdTlvValue env) = 7 # getMachineId (machine_id_file env) (machine_id env)"
    using getMachineIdTlvValue_fresh [OF assms(4)] by (simp add: PORT_TLV_SUBTYPE_LOCAL_def)
  let ?c = "7 # getMachineId (machine_id_file env) (machine_id env)" and ?p = "announced_port env mac"
  let ?e = "announced_entry ?c (device_data s) ?p (ucast (sll_ifindex address)) (announced_ttl env TARGET_TTL)"
  obtain frame where frame: "send_log (snd (SendLldp TARGET_TTL s env)) =
      send_log env @ [\<lparr>tx_ifindex = if_index (device_data s), tx_bytes = Inr frame\<rparr>]"
    "lldpFrameParser nl address (ethernet_payload frame) = Inr (store_entry ?e nl)"
    using announcement_parsed [OF assms(1,2,3) _ assms(6), of env TARGET_TTL nl] assms(5) by (auto simp: id)
  let ?late = "fold NeighbourList_Tick ds (store_entry ?e nl)"
  have inv: "nl_inv nl" "nl_inv ?late" using reachable_nl_wf [OF assms(7)] by (auto simp: nl_wf_def intro: nl_inv_ticks)
  have reach: "neighbours_reachable (store_entry ?e nl)"
    using frame(2) assms(7) by (rule neighbours_reachable.received [rotated])
  have port: "length (ne_port_id ?e) \<le> 506" using mac by (simp add: announced_entry_def)
  have few: "length (neighbours_of ?late) < 20000" by (rule aged_list_few [OF inv(1) assms(9)])
  have "client_view device_info (ne_chassis_id ?e, ne_port_id ?e, ?e) \<in> snd ` set (client_table device_info ?late)"
    using assms(11) by (intro aged_entry_shown [OF inv(1)]) (simp add: announced_entry_def)
  then have row: "?row \<in> snd ` set (client_table device_info ?late)"
    using assms(5) by (simp add: client_view_def local_interface_name_def announced_entry_def)
  have "\<exists>packets. DumpData (cr_request_id c) device_info ?late = Inr packets \<and>
     (\<forall>rs rest c. map fst rs = map Some packets \<longrightarrow>
        GetData (rs @ rest) c = (as_bytes16 (cr_request_id c),
          Inr (Some (client_table device_info ?late, c\<lparr>cr_request_id := cr_request_id c + 1\<rparr>, rest))))"
    by (rule answered_request [OF inv(2) assms(8) few]) (rule aged_list_presentable [OF reach inv(1) port assms(10)])
  then obtain packets where data: "DumpData (cr_request_id c) device_info ?late = Inr packets"
    "\<And>rs rest c. map fst rs = map Some packets \<Longrightarrow>
        GetData (rs @ rest) c = (as_bytes16 (cr_request_id c),
          Inr (Some (client_table device_info ?late, c\<lparr>cr_request_id := cr_request_id c + 1\<rparr>, rest)))" by blast
  show ?thesis
  proof (intro exI conjI)
    show "send_log (snd (SendLldp TARGET_TTL s env)) =
      send_log env @ [\<lparr>tx_ifindex = if_index (device_data s), tx_bytes = Inr frame\<rparr>]" by (rule frame(1))
    show "lldpFrameParser nl address (ethernet_payload frame) = Inr (store_entry ?e nl)" by (rule frame(2))
    show "ClientSenderSocket_Call (Some (as_bytes16 (cr_request_id c))) device_info ?late cs = Inr (cs, packets, False)"
      using data(1) by (simp add: ClientSenderSocket_Call_def as_bytes16_def)
    show "\<forall>rs rest. map fst rs = map Some packets \<longrightarrow> GetData (rs @ rest) c = (as_bytes16 (cr_request_id c),
         Inr (Some (client_table device_info ?late, c\<lparr>cr_request_id := cr_request_id c + 1\<rparr>, rest)))"
      using data(2) by blast
    show "?row \<in> snd ` set (client_table device_info ?late)" by (rule row)
  qed
qed

theorem announced_host_is_shown_witness:
  "\<exists>frame nl' packets rows.
    send_log (snd (SendLldp TARGET_TTL (example_sender 3) example_link_env)) = [\<lparr>tx_ifindex = 3, tx_bytes = Inr frame\<rparr>] \<and>
    lldpFrameParser [] example_address (ethernet_payload frame) = Inr nl' \<and>
    ClientSenderSocket_Call (Some [1, 0]) example_interfaces (fold NeighbourList_Tick [10, 19] nl')
      \<lparr>client_socket = 9, eof_received = False\<rparr> = Inr (\<lparr>client_socket = 9, eof_received = False\<rparr>, packets, False) \<and>
    GetData (map (\<lambda>p. (Some p, 0)) packets) \<lparr>cr_request_id = 1\<rparr>
      = ([1, 0], Inr (Some (rows, \<lparr>cr_request_id = 2\<rparr>, []))) \<and>
    \<lparr>nd_chassis = [7, 97, 98], nd_port = [3, 2, 0, 0, 0, 0, 1], nd_local_interface_name = Some [101, 116, 104, 48],
     nd_ipv4_address = None, nd_ipv6_address = None\<rparr> \<in> snd ` set rows"
proof -
  let ?c = "\<lparr>cr_request_id = 1\<rparr>" and ?s = "\<lparr>client_socket = 9, eof_received = False\<rparr>"
  have id: "getMachineId (machine_id_file example_link_env) (machine_id example_link_env) = [97, 98]"
    by (simp add: getMachineId_def example_link_env_def first_word_def is_space_def)
  have s: "device_wf (device_data (example_sender 3))"
    "mac_address (device_data (example_sender 3)) = Some [2, 0, 0, 0, 0, 1]"
    "if_index (device_data (example_sender 3)) \<le> INT_MAX" "machine_id_vector example_link_env = []"
    by (simp_all add: example_sender_def example_device_def
        device_wf_def DeviceData_default_def ETH_ALEN_def INT_MAX_def example_link_env_def)
  have v: "ipv4_address (device_data (example_sender 3)) = None" "ipv6_address (device_data (example_sender 3)) = None"
    "if_index (device_data (example_sender 3)) = 3" "send_log example_link_env = []"
    by (simp_all add: example_sender_def example_device_def DeviceData_default_def example_link_env_def)
  have intact: "dead_storage example_link_env = (\<lambda>_. nth)" by (simp add: example_link_env_def)
  have port: "announced_port example_link_env [2, 0, 0, 0, 0, 1] = [3, 2, 0, 0, 0, 0, 1]"
    by (simp add: announced_intact [OF intact] PORT_TLV_SUBTYPE_MAC_def)
  have n: "Option.bind (om_find example_interfaces (ucast (ucast (sll_ifindex example_address) :: u16)))
       (\<lambda>s. interface_name (device_data s)) = Some [101, 116, 104, 48]" by code_simp
  have req: "as_bytes16 (cr_request_id ?c) = [1, 0]" "?c\<lparr>cr_request_id := cr_request_id ?c + 1\<rparr> = \<lparr>cr_request_id = 2\<rparr>"
    by (simp_all add: as_bytes16_def)
  have "\<exists>frame nl' packets rows.
    send_log (snd (SendLldp TARGET_TTL (example_sender 3) example_link_env)) =
      send_log example_link_env @ [\<lparr>tx_ifindex = if_index (device_data (example_sender 3)), tx_bytes = Inr frame\<rparr>] \<and>
    lldpFrameParser [] example_address (ethernet_payload frame) = Inr nl' \<and>
    ClientSenderSocket_Call (Some (as_bytes16 (cr_request_id ?c))) example_interfaces (fold NeighbourList_Tick [10, 19] nl') ?s
      = Inr (?s, packets, False) \<and>
    (\<forall>rs rest. map fst rs = map Some packets \<longrightarrow>
       GetData (rs @ rest) ?c = (as_bytes16 (cr_request_id ?c),
         Inr (Some (rows, ?c\<lparr>cr_request_id := cr_request_id ?c + 1\<rparr>, rest)))) \<and>
    \<lparr>nd_chassis = 7 # getMachineId (machine_id_file example_link_env) (machine_id example_link_env),
     nd_port = announced_port example_link_env [2, 0, 0, 0, 0, 1],
     nd_local_interface_name = Option.bind (om_find example_interfaces (ucast (ucast (sll_ifindex example_address) :: u16)))
       (\<lambda>s. interface_name (device_data s)),
     nd_ipv4_address = ipv4_address (device_data (example_sender 3)),
     nd_ipv6_address = ipv6_address (device_data (example_sender 3))\<rparr> \<in> snd ` set rows"
    by (rule announced_host_is_shown [OF s])
      (simp_all add: id names_ok_example neighbours_reachable.start example_address_ok neighbours_of_def nl_lookup_def
        announced_intact [OF intact] TARGET_TTL_def)
  then obtain frame nl' packets rows where r: "send_log (snd (SendLldp TARGET_TTL (example_sender 3) example_link_env)) =
      [\<lparr>tx_ifindex = 3, tx_bytes = Inr frame\<rparr>]"
    "lldpFrameParser [] example_address (ethernet_payload frame) = Inr nl'"
    "ClientSenderSocket_Call (Some [1, 0]) example_interfaces (fold NeighbourList_Tick [10, 19] nl') ?s = Inr (?s, packets, False)"
    "\<forall>rs rest. map fst rs = map Some packets \<longrightarrow>
       GetData (rs @ rest) ?c = ([1, 0], Inr (Some (rows, \<lparr>cr_request_id = 2\<rparr>, rest)))"
    "\<lparr>nd_chassis = [7, 97, 98], nd_port = [3, 2, 0, 0, 0, 0, 1], nd_local_interface_name = Some [101, 116, 104, 48],
     nd_ipv4_address = None, nd_ipv6_address = None\<rparr> \<in> snd ` set rows"
    unfolding n v id append_Nil req port by blast
  have "GetData (map (\<lambda>p. (Some p, 0)) packets @ []) ?c = ([1, 0], Inr (Some (rows, \<lparr>cr_request_id = 2\<rparr>, [])))"
    by (rule r(4) [rule_format]) simp
  then have "GetData (map (\<lambda>p. (Some p, 0)) packets) ?c = ([1, 0], Inr (Some (rows, \<lparr>cr_request_id = 2\<rparr>, [])))"
    by (simp only: append_Nil2)
  with r(1-3,5) show ?thesis by blast
qed

section \<open>A device of the running server\<close>

text \<open>C3: A device stays announced: at any time after the start, if the sender of a device is operational,
  its MAC address known and its index an \<open>int\<close>, the server hands a frame for this interface to the
  socket within the next six seconds, whatever else happens in them (other devices, clients, frames,
  monitor packets, dumps that update the device), as long as the clock is read every second, dumps
  keep reporting the device operational and no send reports that the link is down.\<close>
theorem operational_device_stays_announced:
  assumes "server_start epoll m args ans nenv env = Inr (Inr (objs, hs, s0))"
    and "server_run epoll m before s0 = Inr (out0, s)"
    and "om_find (current_state (lldp_repository (srv_clock s))) k = Some d"
    and "device_operational (device_data d)" and "sendable d" and "never_down (srv_link s)"
    and "list_all one_second_tick (repository_heard es)" and "6 \<le> ticks (repository_heard es)"
    and "stays_operational k (repository_heard es) (repository_part s)"
    and "server_run epoll m es s = Inr (out, s')"
  shows "sent_on (if_index (device_data d)) (srv_link s) (srv_link s')"
  using server_announces [OF assms] by (simp add: signature_def sent_for_on)

text \<open>The first second requests a dump, which reports a device; then six seconds pass.\<close>

definition example_dump :: "server_event list" where
  "example_dump = [Timer_ready (Some 1), Device_ready (LinkView (fst example_link) (fst (snd example_link)) (snd (snd example_link))),
     Device_ready (DoneView (example_header 3) 0),
     Address_ready (AddrView (fst example_addr) (fst (snd example_addr)) (snd (snd example_addr))),
     Address_ready (DoneView (example_header 3) 0)]"

lemma repository_run_defined:
  "list_all (\<lambda>e. e \<in> range Timer_ready \<union> range Monitor_ready \<union> range Device_ready \<union> range Address_ready) es \<Longrightarrow>
   \<exists>s'. server_run epoll m es s = Inr ([], s')"
proof (induction es arbitrary: s)
  case (Cons e es)
  then have "\<exists>t. handler_called epoll m e s = Inr ([], t)" by (auto simp: case_prod_beta)
  then show ?case using Cons by fastforce
qed simp

text \<open>The frame of the example device.\<close>

definition example_frame :: bytes where
  "example_frame = [1, 128, 194, 0, 0, 0, 2, 0, 0, 0, 0, 1, 136, 204, 2, 3, 7, 97, 98, 4, 7, 3, 2, 0, 0, 0, 0, 1,
     6, 2, 0, 30, 16, 12, 5, 1, 10, 0, 0, 1, 2, 0, 0, 0, 7, 0, 0, 0]"

lemma example_operational:
  obtains objs hs s0 s s' d where
    "server_start example_epoll 0 [] example_start example_nl_env example_link_env = Inr (Inr (objs, hs, s0))"
    "server_run example_epoll 0 example_dump s0 = Inr ([], s)"
    "server_run example_epoll 0 (replicate 6 (Timer_ready (Some 1))) s = Inr ([], s')"
    "om_find (current_state (lldp_repository (srv_clock s))) 7 = Some d" "device_operational (device_data d)"
    "mac_address (device_data d) = Some [2, 0, 0, 0, 0, 1]" "if_index (device_data d) = 7"
    "stays_operational 7 (repository_heard (replicate 6 (Timer_ready (Some 1)))) (repository_part s)"
    "\<forall>t \<in> set (send_log (srv_link s')). tx_bytes t = Inr example_frame"
proof -
  obtain objs hs s0 where start: "server_start example_epoll 0 [] example_start example_nl_env example_link_env
      = Inr (Inr (objs, hs, s0))" by (rule example_started)
  obtain s where s: "server_run example_epoll 0 example_dump s0 = Inr ([], s)"
    using repository_run_defined [of example_dump example_epoll 0 s0] by (auto simp: example_dump_def)
  let ?es = "replicate 6 (Timer_ready (Some 1))"
  obtain s' where s': "server_run example_epoll 0 ?es s = Inr ([], s')"
    using repository_run_defined [of ?es example_epoll 0 s] by (auto simp: list_all_iff)
  let ?r = "made_repository (example_answers 5) (example_answers 6) (example_answers 7)"
  let ?p = "lldp_repository_run (repository_heard example_dump) (?r, example_nl_env, example_link_env)"
  let ?q = "lldp_repository_run (repository_heard ?es) ?p"
  have part: "repository_part s = ?p"
    using server_run_parts [OF s] by (simp add: started_repository [OF start] example_start_def)
  have part': "repository_part s' = ?q" using server_run_parts [OF s'] part by simp
  have "case ?p of (repo, nenv, env) \<Rightarrow> (case om_find (current_state repo) 7 of None \<Rightarrow> False
      | Some d \<Rightarrow> device_operational (device_data d) \<and> mac_address (device_data d) = Some [2, 0, 0, 0, 0, 1] \<and>
          if_index (device_data d) = 7) \<and>
    fst (repository_run (repository_heard ?es) (the (device_repository repo), nenv)) = []"
    by code_simp
  then obtain d where d: "om_find (current_state (lldp_repository (srv_clock s))) 7 = Some d"
    "device_operational (device_data d)" "mac_address (device_data d) = Some [2, 0, 0, 0, 0, 1]" "if_index (device_data d) = 7"
    and none: "fst (repository_run (repository_heard ?es)
      (the (device_repository (lldp_repository (srv_clock s))), srv_netlink s)) = []"
    unfolding part [symmetric] by (auto simp: repository_part_def split: option.splits)
  have up: "stays_operational 7 (repository_heard ?es) (repository_part s)"
    unfolding stays_operational_def repository_part_def using none by auto
  have "\<forall>t \<in> set (send_log (snd (snd ?q))). tx_bytes t = Inr example_frame" by code_simp
  then have frames: "\<forall>t \<in> set (send_log (srv_link s')). tx_bytes t = Inr example_frame"
    unfolding part' [symmetric] by (simp add: repository_part_def)
  show thesis by (rule that [OF start s s' d up frames])
qed

theorem operational_device_stays_announced_witness:
  "\<exists>objs hs s0 s s'.
    server_start example_epoll 0 [] example_start example_nl_env example_link_env = Inr (Inr (objs, hs, s0)) \<and>
    server_run example_epoll 0 example_dump s0 = Inr ([], s) \<and>
    server_run example_epoll 0 (replicate 6 (Timer_ready (Some 1))) s = Inr ([], s') \<and>
    sent_on 7 (srv_link s) (srv_link s')"
proof -
  obtain objs hs s0 s s' d where e: "server_start example_epoll 0 [] example_start example_nl_env example_link_env
      = Inr (Inr (objs, hs, s0))" "server_run example_epoll 0 example_dump s0 = Inr ([], s)"
    "server_run example_epoll 0 (replicate 6 (Timer_ready (Some 1))) s = Inr ([], s')"
    and d: "om_find (current_state (lldp_repository (srv_clock s))) 7 = Some d" "device_operational (device_data d)"
      "mac_address (device_data d) = Some [2, 0, 0, 0, 0, 1]" "if_index (device_data d) = 7"
    and up: "stays_operational 7 (repository_heard (replicate 6 (Timer_ready (Some 1)))) (repository_part s)"
    by (rule example_operational)
  have "sendable d" by (simp add: sendable_def d(3,4) INT_MAX_def)
  moreover have "never_down (srv_link s)"
    using world_never_down [OF started_world [OF e(1,2)]] by (simp add: never_down_def example_link_env_def)
  moreover have "list_all one_second_tick (repository_heard (replicate 6 (Timer_ready (Some 1))))"
    "6 \<le> ticks (repository_heard (replicate 6 (Timer_ready (Some 1))))"
    by (simp_all add: ticks_def eval_nat_numeral)
  ultimately show ?thesis
    using operational_device_stays_announced [OF e(1,2) d(1,2) _ _ _ _ up e(3)] e d(4) by auto
qed

section \<open>Two running hosts\<close>

text \<open>
  The wire between two servers: every frame that the first hands to its socket for the interface \<open>i\<close>
  between two environments is among the events of the second, on some Ethernet interface of it.
\<close>

fun receives :: "bytes \<Rightarrow> server_event \<Rightarrow> bool" where
  "receives payload (Frame_ready (Some peeked) (Some (address, received))) \<longleftrightarrow>
     peeked = payload \<and> received = payload \<and> lldp_address address"
| "receives payload _ \<longleftrightarrow> False"

definition carried :: "u32 \<Rightarrow> link_env \<Rightarrow> link_env \<Rightarrow> server_event list \<Rightarrow> bool" where
  "carried i env env' es \<longleftrightarrow> (\<forall>t \<in> set (drop (length (send_log env)) (send_log env')).
     tx_ifindex t = i \<longrightarrow> (case tx_bytes t of Inl _ \<Rightarrow> True
       | Inr frame \<Rightarrow> (\<exists>e \<in> set es. receives (ethernet_payload frame) e)))"

lemma receives_event:
  assumes "receives payload e"
  obtains address where "e = received_frame address payload" "lldp_address address"
  using assms by (cases "(payload, e)" rule: receives.cases) auto

text \<open>C1: A device of one running host is shown by another: while the first server runs for six seconds
  of its clock, with the device operational, the second receives what the first sends on the device's
  interface.  Then an announcement of the device is among the frames it receives, under the first
  host's machine identifier, the port and the time to live being what the dead storage of two locals
  of \<open>constructFrame\<close> holds when the frame is written (the MAC address and 30 seconds while it is
  intact).  If fewer seconds than this time to live were counted since on the second server and no
  frame in the same name brought a shorter one, its clients are answered with a table that shows the
  device.
  On the first host one-second ticks, no \<open>ENETDOWN\<close>, dumps that keep reporting the device operational,
  an \<open>int\<close> as index, and a machine identifier of less than 508 bytes that is read after the start are
  assumed.  On the second host, that its answer can be sent: all ports it knows are at most 506 bytes
  long (a longer one makes the answer undefined), it knows fewer than 20000 neighbours, and its
  interface names are as short as the kernel's.\<close>
theorem running_host_is_shown:
  assumes "server_start epoll m args ans nenv env = Inr (Inr (objs, hs, a0))"
    and "server_run epoll m before a0 = Inr (out0, a)"
    and "om_find (current_state (lldp_repository (srv_clock a))) k = Some d"
    and "device_operational (device_data d)" and "if_index (device_data d) \<le> INT_MAX"
    and "mac_address (device_data d) = Some mac" and "never_down env"
    and "list_all one_second_tick (repository_heard es)" and "6 \<le> ticks (repository_heard es)"
    and "stays_operational k (repository_heard es) (repository_part a)"
    and "server_run epoll m es a = Inr (out, a')"
    and "machine_id_vector env = []" and "length (getMachineId (machine_id_file env) (machine_id env)) < 508"
    and "server_start epoll' m' args' ans' nenv' env' = Inr (Inr (objs', hs', b0))"
    and "server_run epoll' m' (before' @ es') b0 = Inr (out', b)"
    and "carried (if_index (device_data d)) (srv_link a) (srv_link a') es'"
    and "names_ok (current_state (lldp_repository (srv_clock b)))"
    and "length (neighbours_of (neighbour_list (srv_clock b))) < 20000"
    and "\<forall>chassis port e. nl_lookup (neighbour_list (srv_clock b)) (chassis, port) = Some e \<longrightarrow> length port \<le> 506"
  shows "\<exists>at name ttl address payload pre post. world at = world env \<and>
    name = (7 # getMachineId (machine_id_file env) (machine_id env), announced_port at mac) \<and>
    ttl = announced_ttl at TARGET_TTL \<and>
    (dead_storage env = (\<lambda>_. nth) \<longrightarrow> snd name = 3 # mac \<and> ttl = 30) \<and>
    es' = pre @ received_frame address payload # post \<and> announcement_of name ttl payload \<and>
    (list_all (keeps_announced name ttl) post \<and> sum_list (map counted_seconds post) < unat ttl \<longrightarrow>
       shown_to_clients epoll' m' name b)"
proof -
  have w: "world (srv_link a) = world env" by (rule started_world [OF assms(1,2)])
  have d: "sendable d" "never_down (srv_link a)"
    using assms(5,6,7) world_never_down [OF w] by (simp_all add: sendable_def)
  have sig: "signature d (srv_link a) = (Some mac, if_index (device_data d), world env)"
    by (simp add: signature_def assms(6) w)
  have id: "fst (getMachineIdTlvValue env) = 7 # getMachineId (machine_id_file env) (machine_id env)"
    using getMachineIdTlvValue_fresh [OF assms(12)] by (simp add: PORT_TLV_SUBTYPE_LOCAL_def)
  obtain ts t where log: "send_log (srv_link a') = send_log (srv_link a) @ ts" "t \<in> set ts"
    and t: "announcement_with (Some mac, if_index (device_data d), world env) t"
    using server_announces [OF assms(1-4) d assms(8-11)] unfolding sig sent_for_def by blast
  have "length (fst (getMachineIdTlvValue env)) < 512" using assms(13) by (simp add: id)
  then obtain frame at where frame: "tx_ifindex t = if_index (device_data d)" "tx_bytes t = Inr frame" "world at = world env"
      "announcement_of (fst (getMachineIdTlvValue env), announced_port at mac) (announced_ttl at TARGET_TTL) (ethernet_payload frame)"
      "length (ethernet_payload frame) \<le> MAX_FRAME_BUFFER_SIZE"
    by (rule transmission_announces [OF t])
  let ?ttl = "announced_ttl at TARGET_TTL"
  define name where "name = (fst (getMachineIdTlvValue env), announced_port at mac)"
  obtain e where e: "e \<in> set es'" "receives (ethernet_payload frame) e"
    using assms(16) log frame(1,2) by (fastforce simp: carried_def)
  obtain address where address: "e = received_frame address (ethernet_payload frame)" "lldp_address address"
    by (rule receives_event [OF e(2)])
  obtain pre post where es': "es' = pre @ e # post" using split_list [OF e(1)] by blast
  have run: "server_run epoll' m' ((before' @ pre) @ received_frame address (ethernet_payload frame) # post) b0 = Inr (out', b)"
    using assms(15) by (simp add: es' address(1))
  have start: "neighbours_reachable (neighbour_list (srv_clock b0))" "srv_buffer b0 = 2"
    by (rule started_reachable [OF assms(14)]) (rule server_start_parts [OF assms(14)])
  have shown: "shown_to_clients epoll' m' name b"
    if "list_all (keeps_announced name ?ttl) post" "sum_list (map counted_seconds post) < unat ?ttl"
  proof (rule known_is_shown [OF neighbours_reachable_run [OF run start(1)] _ _ assms(17-19)])
    show "known_for (Suc (unat ?ttl - Suc (sum_list (map counted_seconds post)))) name (neighbour_list (srv_clock b))"
      using heard_neighbour_is_known [OF run start frame(4,5) address(2), folded name_def, OF that] that(2)
      by (simp add: Suc_diff_Suc)
    show "length (fst name) \<le> 508" using assms(13) by (simp add: name_def id)
  qed
  have "dead_storage at = dead_storage env" using frame(3) by (simp add: world_def)
  then have "dead_storage env = (\<lambda>_. nth) \<longrightarrow> snd name = 3 # mac \<and> ?ttl = 30"
    using announced_intact [of at] by (simp add: name_def PORT_TLV_SUBTYPE_MAC_def TARGET_TTL_def)
  then show ?thesis
    using frame(3,4) shown es' address(1) unfolding name_def id by blast
qed

theorem running_host_is_shown_witness:
  "\<exists>objs hs a0 a a' fd b q.
    server_start example_epoll 0 [] example_start example_nl_env example_link_env = Inr (Inr (objs, hs, a0)) \<and>
    server_run example_epoll 0 example_dump a0 = Inr ([], a) \<and>
    server_run example_epoll 0 (replicate 6 (Timer_ready (Some 1))) a = Inr ([], a') \<and>
    server_run example_epoll 0 [Listener_ready (Some fd), received_frame example_address (ethernet_payload example_frame)] a0
      = Inr ([], b) \<and>
    map_of (transport_sockets (srv_clients b)) q \<noteq> None \<and>
    shown_to_clients example_epoll 0 ([7, 97, 98], [3, 2, 0, 0, 0, 0, 1]) b"
proof -
  obtain objs hs a0 a a' d where A: "server_start example_epoll 0 [] example_start example_nl_env example_link_env
      = Inr (Inr (objs, hs, a0))" "server_run example_epoll 0 example_dump a0 = Inr ([], a)"
    "server_run example_epoll 0 (replicate 6 (Timer_ready (Some 1))) a = Inr ([], a')"
    and d: "om_find (current_state (lldp_repository (srv_clock a))) 7 = Some d" "device_operational (device_data d)"
      "mac_address (device_data d) = Some [2, 0, 0, 0, 0, 1]" "if_index (device_data d) = 7"
    and up: "stays_operational 7 (repository_heard (replicate 6 (Timer_ready (Some 1)))) (repository_part a)"
    and frames: "\<forall>t \<in> set (send_log (srv_link a')). tx_bytes t = Inr example_frame"
    by (rule example_operational)
  obtain objs' hs' b0 fd b1 q where B: "server_start example_epoll 0 [] example_start example_nl_env example_link_env
      = Inr (Inr (objs', hs', b0))" "handler_called example_epoll 0 (Listener_ready (Some fd)) b0 = Inr ([], b1)"
    "transport_sockets (srv_clients b1) = [(q, ClientSenderSocket_new fd)]" "neighbour_list (srv_clock b1) = []" "srv_buffer b1 = 2"
    by (rule example_connected)
  have b0: "b0 = a0" using A(1) B(1) by simp
  let ?f = "received_frame example_address (ethernet_payload example_frame)"
  let ?nl = "[([7, 97, 98], [([3, 2, 0, 0, 0, 0, 1], \<lparr>ne_chassis_id = [7, 97, 98], ne_port_id = [3, 2, 0, 0, 0, 0, 1],
     ne_interface_index = 2, ne_time_to_live = 30, ne_ipv4_address = Some [10, 0, 0, 1], ne_ipv6_address = None\<rparr>)])]"
  have frame: "frame_called (Some (ethernet_payload example_frame)) (Some (example_address, ethernet_payload example_frame)) 2 []
      = Inr (34, ?nl)" by code_simp
  define b where "b = b1\<lparr>srv_buffer := 34, srv_clock := (srv_clock b1)\<lparr>neighbour_list := ?nl\<rparr>\<rparr>"
  have b: "server_run example_epoll 0 ([Listener_ready (Some fd)] @ [?f]) b0 = Inr ([], b)"
    "transport_sockets (srv_clients b) = [(q, ClientSenderSocket_new fd)]" "neighbour_list (srv_clock b) = ?nl"
    using B(2-5) frame by (simp_all add: b_def del: handler_called.simps(8))
  have "repository_part b = (made_repository (example_answers 5) (example_answers 6) (example_answers 7), example_nl_env, example_link_env)"
    using server_run_parts [OF b(1)] by (simp add: started_repository [OF B(1)] example_start_def lldp_repository_run_def)
  then have info: "current_state (lldp_repository (srv_clock b)) = []"
    by (simp add: repository_part_def made_repository_def LldpRepository_new_def)
  have id: "getMachineId (machine_id_file example_link_env) (machine_id example_link_env) = [97, 98]"
    by (simp add: getMachineId_def example_link_env_def first_word_def is_space_def)
  have ticks: "list_all one_second_tick (repository_heard (replicate 6 (Timer_ready (Some 1))))"
    "6 \<le> ticks (repository_heard (replicate 6 (Timer_ready (Some 1))))"
    by (simp_all add: ticks_def eval_nat_numeral)
  have env: "never_down example_link_env" "machine_id_vector example_link_env = []" "dead_storage example_link_env = (\<lambda>_. nth)"
    by (simp_all add: never_down_def example_link_env_def)
  have carried: "carried (if_index (device_data d)) (srv_link a) (srv_link a') [?f]"
    using frames in_set_dropD by (fastforce simp: carried_def)
  have short: "\<forall>chassis port e. nl_lookup (neighbour_list (srv_clock b)) (chassis, port) = Some e \<longrightarrow> length port \<le> 506"
    unfolding b(3) by (auto simp: nl_lookup_def om_find_Cons split: if_splits)
  have small: "if_index (device_data d) \<le> INT_MAX"
    "length (getMachineId (machine_id_file example_link_env) (machine_id example_link_env)) < 508"
    "names_ok (current_state (lldp_repository (srv_clock b)))" "length (neighbours_of (neighbour_list (srv_clock b))) < 20000"
    by (simp_all add: id d(4) INT_MAX_def b(3) info names_ok_def neighbours_of_def om_find_def)
  obtain at name ttl address payload pre post where r:
    "name = (7 # getMachineId (machine_id_file example_link_env) (machine_id example_link_env), announced_port at [2, 0, 0, 0, 0, 1])"
    "dead_storage example_link_env = (\<lambda>_. nth) \<longrightarrow> snd name = 3 # [2, 0, 0, 0, 0, 1] \<and> ttl = 30"
    "[?f] = pre @ received_frame address payload # post"
    "list_all (keeps_announced name ttl) post \<and> sum_list (map counted_seconds post) < unat ttl \<longrightarrow> shown_to_clients example_epoll 0 name b"
    using running_host_is_shown [OF A(1,2) d(1,2) small(1) d(3) env(1) ticks up A(3) env(2) small(2) B(1) b(1) carried small(3,4) short]
    by (elim exE conjE) (rule that)
  have "name = ([7, 97, 98], [3, 2, 0, 0, 0, 0, 1])" "ttl = 30" "post = []"
    using r(1-3) by (simp_all add: id env(3) prod_eq_iff Cons_eq_append_conv)
  then have "shown_to_clients example_epoll 0 ([7, 97, 98], [3, 2, 0, 0, 0, 0, 1]) b" using r(4) by simp
  then show ?thesis using A b(1,2) unfolding b0 by (intro exI conjI) (assumption, assumption, assumption, simp, simp)
qed

end
